(* ===== verification/Prelude.thy ===== *)
theory Prelude
  imports Complex_Main "HOL-Library.Word" "HOL-Library.State_Monad"
begin

text \<open>
  Shared ground of the development: the types every component uses (bytes, the exceptions the
  service raises), Python's statement sequencing with exceptions as a state monad over the library's
  \<open>State_Monad\<close>, a small program logic for it, and the named collections the components put
  their rules into.

  A Python method that reads or writes state is a value of type \<open>('s, 'a) py\<close>: a state
  transformer whose result is \<open>Inr\<close> of the returned value or \<open>Inl\<close> of the exception that left
  the method. \<open>bindE\<close> is \<open>;\<close> (an exception skips the rest), \<open>tryE\<close> is
  \<open>try/except/else\<close>.
\<close>

section \<open>Types shared by every component\<close>

type_synonym byte = "8 word"
type_synonym bytes = "byte list"

text \<open>
  The exceptions of the service, with the payload the code reads back: the cap name of
  \<open>CapBreach\<close> (its \<open>retry_after_s\<close> is always the default 60), the error name of
  \<open>Reverted\<close>, the reason code of \<open>CalldataError\<close>. The remaining messages are only logged.
  \<open>SqliteError\<close> is \<open>sqlite3.Error\<close>; \<open>ValueError\<close>, \<open>OverflowError\<close>, \<open>AttributeError\<close>
  and \<open>TypeError\<close> are the interpreter's own; \<open>OtherError\<close> stands for any exception of a
  third-party call.
\<close>

datatype exn =
    CapBreach string
  | ClockRegression
  | LedgerUnavailable
  | SqliteError
  | RpcUnavailable
  | Reverted string
  | ChainUnverified
  | CalldataError string
  | ConfigError
  | ValueError
  | OverflowError
  | AttributeError
  | TypeError
  | OtherError string

named_theorems io_intros \<open>rules that push a reflexive and transitive relation through a program\<close>
named_theorems spec_intros \<open>rules that push a triple through a program\<close>

section \<open>Statements with exceptions\<close>

type_synonym ('s, 'a) py = "('s, exn + 'a) state"

definition ok :: "'a \<Rightarrow> ('s, 'a) py" where
  "ok x = State_Monad.return (Inr x)"

definition raise :: "exn \<Rightarrow> ('s, 'a) py" where
  "raise e = State_Monad.return (Inl e)"

definition tryE :: "('s, 'a) py \<Rightarrow> (exn \<Rightarrow> ('s, 'b) py) \<Rightarrow> ('a \<Rightarrow> ('s, 'b) py) \<Rightarrow> ('s, 'b) py" where
  "tryE m h k = do { r \<leftarrow> m; case r of Inl e \<Rightarrow> h e | Inr x \<Rightarrow> k x }"

definition bindE :: "('s, 'a) py \<Rightarrow> ('a \<Rightarrow> ('s, 'b) py) \<Rightarrow> ('s, 'b) py" where
  "bindE m f = tryE m raise f"

definition thenE :: "('s, 'a) py \<Rightarrow> ('s, 'b) py \<Rightarrow> ('s, 'b) py" where
  "thenE m n = bindE m (\<lambda>_. n)"

definition readE :: "('s \<Rightarrow> 'a) \<Rightarrow> ('s, 'a) py" where
  "readE f = State (\<lambda>s. (Inr (f s), s))"

definition writeE :: "('s \<Rightarrow> 's) \<Rightarrow> ('s, unit) py" where
  "writeE f = State (\<lambda>s. (Inr (), f s))"

definition liftE :: "exn + 'a \<Rightarrow> ('s, 'a) py" where
  "liftE r = State_Monad.return r"

text \<open>\<open>for x in xs: body x\<close>, the first exception leaving the loop.\<close>

primrec forE :: "('a \<Rightarrow> ('s, unit) py) \<Rightarrow> 'a list \<Rightarrow> ('s, unit) py" where
  "forE f [] = ok ()"
| "forE f (x # xs) = thenE (f x) (forE f xs)"

lemma run_ok [simp]: "run_state (ok x) s = (Inr x, s)"
  by (simp add: ok_def)

lemma run_raise [simp]: "run_state (raise e) s = (Inl e, s)"
  by (simp add: raise_def)

lemma run_liftE [simp]: "run_state (liftE r) s = (r, s)"
  by (simp add: liftE_def)

lemma run_readE [simp]: "run_state (readE f) s = (Inr (f s), s)"
  by (simp add: readE_def)

lemma run_writeE [simp]: "run_state (writeE f) s = (Inr (), f s)"
  by (simp add: writeE_def)

lemma run_tryE [simp]:
  "run_state (tryE m h k) s =
     (case run_state m s of (Inl e, s') \<Rightarrow> run_state (h e) s' | (Inr x, s') \<Rightarrow> run_state (k x) s')"
  by (simp add: tryE_def split: prod.splits sum.splits)

lemma run_bindE [simp]:
  "run_state (bindE m f) s =
     (case run_state m s of (Inl e, s') \<Rightarrow> (Inl e, s') | (Inr x, s') \<Rightarrow> run_state (f x) s')"
  by (simp add: bindE_def split: prod.splits sum.splits)

lemma run_thenE [simp]:
  "run_state (thenE m n) s =
     (case run_state m s of (Inl e, s') \<Rightarrow> (Inl e, s') | (Inr x, s') \<Rightarrow> run_state n s')"
  by (simp add: thenE_def)

lemma thenE_bindE: "thenE (bindE m f) n = bindE m (\<lambda>x. thenE (f x) n)"
  by (rule state.expand) (auto simp: fun_eq_iff split: prod.splits sum.splits)

section \<open>Triples\<close>

text \<open>
  \<open>spec P m Q X\<close>: started in a state with \<open>P\<close>, the program \<open>m\<close> ends with \<open>Q x\<close> when it returns
  \<open>x\<close> and with \<open>X e\<close> when exception \<open>e\<close> leaves it. Programs are total functions, so this is
  total correctness.
\<close>

definition spec :: "('s \<Rightarrow> bool) \<Rightarrow> ('s, 'a) py \<Rightarrow> ('a \<Rightarrow> 's \<Rightarrow> bool) \<Rightarrow> (exn \<Rightarrow> 's \<Rightarrow> bool) \<Rightarrow> bool" where
  "spec P m Q X \<longleftrightarrow>
     (\<forall>s. P s \<longrightarrow> (case run_state m s of (Inl e, s') \<Rightarrow> X e s' | (Inr x, s') \<Rightarrow> Q x s'))"

lemma specI:
  assumes "\<And>s x s'. P s \<Longrightarrow> run_state m s = (Inr x, s') \<Longrightarrow> Q x s'"
    and "\<And>s e s'. P s \<Longrightarrow> run_state m s = (Inl e, s') \<Longrightarrow> X e s'"
  shows "spec P m Q X"
  using assms by (auto simp: spec_def split: prod.split sum.split)

lemma spec_returns: "spec P m Q X \<Longrightarrow> P s \<Longrightarrow> run_state m s = (Inr x, s') \<Longrightarrow> Q x s'"
  by (auto simp: spec_def split: prod.splits sum.splits)

lemma spec_raises: "spec P m Q X \<Longrightarrow> P s \<Longrightarrow> run_state m s = (Inl e, s') \<Longrightarrow> X e s'"
  by (auto simp: spec_def split: prod.splits sum.splits)

lemma spec_ok [spec_intros]: "(\<And>s. P s \<Longrightarrow> Q x s) \<Longrightarrow> spec P (ok x) Q X"
  by (simp add: spec_def)

lemma spec_raise [spec_intros]: "(\<And>s. P s \<Longrightarrow> X e s) \<Longrightarrow> spec P (raise e) Q X"
  by (simp add: spec_def)

lemma spec_readE [spec_intros]: "(\<And>s. P s \<Longrightarrow> Q (f s) s) \<Longrightarrow> spec P (readE f) Q X"
  by (simp add: spec_def)

lemma spec_writeE [spec_intros]: "(\<And>s. P s \<Longrightarrow> Q () (f s)) \<Longrightarrow> spec P (writeE f) Q X"
  by (simp add: spec_def)

lemma spec_tryE:
  assumes "spec P m R Y" "\<And>x. spec (R x) (k x) Q X" "\<And>e. spec (Y e) (h e) Q X"
  shows "spec P (tryE m h k) Q X"
  using assms by (fastforce simp: spec_def split: prod.splits sum.splits)

lemma spec_bindE:
  assumes "spec P m R X" "\<And>x. spec (R x) (f x) Q X"
  shows "spec P (bindE m f) Q X"
  unfolding bindE_def by (rule spec_tryE [OF assms]) (simp add: spec_def)

lemma spec_thenE: "spec P m (\<lambda>_. R) X \<Longrightarrow> spec R n Q X \<Longrightarrow> spec P (thenE m n) Q X"
  unfolding thenE_def by (rule spec_bindE)

lemma spec_conseq:
  assumes "spec P m Q X" "\<And>s. P' s \<Longrightarrow> P s" "\<And>x s. Q x s \<Longrightarrow> Q' x s" "\<And>e s. X e s \<Longrightarrow> X' e s"
  shows "spec P' m Q' X'"
  using assms by (fastforce simp: spec_def split: prod.splits sum.splits)

lemma spec_if:
  "(b \<Longrightarrow> spec P m Q X) \<Longrightarrow> (\<not> b \<Longrightarrow> spec P n Q X) \<Longrightarrow> spec P (if b then m else n) Q X"
  by simp

text \<open>The values a program can return at all, from whatever state.\<close>

definition produces :: "('s, 'a) py \<Rightarrow> 'a \<Rightarrow> bool" where
  "produces m x \<longleftrightarrow> (\<exists>s s'. run_state m s = (Inr x, s'))"

lemma produces_ok [simp]: "produces (ok x) y \<longleftrightarrow> x = y"
  by (auto simp: produces_def)

lemma produces_raise [simp]: "\<not> produces (raise e) y"
  by (auto simp: produces_def)

lemma produces_liftE [simp]: "produces (liftE r) y \<longleftrightarrow> r = Inr y"
  by (auto simp: produces_def)

lemma produces_tryE:
  assumes "produces (tryE m h k) y"
  shows "(\<exists>x. produces m x \<and> produces (k x) y) \<or> (\<exists>e. produces (h e) y)"
proof -
  obtain s s' where run: "run_state (tryE m h k) s = (Inr y, s')" using assms by (auto simp: produces_def)
  obtain r t where m: "run_state m s = (r, t)" by fastforce
  show ?thesis
  proof (cases r)
    case (Inl e)
    then have "run_state (h e) t = (Inr y, s')" using run m by simp
    then show ?thesis unfolding produces_def by blast
  next
    case (Inr x)
    then have "run_state (k x) t = (Inr y, s')" using run m by simp
    then show ?thesis using m Inr unfolding produces_def by blast
  qed
qed

lemma produces_bindE:
  assumes "produces (bindE m f) y"
  obtains x where "produces m x" "produces (f x) y"
  using produces_tryE [OF assms [unfolded bindE_def]] by auto

lemma produces_thenE:
  assumes "produces (thenE m n) y"
  shows "produces n y"
  using assms unfolding thenE_def by (auto elim: produces_bindE)

section \<open>Relations every step of a program keeps\<close>

text \<open>
  Invariants, frames ("this operation does not touch that field") and monotonicity ("the log only
  grows") are all relations between the state before and after that are reflexive and transitive;
  such a relation holds of a program as soon as it holds of its primitive steps.
\<close>

locale effect_preorder =
  fixes R :: "'s \<Rightarrow> 's \<Rightarrow> bool"
  assumes effect_refl: "R s s"
    and effect_trans: "R s t \<Longrightarrow> R t u \<Longrightarrow> R s u"
begin

lemma io_ok [io_intros]: "state_io_rel R (ok x)"
  by (auto simp: state_io_rel_def effect_refl)

lemma io_raise [io_intros]: "state_io_rel R (raise e)"
  by (auto simp: state_io_rel_def effect_refl)

lemma io_liftE [io_intros]: "state_io_rel R (liftE r)"
  by (auto simp: state_io_rel_def effect_refl)

lemma io_readE [io_intros]: "state_io_rel R (readE f)"
  by (auto simp: state_io_rel_def effect_refl)

lemma io_writeE: "(\<And>s. R s (f s)) \<Longrightarrow> state_io_rel R (writeE f)"
  by (auto simp: state_io_rel_def)

lemma io_tryE [io_intros]:
  assumes "state_io_rel R m" "\<And>e. state_io_rel R (h e)" "\<And>x. state_io_rel R (k x)"
  shows "state_io_rel R (tryE m h k)"
proof (rule state_io_relI)
  fix a s s'
  assume run: "run_state (tryE m h k) s = (a, s')"
  obtain r t where m: "run_state m s = (r, t)" by fastforce
  then have st: "R s t" using assms(1) by auto
  have "R t s'"
  proof (cases r)
    case (Inl e)
    with run m have "run_state (h e) t = (a, s')" by simp
    then show ?thesis using assms(2) by auto
  next
    case (Inr x)
    with run m have "run_state (k x) t = (a, s')" by simp
    then show ?thesis using assms(3) by auto
  qed
  with st show "R s s'" by (rule effect_trans)
qed

lemma io_bindE [io_intros]:
  "state_io_rel R m \<Longrightarrow> (\<And>x. state_io_rel R (f x)) \<Longrightarrow> state_io_rel R (bindE m f)"
  unfolding bindE_def by (intro io_tryE io_raise)

lemma io_thenE [io_intros]: "state_io_rel R m \<Longrightarrow> state_io_rel R n \<Longrightarrow> state_io_rel R (thenE m n)"
  unfolding thenE_def by (intro io_bindE)

lemma io_if [io_intros]:
  "(b \<Longrightarrow> state_io_rel R m) \<Longrightarrow> (\<not> b \<Longrightarrow> state_io_rel R n) \<Longrightarrow> state_io_rel R (if b then m else n)"
  by simp

text \<open>The rest of a program need only be checked for values the first part can return.\<close>

lemma io_tryE_produced:
  assumes "state_io_rel R m" "\<And>e. state_io_rel R (h e)" "\<And>x. produces m x \<Longrightarrow> state_io_rel R (k x)"
  shows "state_io_rel R (tryE m h k)"
proof -
  have "run_state (tryE m h k) s = run_state (tryE m h (\<lambda>x. if produces m x then k x else raise ValueError)) s" for s
    by (auto simp: produces_def split: prod.splits sum.splits)
  then have "tryE m h k = tryE m h (\<lambda>x. if produces m x then k x else raise ValueError)"
    by (intro state.expand ext)
  moreover have "state_io_rel R (tryE m h (\<lambda>x. if produces m x then k x else raise ValueError))"
    using assms by (intro io_tryE io_if io_raise)
  ultimately show ?thesis by simp
qed

lemma io_bindE_produced:
  "state_io_rel R m \<Longrightarrow> (\<And>x. produces m x \<Longrightarrow> state_io_rel R (f x)) \<Longrightarrow> state_io_rel R (bindE m f)"
  unfolding bindE_def by (intro io_tryE_produced io_raise)

lemma io_option [io_intros]:
  "state_io_rel R m \<Longrightarrow> (\<And>x. state_io_rel R (f x)) \<Longrightarrow>
     state_io_rel R (case v of None \<Rightarrow> m | Some x \<Rightarrow> f x)"
  by (cases v) simp_all

lemma io_sum [io_intros]:
  "(\<And>e. state_io_rel R (f e)) \<Longrightarrow> (\<And>x. state_io_rel R (g x)) \<Longrightarrow>
     state_io_rel R (case v of Inl e \<Rightarrow> f e | Inr x \<Rightarrow> g x)"
  by (cases v) simp_all

lemma io_exn [io_intros]:
  assumes "\<And>n. state_io_rel R (a n)" "state_io_rel R b" "state_io_rel R c" "state_io_rel R d"
    "state_io_rel R e" "\<And>n. state_io_rel R (f n)" "state_io_rel R g" "\<And>n. state_io_rel R (h n)"
    "state_io_rel R i" "state_io_rel R j" "state_io_rel R k" "state_io_rel R l" "state_io_rel R m"
    "\<And>n. state_io_rel R (p n)"
  shows "state_io_rel R (case x of CapBreach n \<Rightarrow> a n | ClockRegression \<Rightarrow> b | LedgerUnavailable \<Rightarrow> c
      | SqliteError \<Rightarrow> d | RpcUnavailable \<Rightarrow> e | Reverted n \<Rightarrow> f n | ChainUnverified \<Rightarrow> g
      | CalldataError n \<Rightarrow> h n | ConfigError \<Rightarrow> i | ValueError \<Rightarrow> j | OverflowError \<Rightarrow> k
      | AttributeError \<Rightarrow> l | TypeError \<Rightarrow> m | OtherError n \<Rightarrow> p n)"
  using assms by (cases x) simp_all

lemma io_forE [io_intros]: "(\<And>x. state_io_rel R (f x)) \<Longrightarrow> state_io_rel R (forE f xs)"
  by (induction xs) (auto intro: io_intros simp del: run_thenE)

end

text \<open>An invariant as such a relation: whoever holds it before holds it after.\<close>

definition keeps :: "('s \<Rightarrow> bool) \<Rightarrow> 's \<Rightarrow> 's \<Rightarrow> bool" where
  "keeps I s t \<longleftrightarrow> (I s \<longrightarrow> I t)"

interpretation keeps: effect_preorder "keeps I" for I :: "'s \<Rightarrow> bool"
  by unfold_locales (auto simp: keeps_def)

text \<open>A field that no step writes.\<close>

definition same :: "('s \<Rightarrow> 'f) \<Rightarrow> 's \<Rightarrow> 's \<Rightarrow> bool" where
  "same f s t \<longleftrightarrow> f t = f s"

interpretation same: effect_preorder "same f" for f :: "'s \<Rightarrow> 'f"
  by unfold_locales (auto simp: same_def)

lemma state_io_rel_keeps:
  "state_io_rel (keeps I) m \<Longrightarrow> I s \<Longrightarrow> run_state m s = (r, s') \<Longrightarrow> I s'"
  by (auto simp: keeps_def)

lemma state_io_rel_same: "state_io_rel (same f) m \<Longrightarrow> run_state m s = (r, s') \<Longrightarrow> f s' = f s"
  by (auto simp: same_def)

section \<open>Lists\<close>

lemma sum_list_filter_mono:
  fixes f :: "'a \<Rightarrow> int"
  assumes "\<And>x. x \<in> set xs \<Longrightarrow> P x \<Longrightarrow> Q x" "\<And>x. x \<in> set xs \<Longrightarrow> 0 \<le> f x"
  shows "sum_list (map f (filter P xs)) \<le> sum_list (map f (filter Q xs))"
  using assms
proof (induction xs)
  case Nil
  then show ?case by simp
next
  case (Cons x xs)
  then have "sum_list (map f (filter P xs)) \<le> sum_list (map f (filter Q xs))" by simp
  moreover have "P x \<Longrightarrow> Q x" "0 \<le> f x" using Cons.prems by auto
  ultimately show ?case by auto
qed

lemma length_filter_mono:
  assumes "\<And>x. x \<in> set xs \<Longrightarrow> P x \<Longrightarrow> Q x"
  shows "length (filter P xs) \<le> length (filter Q xs)"
  using assms by (induction xs) (auto simp: le_Suc_eq)

lemma length_filter_pos: "x \<in> set xs \<Longrightarrow> P x \<Longrightarrow> 0 < length (filter P xs)"
  by (induction xs) auto

lemma find_Some_mem: "find P xs = Some x \<Longrightarrow> x \<in> set xs \<and> P x"
  by (auto simp: find_Some_iff)

lemma find_None_mem: "find P xs = None \<Longrightarrow> x \<in> set xs \<Longrightarrow> \<not> P x"
  by (auto simp: find_None_iff)

lemma foldl_max_le: "(m :: int) \<le> foldl max m ns" "n \<in> set ns \<Longrightarrow> n \<le> foldl max m ns"
proof (induction ns arbitrary: m)
  case (Cons k ns)
  { case 1 then show ?case using Cons.IH(1) [of "max m k"] by simp }
  { case 2 then show ?case using Cons.IH [of "max m k"] by auto }
qed simp_all

section \<open>Fallible computations without state\<close>

definition bindR :: "exn + 'a \<Rightarrow> ('a \<Rightarrow> exn + 'b) \<Rightarrow> exn + 'b" where
  "bindR r f = (case r of Inl e \<Rightarrow> Inl e | Inr x \<Rightarrow> f x)"

lemma bindR_simps [simp]: "bindR (Inl e) f = Inl e" "bindR (Inr x) f = f x"
  by (simp_all add: bindR_def)

lemma bindR_Inr: "bindR r f = Inr y \<longleftrightarrow> (\<exists>x. r = Inr x \<and> f x = Inr y)"
  by (cases r) simp_all

lemma bindR_InrE:
  assumes "bindR r f = Inr y"
  obtains x where "r = Inr x" "f x = Inr y"
  using assms by (cases r) simp_all

definition guardR :: "bool \<Rightarrow> exn \<Rightarrow> exn + unit" where
  "guardR b e = (if b then Inr () else Inl e)"

lemma guardR_Inr [simp]: "guardR b e = Inr u \<longleftrightarrow> b"
  by (simp add: guardR_def)

definition someR :: "'a option \<Rightarrow> exn \<Rightarrow> exn + 'a" where
  "someR v e = (case v of None \<Rightarrow> Inl e | Some x \<Rightarrow> Inr x)"

lemma someR_Inr [simp]: "someR v e = Inr x \<longleftrightarrow> v = Some x"
  by (auto simp: someR_def split: option.splits)

end
