(* ===== verification/Pytext.thy ===== *)
theory Pytext
  imports Prelude
begin

text \<open>
  The parts of Python's \<open>str\<close>, \<open>bytes\<close> and \<open>int\<close> that the service uses, written out: case folding
  and stripping, \<open>split\<close>, decimal and hexadecimal text, \<open>bytes.hex\<close>, \<open>bytes.fromhex\<close>,
  \<open>int.from_bytes\<close> and \<open>int.to_bytes\<close> in big-endian order, \<open>str.encode\<close>. A \<open>str\<close> is a HOL
  \<open>string\<close>: code points below 256, which holds every text the service compares or hashes.
\<close>

section \<open>Characters\<close>

abbreviation code :: "char \<Rightarrow> nat" where
  "code c \<equiv> of_char c"

definition lower_char :: "char \<Rightarrow> char" where
  "lower_char c =
     (let n = code c in
      if 65 \<le> n \<and> n \<le> 90 \<or> 192 \<le> n \<and> n \<le> 222 \<and> n \<noteq> 215 then char_of (n + 32) else c)"

definition py_lower :: "string \<Rightarrow> string" where
  "py_lower s = map lower_char s"

definition space_char :: "char \<Rightarrow> bool" where
  "space_char c =
     (let n = code c in 9 \<le> n \<and> n \<le> 13 \<or> 28 \<le> n \<and> n \<le> 32 \<or> n = 133 \<or> n = 160)"

definition py_strip :: "string \<Rightarrow> string" where
  "py_strip s = rev (dropWhile space_char (rev (dropWhile space_char s)))"

definition starts_with :: "string \<Rightarrow> string \<Rightarrow> bool" where
  "starts_with p s \<longleftrightarrow> take (length p) s = p"

definition ends_with :: "string \<Rightarrow> string \<Rightarrow> bool" where
  "ends_with p s \<longleftrightarrow> starts_with (rev p) (rev s)"

text \<open>\<open>s.split(c)\<close>: never empty, an empty part between two separators.\<close>

fun py_split :: "char \<Rightarrow> string \<Rightarrow> string list" where
  "py_split c [] = [[]]"
| "py_split c (x # xs) =
     (if x = c then [] # py_split c xs
      else (case py_split c xs of [] \<Rightarrow> [[x]] | p # ps \<Rightarrow> (x # p) # ps))"

section \<open>Decimal and hexadecimal integers as text\<close>

definition digit_char :: "nat \<Rightarrow> char" where
  "digit_char d = (if d < 10 then char_of (48 + d) else char_of (87 + d))"

definition digit_of :: "nat \<Rightarrow> char \<Rightarrow> nat option" where
  "digit_of base c =
     (let n = code c;
          d = (if 48 \<le> n \<and> n \<le> 57 then n - 48
               else if 97 \<le> n \<and> n \<le> 122 then n - 87
               else if 65 \<le> n \<and> n \<le> 90 then n - 55 else 99)
      in if d < base then Some d else None)"

fun nat_str :: "nat \<Rightarrow> string" where
  "nat_str n = (if n < 10 then [digit_char n] else nat_str (n div 10) @ [digit_char (n mod 10)])"

declare nat_str.simps [simp del]

definition int_str :: "int \<Rightarrow> string" where
  "int_str i = (if i < 0 then CHR ''-'' # nat_str (nat (- i)) else nat_str (nat i))"

text \<open>
  The digits of \<open>int(s, base)\<close>: at least one, single underscores between them allowed. The flag
  says that a digit must come next.
\<close>

fun scan_digits :: "nat \<Rightarrow> bool \<Rightarrow> int \<Rightarrow> string \<Rightarrow> int option" where
  "scan_digits base due acc [] = (if due then None else Some acc)"
| "scan_digits base due acc (c # cs) =
     (if c = CHR ''_'' \<and> \<not> due then scan_digits base True acc cs
      else (case digit_of base c of None \<Rightarrow> None
            | Some d \<Rightarrow> scan_digits base False (acc * int base + int d) cs))"

definition drop_0x :: "string \<Rightarrow> string" where
  "drop_0x s =
     (if starts_with ''0x'' s \<or> starts_with ''0X'' s
      then (let t = drop 2 s in if starts_with ''_'' t then drop 1 t else t) else s)"

definition scan_signed :: "nat \<Rightarrow> string \<Rightarrow> int option" where
  "scan_signed base s =
     (let body = (\<lambda>t. scan_digits base True 0 (if base = 16 then drop_0x t else t))
      in case s of [] \<Rightarrow> None
         | c # cs \<Rightarrow> if c = CHR ''-'' then map_option uminus (body cs)
                     else if c = CHR ''+'' then body cs else body s)"

text \<open>\<open>int(s)\<close> and \<open>int(s, 16)\<close>; \<open>None\<close> is \<open>ValueError\<close>.\<close>

definition py_int :: "string \<Rightarrow> int option" where
  "py_int s = scan_signed 10 (py_strip s)"

definition py_int16 :: "string \<Rightarrow> int option" where
  "py_int16 s = scan_signed 16 (py_strip s)"

lemma code_digit_char: "d < 16 \<Longrightarrow> code (digit_char d) = (if d < 10 then 48 + d else 87 + d)"
  by (simp add: digit_char_def of_char_of)

lemma digit_of_digit_char: "d < base \<Longrightarrow> base \<le> 16 \<Longrightarrow> digit_of base (digit_char d) = Some d"
  by (simp add: digit_of_def code_digit_char Let_def)

lemma code_underscore [simp]: "code CHR ''_'' = 95" by simp

lemma digit_char_neq:
  assumes "d < 16"
  shows "digit_char d \<noteq> CHR ''_''" "digit_char d \<noteq> CHR ''-''" "digit_char d \<noteq> CHR ''+''"
    "digit_char d \<noteq> CHR '',''" "digit_char d \<noteq> CHR ''}''" "digit_char d \<noteq> CHR ''{''"
    "digit_char d \<noteq> CHR ''\"''" "digit_char d \<noteq> CHR ''n''" "digit_char d \<noteq> CHR ''x''"
    "\<not> space_char (digit_char d)"
proof -
  have c: "code (digit_char d) = (if d < 10 then 48 + d else 87 + d)"
    using assms by (rule code_digit_char)
  have *: "digit_char d = e \<Longrightarrow> code e = (if d < 10 then 48 + d else 87 + d)" for e
    using c by auto
  show "digit_char d \<noteq> CHR ''_''" "digit_char d \<noteq> CHR ''-''" "digit_char d \<noteq> CHR ''+''"
    "digit_char d \<noteq> CHR '',''" "digit_char d \<noteq> CHR ''}''" "digit_char d \<noteq> CHR ''{''"
    "digit_char d \<noteq> CHR ''\"''" "digit_char d \<noteq> CHR ''n''" "digit_char d \<noteq> CHR ''x''"
    using assms by (auto dest!: * split: if_splits)
  show "\<not> space_char (digit_char d)"
    using assms by (auto simp: space_char_def Let_def c split: if_splits)
qed

lemma nat_str_not_Nil [simp]: "nat_str n \<noteq> []"
  by (subst nat_str.simps) simp

lemma nat_str_digits: "c \<in> set (nat_str n) \<Longrightarrow> \<exists>d < 10. c = digit_char d"
proof (induction n rule: nat_str.induct)
  case (1 n)
  show ?case
  proof (cases "n < 10")
    case True
    with "1.prems" show ?thesis by (auto simp: nat_str.simps [of n])
  next
    case False
    then have "set (nat_str n) = set (nat_str (n div 10)) \<union> {digit_char (n mod 10)}"
      by (subst nat_str.simps) simp
    moreover have "n mod 10 < 10" by simp
    ultimately show ?thesis using "1.prems" "1.IH" [OF False] by blast
  qed
qed

lemma scan_append:
  "scan_digits base due acc xs = Some a \<Longrightarrow>
     scan_digits base due acc (xs @ ys) = scan_digits base False a ys"
  by (induction base due acc xs rule: scan_digits.induct) (auto split: if_splits option.splits)

lemma scan_nat_str: "scan_digits 10 due 0 (nat_str n) = Some (int n)"
proof (induction n rule: nat_str.induct)
  case (1 n)
  show ?case
  proof (cases "n < 10")
    case True
    then show ?thesis
      by (subst nat_str.simps) (simp add: digit_of_digit_char digit_char_neq)
  next
    case False
    have m: "n mod 10 < 10" by simp
    have IH: "scan_digits 10 due 0 (nat_str (n div 10)) = Some (int (n div 10))"
      using "1.IH" False by blast
    have "scan_digits 10 due 0 (nat_str n) =
        scan_digits 10 False (int (n div 10)) [digit_char (n mod 10)]"
      using False by (subst nat_str.simps) (simp add: scan_append [OF IH])
    also have "\<dots> = Some (int (n div 10) * 10 + int (n mod 10))"
      using m by (simp add: digit_of_digit_char digit_char_neq)
    also have "int (n div 10) * 10 + int (n mod 10) = int n"
      by (metis div_mult_mod_eq of_nat_add of_nat_mult of_nat_numeral)
    finally show ?thesis .
  qed
qed

lemma strip_no_space:
  assumes "\<And>c. c \<in> set s \<Longrightarrow> \<not> space_char c"
  shows "py_strip s = s"
proof -
  have *: "(\<And>c. c \<in> set t \<Longrightarrow> \<not> space_char c) \<Longrightarrow> dropWhile space_char t = t" for t
    by (cases t) auto
  have "dropWhile space_char s = s" "dropWhile space_char (rev s) = rev s"
    using assms by (auto intro!: *)
  then show ?thesis by (simp add: py_strip_def)
qed

lemma int_str_chars_all:
  assumes "c \<in> set (int_str i)"
  shows "\<not> space_char c \<and> c \<noteq> CHR '','' \<and> c \<noteq> CHR ''}'' \<and> c \<noteq> CHR ''\"'' \<and> c \<noteq> CHR ''n''"
proof -
  have "c = CHR ''-'' \<or> (\<exists>d < 10. c = digit_char d)"
    using assms nat_str_digits by (auto simp: int_str_def split: if_splits)
  then consider "c = CHR ''-''" | d where "d < 10" "c = digit_char d" by blast
  then show ?thesis
  proof cases
    case 1
    then show ?thesis by (simp add: space_char_def)
  next
    case 2
    then show ?thesis using digit_char_neq [of d] by simp
  qed
qed

lemma int_str_chars:
  assumes "c \<in> set (int_str i)"
  shows "\<not> space_char c" "c \<noteq> CHR '',''" "c \<noteq> CHR ''}''" "c \<noteq> CHR ''\"''" "c \<noteq> CHR ''n''"
  using int_str_chars_all [OF assms] by (simp_all only: conj_assoc simp_thms)

theorem py_int_int_str: "py_int (int_str i) = Some i"
proof -
  have strip: "py_strip (int_str i) = int_str i"
    by (rule strip_no_space) (rule int_str_chars(1))
  show ?thesis
  proof (cases "i < 0")
    case True
    then show ?thesis
      by (simp add: py_int_def strip) (simp add: int_str_def scan_signed_def scan_nat_str)
  next
    case False
    obtain c cs where n: "nat_str (nat i) = c # cs" by (cases "nat_str (nat i)") auto
    then obtain d where "d < 10" "c = digit_char d" using nat_str_digits [of c "nat i"] by auto
    then have "c \<noteq> CHR ''-''" "c \<noteq> CHR ''+''" by (auto simp: digit_char_neq)
    then have "scan_signed 10 (nat_str (nat i)) = scan_digits 10 True 0 (nat_str (nat i))"
      by (simp add: scan_signed_def n)
    with False show ?thesis by (simp add: py_int_def strip) (simp add: int_str_def scan_nat_str)
  qed
qed

lemma int_str_inject [simp]: "int_str i = int_str j \<longleftrightarrow> i = j"
  by (metis option.inject py_int_int_str)

lemma int_str_not_Nil [simp]: "int_str i \<noteq> []"
  by (simp add: int_str_def)

section \<open>Bytes\<close>

text \<open>\<open>b.hex()\<close>.\<close>

definition hex_byte :: "byte \<Rightarrow> string" where
  "hex_byte b = [digit_char (unat b div 16), digit_char (unat b mod 16)]"

definition hex_str :: "bytes \<Rightarrow> string" where
  "hex_str bs = concat (map hex_byte bs)"

text \<open>\<open>"0x" + b.hex()\<close>.\<close>

definition hex0x :: "bytes \<Rightarrow> string" where
  "hex0x bs = ''0x'' @ hex_str bs"

text \<open>
  \<open>bytes.fromhex(s)\<close>: pairs of hexadecimal digits of either case; ASCII white space is skipped
  before each pair. \<open>None\<close> is \<open>ValueError\<close>.
\<close>

definition hex_space :: "char \<Rightarrow> bool" where
  "hex_space c = (let n = code c in 9 \<le> n \<and> n \<le> 13 \<or> n = 32)"

fun fromhex :: "string \<Rightarrow> bytes option" where
  "fromhex [] = Some []"
| "fromhex [c] = (if hex_space c then Some [] else None)"
| "fromhex (c # d # cs) =
     (if hex_space c then fromhex (d # cs)
      else (case (digit_of 16 c, digit_of 16 d) of
              (Some a, Some b) \<Rightarrow> map_option ((#) (word_of_nat (16 * a + b))) (fromhex cs)
            | _ \<Rightarrow> None))"

text \<open>\<open>int.from_bytes(b, "big")\<close>, and the digits \<open>v.to_bytes(n, "big")\<close> produces.\<close>

definition from_bytes :: "bytes \<Rightarrow> int" where
  "from_bytes bs = foldl (\<lambda>acc b. acc * 256 + uint b) 0 bs"

fun be_bytes :: "nat \<Rightarrow> int \<Rightarrow> bytes" where
  "be_bytes 0 v = []"
| "be_bytes (Suc n) v = be_bytes n (v div 256) @ [word_of_int v]"

definition to_bytes :: "int \<Rightarrow> nat \<Rightarrow> exn + bytes" where
  "to_bytes v n = (if 0 \<le> v \<and> v < 256 ^ n then Inr (be_bytes n v) else Inl OverflowError)"

text \<open>\<open>bytes(n)\<close>.\<close>

definition zero_bytes :: "nat \<Rightarrow> bytes" where
  "zero_bytes n = replicate n 0"

text \<open>\<open>s.encode()\<close>: UTF-8, of code points below 256.\<close>

definition utf8_char :: "char \<Rightarrow> bytes" where
  "utf8_char c =
     (let n = code c in
      if n < 128 then [word_of_nat n] else [word_of_nat (192 + n div 64), word_of_nat (128 + n mod 64)])"

definition py_encode :: "string \<Rightarrow> bytes" where
  "py_encode s = concat (map utf8_char s)"

lemma from_bytes_Nil [simp]: "from_bytes [] = 0"
  by (simp add: from_bytes_def)

lemma from_bytes_snoc [simp]: "from_bytes (bs @ [b]) = from_bytes bs * 256 + uint b"
  by (simp add: from_bytes_def)

lemma uint_byte_bounds: "0 \<le> uint (b :: byte)" "uint (b :: byte) < 256"
  using uint_bounded [of b] by simp_all

lemma from_bytes_bounds: "0 \<le> from_bytes bs \<and> from_bytes bs < 256 ^ length bs"
proof (induction bs rule: rev_induct)
  case Nil
  then show ?case by simp
next
  case (snoc b bs)
  moreover have "uint b < 256" "0 \<le> uint b" by (rule uint_byte_bounds)+
  ultimately show ?case by simp
qed

lemma length_be_bytes [simp]: "length (be_bytes n v) = n"
  by (induction n arbitrary: v) auto

lemma from_be_bytes: "from_bytes (be_bytes n v) = v mod 256 ^ n"
proof (induction n arbitrary: v)
  case 0
  then show ?case by simp
next
  case (Suc n)
  have "v mod (256 * 256 ^ n) = 256 * (v div 256 mod 256 ^ n) + v mod 256"
    by (simp add: zmod_zmult2_eq)
  with Suc show ?case by (simp add: uint_word_of_int)
qed

lemma be_from_bytes [simp]: "be_bytes (length bs) (from_bytes bs) = bs"
proof (induction bs rule: rev_induct)
  case Nil
  then show ?case by simp
next
  case (snoc b bs)
  have "(from_bytes bs * 256 + uint b) div 256 = from_bytes bs"
    using uint_byte_bounds [of b] by simp
  moreover have "(word_of_int (from_bytes bs * 256 + uint b) :: byte) = b"
  proof -
    have "(word_of_int (from_bytes bs * 256 + uint b) :: byte) = word_of_int (from_bytes bs) * 256 + b"
      by simp
    moreover have "(256 :: byte) = 0" by simp
    ultimately show ?thesis by (metis mult_zero_right add_0)
  qed
  ultimately show ?case using snoc by simp
qed

lemma from_bytes_inject:
  "length xs = length ys \<Longrightarrow> from_bytes xs = from_bytes ys \<longleftrightarrow> xs = ys"
  by (metis be_from_bytes)

lemma from_bytes_zero_iff: "from_bytes bs = 0 \<longleftrightarrow> (\<forall>b \<in> set bs. b = 0)"
proof (induction bs rule: rev_induct)
  case Nil
  then show ?case by simp
next
  case (snoc b bs)
  have *: "0 \<le> x \<Longrightarrow> 0 \<le> u \<Longrightarrow> x * 256 + u = 0 \<longleftrightarrow> x = 0 \<and> u = 0" for x u :: int by auto
  have "from_bytes bs * 256 + uint b = 0 \<longleftrightarrow> from_bytes bs = 0 \<and> uint b = 0"
    using from_bytes_bounds [of bs] by (intro *) simp_all
  moreover have "uint b = 0 \<longleftrightarrow> b = 0" by (simp add: unsigned_eq_0_iff)
  ultimately show ?case using snoc by auto
qed

lemma to_bytes_Inr: "to_bytes v n = Inr bs \<longleftrightarrow> length bs = n \<and> from_bytes bs = v"
proof
  assume "to_bytes v n = Inr bs"
  then have v: "0 \<le> v" "v < 256 ^ n" "bs = be_bytes n v" by (auto simp: to_bytes_def split: if_splits)
  then show "length bs = n \<and> from_bytes bs = v" by (simp add: from_be_bytes)
next
  assume "length bs = n \<and> from_bytes bs = v"
  then show "to_bytes v n = Inr bs" using from_bytes_bounds [of bs] by (auto simp: to_bytes_def)
qed

lemma hex_byte_digits: "unat (b :: byte) div 16 < 16" "unat b mod 16 < 16"
  using unsigned_less [of b, where 'a = nat] by auto

lemma hex_str_simps [simp]: "hex_str [] = []" "hex_str (b # bs) = hex_byte b @ hex_str bs"
  by (simp_all add: hex_str_def)

lemma length_hex_str [simp]: "length (hex_str bs) = 2 * length bs"
  by (induction bs) (auto simp: hex_byte_def)

lemma digit_char_not_hex_space: "d < 16 \<Longrightarrow> \<not> hex_space (digit_char d)"
  by (auto simp: hex_space_def code_digit_char Let_def)

theorem fromhex_hex_str [simp]: "fromhex (hex_str bs) = Some bs"
proof (induction bs)
  case Nil
  then show ?case by simp
next
  case (Cons b bs)
  have "16 * (unat b div 16) + unat b mod 16 = unat b" by (rule mult_div_mod_eq)
  then show ?case
    using Cons hex_byte_digits [of b]
    by (simp add: hex_byte_def digit_char_not_hex_space digit_of_digit_char)
qed

lemma hex_str_inject [simp]: "hex_str xs = hex_str ys \<longleftrightarrow> xs = ys"
  by (metis fromhex_hex_str option.inject)

lemma hex0x_inject [simp]: "hex0x xs = hex0x ys \<longleftrightarrow> xs = ys"
  by (simp add: hex0x_def)

lemma hex_str_chars: "c \<in> set (hex_str bs) \<Longrightarrow> \<exists>d < 16. c = digit_char d"
proof (induction bs)
  case Nil
  then show ?case by simp
next
  case (Cons b bs)
  have d: "unat b div 16 < 16" "unat b mod 16 < 16" by (rule hex_byte_digits)+
  from Cons.prems have "c = digit_char (unat b div 16) \<or> c = digit_char (unat b mod 16) \<or> c \<in> set (hex_str bs)"
    by (simp add: hex_byte_def)
  then show ?case using d Cons.IH by blast
qed

lemma lower_hex_str [simp]: "py_lower (hex_str bs) = hex_str bs"
proof -
  have "lower_char (digit_char d) = digit_char d" if "d < 16" for d
    using that by (simp add: lower_char_def code_digit_char Let_def)
  then show ?thesis
    unfolding py_lower_def using hex_str_chars by (intro map_idI) blast
qed

lemma lower_hex0x [simp]: "py_lower (hex0x bs) = hex0x bs"
proof -
  have "lower_char CHR ''0'' = CHR ''0''" "lower_char CHR ''x'' = CHR ''x''"
    by (simp_all add: lower_char_def)
  then show ?thesis using lower_hex_str [of bs] by (simp add: hex0x_def py_lower_def)
qed

lemma utf8_char_prefix_free:
  assumes "utf8_char c @ xs = utf8_char d @ ys"
  shows "c = d \<and> xs = ys"
proof -
  have lt: "code c < 256" "code d < 256" by simp_all
  have w: "unat (word_of_nat m :: byte) = m" if "m < 256" for m
    using that by (simp add: unat_of_nat)
  have inj: "word_of_nat m = (word_of_nat n :: byte) \<Longrightarrow> m < 256 \<Longrightarrow> n < 256 \<Longrightarrow> m = n" for m n
    by (metis w)
  have b256: "n < 256 \<Longrightarrow> 192 + n div 64 < 256" for n :: nat by linarith
  consider "code c < 128" "code d < 128" | "\<not> code c < 128" "\<not> code d < 128"
    | "(code c < 128) \<noteq> (code d < 128)" by blast
  then show ?thesis
  proof cases
    case 1
    then have "word_of_nat (code c) = (word_of_nat (code d) :: byte)" "xs = ys"
      using assms by (simp_all add: utf8_char_def Let_def)
    with inj lt have "code c = code d" "xs = ys" by blast+
    then show ?thesis by simp
  next
    case 2
    then have eq: "word_of_nat (192 + code c div 64) = (word_of_nat (192 + code d div 64) :: byte)"
      "word_of_nat (128 + code c mod 64) = (word_of_nat (128 + code d mod 64) :: byte)" "xs = ys"
      using assms by (simp_all only: utf8_char_def Let_def if_False append_Cons append_Nil list.inject)
    from lt have "192 + code c div 64 < 256" "192 + code d div 64 < 256" by (blast intro: b256)+
    then have "192 + code c div 64 = 192 + code d div 64" by (rule inj [OF eq(1)])
    moreover have "128 + code c mod 64 = 128 + code d mod 64" by (rule inj [OF eq(2)]) simp_all
    ultimately have "code c = code d" by (metis add_left_cancel div_mult_mod_eq)
    with eq(3) show ?thesis by simp
  next
    case 3
    have False if "code a < 128" "\<not> code b < 128" "code b < 256"
      "word_of_nat (code a) = (word_of_nat (192 + code b div 64) :: byte)" for a b
    proof -
      have "code a < 256" "192 + code b div 64 < 256" using that(3) b256 by simp_all
      with that(4) have "code a = 192 + code b div 64" by (rule inj)
      with that(1) show False by simp
    qed
    note absurd = this
    have ne: "utf8_char e \<noteq> []" for e by (simp add: utf8_char_def Let_def)
    have heads: "hd (utf8_char c) = hd (utf8_char d)"
      using arg_cong [OF assms, of hd] by (simp add: ne hd_append2)
    have hd: "hd (utf8_char e) =
        (if code e < 128 then word_of_nat (code e) else word_of_nat (192 + code e div 64))" for e
      by (simp only: utf8_char_def Let_def) simp
    from 3 show ?thesis
    proof (cases "code c < 128")
      case True
      with 3 heads have "word_of_nat (code c) = (word_of_nat (192 + code d div 64) :: byte)"
        by (simp only: hd) simp
      with absurd True 3 lt show ?thesis by blast
    next
      case False
      with 3 heads have "word_of_nat (code d) = (word_of_nat (192 + code c div 64) :: byte)"
        by (simp only: hd) simp
      with absurd False 3 lt show ?thesis by blast
    qed
  qed
qed

lemma py_encode_simps [simp]:
  "py_encode [] = []" "py_encode (c # s) = utf8_char c @ py_encode s"
  by (simp_all add: py_encode_def)

lemma py_encode_append [simp]: "py_encode (s @ t) = py_encode s @ py_encode t"
  by (simp add: py_encode_def)

lemma py_encode_inject [simp]: "py_encode s = py_encode t \<longleftrightarrow> s = t"
proof
  have ne: "utf8_char c \<noteq> []" for c by (simp add: utf8_char_def Let_def)
  show "py_encode s = py_encode t \<Longrightarrow> s = t"
  proof (induction s arbitrary: t)
    case Nil
    then show ?case using ne by (cases t) auto
  next
    case (Cons c s)
    then obtain d t' where t: "t = d # t'" using ne by (cases t) auto
    with Cons.prems have "c = d \<and> py_encode s = py_encode t'"
      by (intro utf8_char_prefix_free) simp
    with Cons.IH t show ?case by simp
  qed
qed simp

section \<open>Evaluation of concrete texts\<close>

text \<open>Code equations over the bits of a character, and decimal digits over \<open>int\<close>.\<close>

lemma digit_char_code [code]:
  "digit_char d = (if d < 16 then ''0123456789abcdef'' ! d else char_of (87 + d))"
proof (cases "d < 16")
  case True
  have "list_all (\<lambda>d. digit_char d = ''0123456789abcdef'' ! d) [0..<16]" by code_simp
  then show ?thesis using True by (simp add: list_all_iff)
qed (simp add: digit_char_def)

lemma lower_char_code [code]:
  "lower_char (Char b0 b1 b2 b3 b4 b5 b6 b7) =
     (let upper = (if b7 then \<not> (b0 \<and> b1 \<and> b2 \<and> (b3 \<and> b4 \<or> \<not> b3 \<and> b4))
                   else (b0 \<or> b1 \<or> b2 \<or> b3 \<or> b4) \<and> \<not> (b4 \<and> b3 \<and> (b2 \<or> b1 \<and> b0)))
      in Char b0 b1 b2 b3 b4 (b5 \<or> b6 \<and> upper) b6 b7)"
  by (cases b7; cases b6; cases b5; cases b4; cases b3; cases b2; cases b1; cases b0;
      simp add: lower_char_def char_of_def bit_0)

lemma space_char_code [code]:
  "space_char (Char b0 b1 b2 b3 b4 b5 b6 b7) =
     (if b6 then False
      else if b7 then (if b5 then \<not> (b0 \<or> b1 \<or> b2 \<or> b3 \<or> b4) else b0 \<and> \<not> b1 \<and> b2 \<and> \<not> b3 \<and> \<not> b4)
      else if b5 then \<not> (b0 \<or> b1 \<or> b2 \<or> b3 \<or> b4)
      else b3 \<and> (if b4 then b2 else \<not> (b2 \<and> b1) \<and> (b2 \<or> b1 \<or> b0)))"
  by (cases b7; cases b6; cases b5; cases b4; cases b3; cases b2; cases b1; cases b0; simp add: space_char_def)

lemma digit_of_code [code]:
  "digit_of base (Char b0 b1 b2 b3 b4 b5 b6 b7) =
     (let low = of_bool b0 + 2 * (of_bool b1 + 2 * (of_bool b2 + 2 * of_bool b3)); low5 = low + 16 * of_bool b4;
          d = (if b7 then 99
               else if b6 then (if low5 = 0 \<or> 26 < low5 then 99 else low5 + 9)
               else if b5 \<and> b4 \<and> low \<le> 9 then low else 99)
      in if d < base then Some d else None)"
  by (cases b7; cases b6; cases b5; cases b4; cases b3; cases b2; cases b1; cases b0; simp add: digit_of_def)

lemma hex_space_code [code]:
  "hex_space (Char b0 b1 b2 b3 b4 b5 b6 b7) =
     (if b6 \<or> b7 \<or> b4 then False
      else if b5 then \<not> (b0 \<or> b1 \<or> b2 \<or> b3)
      else b3 \<and> \<not> (b2 \<and> b1) \<and> (b2 \<or> b1 \<or> b0))"
  by (cases b7; cases b6; cases b5; cases b4; cases b3; cases b2; cases b1; cases b0; simp add: hex_space_def)

lemma utf8_char_code [code]:
  "utf8_char (Char b0 b1 b2 b3 b4 b5 b6 b7) =
     (let low = of_bool b0 + 2 * (of_bool b1 + 2 * (of_bool b2 + 2 * (of_bool b3 + 2 * (of_bool b4 + 2 * of_bool b5)))) :: int
      in if b7 then [if b6 then 195 else 194, word_of_int (128 + low)]
         else [word_of_int (if b6 then 64 + low else low)])"
  by (cases b7; cases b6; cases b5; cases b4; cases b3; cases b2; cases b1; cases b0; simp add: utf8_char_def)

fun int_digits :: "int \<Rightarrow> string" where
  "int_digits i = (if i < 10 then [digit_char (nat i)] else int_digits (i div 10) @ [digit_char (nat (i mod 10))])"

declare int_digits.simps [simp del]

lemma int_digits_nat: "int_digits (int n) = nat_str n"
proof (induction n rule: nat_str.induct)
  case (1 n)
  show ?case
    using 1 by (subst int_digits.simps, subst nat_str.simps) (simp add: nat_mod_distrib zdiv_int)
qed

lemma int_str_code [code]:
  "int_str i = (if i < 0 then CHR ''-'' # int_digits (- i) else int_digits i)"
proof (cases "i < 0")
  case True
  then show ?thesis using int_digits_nat [of "nat (- i)"] by (simp add: int_str_def)
next
  case False
  then show ?thesis using int_digits_nat [of "nat i"] by (simp add: int_str_def)
qed

end
