(* ===== verification/Calldata.thy ===== *)
theory Calldata
  imports Pytext
begin

text \<open>
  \<open>escrow_signer/calldata.py\<close>: the canonical \<open>debitChannel\<close> and \<open>expireChannel\<close> calldata. The
  hash \<open>keccak\<close> comes from \<open>eth_utils\<close> and is the parameter \<open>H\<close> of every definition that
  derives a selector. The locale \<open>codec\<close> is the contract a strict decoder promises; both decoders
  are interpretations of it.
\<close>

type_synonym hashfn = "bytes \<Rightarrow> bytes"

text \<open>\<open>b[i:j]\<close> for \<open>0 \<le> i \<le> j\<close>.\<close>

definition slice :: "nat \<Rightarrow> nat \<Rightarrow> 'a list \<Rightarrow> 'a list" where
  "slice i j xs = take (j - i) (drop i xs)"

section \<open>Signatures and selectors\<close>

definition DEBIT_SIG :: string where
  "DEBIT_SIG = ''debitChannel(bytes32,uint256,bytes32,uint256,bytes)''"
definition GET_CHANNEL_SIG :: string where "GET_CHANNEL_SIG = ''getChannel(bytes32)''"
definition USED_RECEIPTS_SIG :: string where "USED_RECEIPTS_SIG = ''usedReceipts(bytes32)''"
definition IS_RECEIPT_USED_SIG :: string where
  "IS_RECEIPT_USED_SIG = ''isReceiptUsed(bytes32,bytes32)''"
definition SETTLE_WINDOW_SIG :: string where "SETTLE_WINDOW_SIG = ''SETTLE_WINDOW()''"
definition AUTHORIZED_HUBS_SIG :: string where
  "AUTHORIZED_HUBS_SIG = ''authorizedHubs(address)''"
definition DOMAIN_SEPARATOR_SIG :: string where "DOMAIN_SEPARATOR_SIG = ''domainSeparator()''"
definition DECIMALS_SIG :: string where "DECIMALS_SIG = ''decimals()''"
definition EXPIRE_SIG :: string where "EXPIRE_SIG = ''expireChannel(bytes32)''"
definition TRANSFER_SIG :: string where "TRANSFER_SIG = ''transfer(address,uint256)''"
definition BALANCE_OF_SIG :: string where "BALANCE_OF_SIG = ''balanceOf(address)''"

definition selector :: "hashfn \<Rightarrow> string \<Rightarrow> bytes" where
  "selector H signature = take 4 (H (py_encode signature))"

definition DEBIT_SELECTOR :: "hashfn \<Rightarrow> bytes" where
  "DEBIT_SELECTOR H = selector H DEBIT_SIG"

definition EXPIRE_SELECTOR :: "hashfn \<Rightarrow> bytes" where
  "EXPIRE_SELECTOR H = selector H EXPIRE_SIG"

definition TRANSFER_SELECTOR :: "hashfn \<Rightarrow> bytes" where
  "TRANSFER_SELECTOR H = selector H TRANSFER_SIG"

definition SIG_LEN :: nat where "SIG_LEN = 65"
definition EXPIRE_LEN :: nat where "EXPIRE_LEN = 4 + 32"
definition CANONICAL_LEN :: nat where "CANONICAL_LEN = 4 + 5 * 32 + 32 + 96"
definition OFFSET_WORD :: int where "OFFSET_WORD = 160"

definition SECP256K1_N :: int where
  "SECP256K1_N = 0xFFFFFFFFFFFFFFFFFFFFFFFFFFFFFFFEBAAEDCE6AF48A03BBFD25E8CD0364141"
definition SECP256K1_HALF_N :: int where "SECP256K1_HALF_N = SECP256K1_N div 2"

section \<open>The debit call\<close>

record debit_call =
  call_channel :: bytes
  call_amount :: int
  call_receipt :: bytes
  call_deadline :: int
  call_signature :: bytes

definition call_r :: "debit_call \<Rightarrow> int" where
  "call_r c = from_bytes (slice 0 32 (call_signature c))"

definition call_s :: "debit_call \<Rightarrow> int" where
  "call_s c = from_bytes (slice 32 64 (call_signature c))"

text \<open>\<open>self.signature[64]\<close>: an \<open>IndexError\<close> on a shorter signature.\<close>

definition call_v :: "debit_call \<Rightarrow> int option" where
  "call_v c = (if 64 < length (call_signature c) then Some (uint (call_signature c ! 64)) else None)"

definition word32 :: "int \<Rightarrow> exn + bytes" where
  "word32 v = to_bytes v 32"

definition encode_debit :: "hashfn \<Rightarrow> debit_call \<Rightarrow> exn + bytes" where
  "encode_debit H c =
     (if length (call_signature c) \<noteq> SIG_LEN then Inl (CalldataError ''calldata_length'')
      else (case word32 (call_amount c) of Inl e \<Rightarrow> Inl e
            | Inr amount \<Rightarrow> (case word32 (call_deadline c) of Inl e \<Rightarrow> Inl e
            | Inr deadline \<Rightarrow> (case word32 OFFSET_WORD of Inl e \<Rightarrow> Inl e
            | Inr offset \<Rightarrow> (case word32 (int SIG_LEN) of Inl e \<Rightarrow> Inl e
            | Inr len \<Rightarrow>
                Inr (DEBIT_SELECTOR H
                     @ (call_channel c @ amount @ call_receipt c @ deadline @ offset)
                     @ (len @ call_signature c @ zero_bytes 31)))))))"

definition decode_debit :: "hashfn \<Rightarrow> bytes \<Rightarrow> exn + debit_call" where
  "decode_debit H data =
     (if length data \<noteq> CANONICAL_LEN then Inl (CalldataError ''calldata_length'')
      else if slice 0 4 data \<noteq> DEBIT_SELECTOR H then Inl (CalldataError ''selector_not_allowed'')
      else
        let channel = slice 4 36 data;
            amount = from_bytes (slice 36 68 data);
            receipt = slice 68 100 data;
            deadline = from_bytes (slice 100 132 data);
            offset = from_bytes (slice 132 164 data);
            len = from_bytes (slice 164 196 data);
            signature = slice 196 261 data;
            pad = slice 261 292 data
        in if offset \<noteq> OFFSET_WORD then Inl (CalldataError ''calldata_noncanonical'')
           else if len \<noteq> int SIG_LEN then Inl (CalldataError ''calldata_length'')
           else if pad \<noteq> zero_bytes 31 then Inl (CalldataError ''calldata_noncanonical'')
           else
             let c = \<lparr>call_channel = channel, call_amount = amount, call_receipt = receipt,
                      call_deadline = deadline, call_signature = signature\<rparr>
             in (case encode_debit H c of
                   Inl e \<Rightarrow> Inl e
                 | Inr again \<Rightarrow>
                     if again \<noteq> data then Inl (CalldataError ''calldata_noncanonical'') else Inr c))"

text \<open>R12. The exceptions in the order of the code's checks.\<close>

definition check_signature_shape :: "debit_call \<Rightarrow> exn + unit" where
  "check_signature_shape c =
     (case call_v c of
        None \<Rightarrow> Inl (OtherError ''IndexError'')
      | Some v \<Rightarrow>
          if \<not> (1 \<le> call_r c \<and> call_r c < SECP256K1_N) then Inl (CalldataError ''signature_malformed'')
          else if \<not> (1 \<le> call_s c \<and> call_s c < SECP256K1_N)
            then Inl (CalldataError ''signature_malformed'')
          else if SECP256K1_HALF_N < call_s c then Inl (CalldataError ''signature_malformed'')
          else if v \<notin> {27, 28} then Inl (CalldataError ''signature_malformed'')
          else Inr ())"

section \<open>Hex text, expire and transfer\<close>

text \<open>The argument is the string itself; the caller refuses a value that is not a string first.\<close>

definition parse_hex_bytes :: "string \<Rightarrow> string \<Rightarrow> exn + bytes" where
  "parse_hex_bytes value reason =
     (if \<not> starts_with ''0x'' value \<or> length value mod 2 \<noteq> 0 then Inl (CalldataError reason)
      else (case fromhex (drop 2 value) of
              None \<Rightarrow> Inl (CalldataError reason)
            | Some bs \<Rightarrow> Inr bs))"

definition encode_expire :: "hashfn \<Rightarrow> bytes \<Rightarrow> bytes" where
  "encode_expire H channel = EXPIRE_SELECTOR H @ channel"

definition decode_expire :: "hashfn \<Rightarrow> bytes \<Rightarrow> exn + bytes" where
  "decode_expire H data =
     (if length data \<noteq> EXPIRE_LEN then Inl (CalldataError ''calldata_length'')
      else if slice 0 4 data \<noteq> EXPIRE_SELECTOR H then Inl (CalldataError ''selector_not_allowed'')
      else
        let c = slice 4 36 data
        in if encode_expire H c \<noteq> data then Inl (CalldataError ''calldata_noncanonical'') else Inr c)"

definition encode_transfer :: "hashfn \<Rightarrow> string \<Rightarrow> int \<Rightarrow> exn + bytes" where
  "encode_transfer H to amount =
     (if \<not> (starts_with ''0x'' to \<and> length to = 42) then Inl ValueError
      else if amount \<le> 0 then Inl ValueError
      else (case fromhex (drop 2 to) of
              None \<Rightarrow> Inl ValueError
            | Some raw \<Rightarrow>
                (case word32 amount of
                   Inl e \<Rightarrow> Inl e
                 | Inr w \<Rightarrow> Inr (TRANSFER_SELECTOR H @ zero_bytes 12 @ raw @ w))))"

section \<open>The contract of a strict decoder\<close>

text \<open>
  What the policy relies on: whatever the decoder accepts is byte for byte what the encoder
  produces for the decoded call, and every well-formed call decodes from its encoding. So a call
  has exactly one accepted encoding.
\<close>

locale codec =
  fixes enc :: "'c \<Rightarrow> exn + bytes"
    and dec :: "bytes \<Rightarrow> exn + 'c"
    and wf :: "'c \<Rightarrow> bool"
  assumes dec_sound: "dec d = Inr c \<Longrightarrow> enc c = Inr d"
    and enc_complete: "wf c \<Longrightarrow> \<exists>d. enc c = Inr d \<and> dec d = Inr c"
begin

lemma dec_inject: "dec d = Inr c \<Longrightarrow> dec d' = Inr c \<Longrightarrow> d = d'"
  using dec_sound [of d c] dec_sound [of d' c] by simp

lemma dec_iff_enc: "wf c \<Longrightarrow> dec d = Inr c \<longleftrightarrow> enc c = Inr d"
  using dec_sound enc_complete by (metis sum.inject(2))

lemma enc_dec: "wf c \<Longrightarrow> enc c = Inr d \<Longrightarrow> dec d = Inr c"
  by (simp add: dec_iff_enc)

end

section \<open>Slices\<close>

lemma length_slice [simp]: "j \<le> length xs \<Longrightarrow> i \<le> j \<Longrightarrow> length (slice i j xs) = j - i"
  by (simp add: slice_def)

lemma slice_append_left: "j \<le> length xs \<Longrightarrow> slice i j (xs @ ys) = slice i j xs"
  by (cases "i \<le> j") (auto simp: slice_def)

lemma slice_append_right:
  "length xs \<le> i \<Longrightarrow> slice i j (xs @ ys) = slice (i - length xs) (j - length xs) ys"
  by (auto simp: slice_def diff_diff_eq)

lemma slice_all: "length xs \<le> j \<Longrightarrow> slice 0 j xs = xs"
  by (simp add: slice_def)

lemma slice_join:
  assumes "i \<le> j" "j \<le> k"
  shows "slice i j xs @ slice j k xs = slice i k xs"
proof -
  have "slice j k xs = take (k - j) (drop (j - i) (drop i xs))"
    using assms by (simp add: slice_def)
  moreover have "k - i = (j - i) + (k - j)" using assms by simp
  ultimately show ?thesis by (simp only: slice_def take_add)
qed

lemmas slice_simps = slice_append_left slice_append_right slice_all

lemma word32_Inr: "word32 v = Inr bs \<longleftrightarrow> length bs = 32 \<and> from_bytes bs = v"
  by (simp add: word32_def to_bytes_Inr)

lemma word32_ok: "0 \<le> v \<Longrightarrow> v < 2 ^ 256 \<Longrightarrow> \<exists>bs. word32 v = Inr bs"
  by (simp add: word32_def to_bytes_def)

section \<open>Debit calldata is canonical\<close>

definition debit_wf :: "hashfn \<Rightarrow> debit_call \<Rightarrow> bool" where
  "debit_wf H c \<longleftrightarrow>
     length (DEBIT_SELECTOR H) = 4 \<and> length (call_channel c) = 32 \<and> length (call_receipt c) = 32
     \<and> length (call_signature c) = 65
     \<and> 0 \<le> call_amount c \<and> call_amount c < 2 ^ 256
     \<and> 0 \<le> call_deadline c \<and> call_deadline c < 2 ^ 256"

text \<open>The eight fields of a body of the canonical length, as the decoder reads them.\<close>

lemma debit_slices:
  assumes "length sel = 4" "length ch = 32" "length am = 32" "length re = 32" "length dl = 32"
    "length off = 32" "length le = 32" "length sg = 65" "length pad = 31"
    and d: "d = sel @ (ch @ am @ re @ dl @ off) @ (le @ sg @ pad)"
  shows "length d = 292" "slice 0 4 d = sel" "slice 4 36 d = ch" "slice 36 68 d = am"
    "slice 68 100 d = re" "slice 100 132 d = dl" "slice 132 164 d = off" "slice 164 196 d = le"
    "slice 196 261 d = sg" "slice 261 292 d = pad"
  using assms by (simp_all add: slice_append_left slice_append_right slice_all)

lemma debit_split:
  assumes "length d = 292"
  shows "d = slice 0 4 d @ (slice 4 36 d @ slice 36 68 d @ slice 68 100 d @ slice 100 132 d
              @ slice 132 164 d) @ (slice 164 196 d @ slice 196 261 d @ slice 261 292 d)"
proof -
  have "d = slice 0 292 d" using assms by (simp add: slice_all)
  also have "\<dots> = slice 0 4 d @ slice 4 36 d @ slice 36 68 d @ slice 68 100 d @ slice 100 132 d
              @ slice 132 164 d @ slice 164 196 d @ slice 196 261 d @ slice 261 292 d"
    by (simp add: slice_join)
  finally show ?thesis by simp
qed

lemma encode_debit_Inr:
  "encode_debit H c = Inr d \<longleftrightarrow>
     length (call_signature c) = 65 \<and>
     (\<exists>am dl off le. length am = 32 \<and> from_bytes am = call_amount c
        \<and> length dl = 32 \<and> from_bytes dl = call_deadline c
        \<and> length off = 32 \<and> from_bytes off = 160 \<and> length le = 32 \<and> from_bytes le = 65
        \<and> d = DEBIT_SELECTOR H @ (call_channel c @ am @ call_receipt c @ dl @ off)
               @ (le @ call_signature c @ zero_bytes 31))"
proof -
  obtain off where off: "word32 160 = Inr off" using word32_ok [of 160] by auto
  obtain le where le: "word32 65 = Inr le" using word32_ok [of 65] by auto
  have uniq: "length x = 32 \<and> from_bytes x = v \<Longrightarrow> word32 v = Inr y \<Longrightarrow> x = y" for x y v
    by (auto simp: word32_Inr from_bytes_inject)
  show ?thesis
    using off le
    by (auto simp: encode_debit_def SIG_LEN_def OFFSET_WORD_def word32_Inr split: sum.splits
        dest: uniq [OF _ off] uniq [OF _ le])
      (metis word32_Inr sum.distinct(1) uniq off le)+
qed

definition debit_fields :: "bytes \<Rightarrow> debit_call" where
  "debit_fields d =
     \<lparr>call_channel = slice 4 36 d, call_amount = from_bytes (slice 36 68 d),
      call_receipt = slice 68 100 d, call_deadline = from_bytes (slice 100 132 d),
      call_signature = slice 196 261 d\<rparr>"

definition debit_layout :: "hashfn \<Rightarrow> bytes \<Rightarrow> bool" where
  "debit_layout H d \<longleftrightarrow>
     length d = 292 \<and> slice 0 4 d = DEBIT_SELECTOR H \<and> from_bytes (slice 132 164 d) = 160
     \<and> from_bytes (slice 164 196 d) = 65 \<and> slice 261 292 d = zero_bytes 31"

lemma encode_debit_fields: "debit_layout H d \<Longrightarrow> encode_debit H (debit_fields d) = Inr d"
  unfolding encode_debit_Inr
  by (intro conjI exI [of _ "slice 36 68 d"] exI [of _ "slice 100 132 d"]
        exI [of _ "slice 132 164 d"] exI [of _ "slice 164 196 d"])
     (auto simp: debit_layout_def debit_fields_def debit_split [of d, symmetric]
        dest: sym [of "slice 0 4 d"] intro: debit_split [of d, THEN trans])

lemma decode_debit_sound: "decode_debit H d = Inr c \<Longrightarrow> encode_debit H c = Inr d"
  by (auto simp: decode_debit_def Let_def split: if_splits sum.splits)

text \<open>The decoder without its final re-encode-and-compare: the field checks alone.\<close>

definition decode_debit_ref :: "hashfn \<Rightarrow> bytes \<Rightarrow> exn + debit_call" where
  "decode_debit_ref H d =
     (if length d \<noteq> 292 then Inl (CalldataError ''calldata_length'')
      else if slice 0 4 d \<noteq> DEBIT_SELECTOR H then Inl (CalldataError ''selector_not_allowed'')
      else if from_bytes (slice 132 164 d) \<noteq> 160 then Inl (CalldataError ''calldata_noncanonical'')
      else if from_bytes (slice 164 196 d) \<noteq> 65 then Inl (CalldataError ''calldata_length'')
      else if slice 261 292 d \<noteq> zero_bytes 31 then Inl (CalldataError ''calldata_noncanonical'')
      else Inr (debit_fields d))"

lemma decode_debit_eq_ref: "decode_debit H d = decode_debit_ref H d"
proof (cases "debit_layout H d")
  case True
  then have "encode_debit H (debit_fields d) = Inr d" by (rule encode_debit_fields)
  with True show ?thesis
    by (simp add: decode_debit_def decode_debit_ref_def debit_layout_def debit_fields_def Let_def
        CANONICAL_LEN_def OFFSET_WORD_def SIG_LEN_def)
next
  case False
  then show ?thesis
    by (simp add: decode_debit_def decode_debit_ref_def debit_layout_def Let_def
        CANONICAL_LEN_def OFFSET_WORD_def SIG_LEN_def)
qed

text \<open>
  C26. The re-encode check at the end of \<open>decode_debit\<close> is unreachable, as its comment claims: for
  every byte string the decoder answers exactly what the length, selector, offset, length-word and
  padding checks alone answer, with the same reason code and the same order of refusals.
\<close>

theorem decode_debit_reencode_unreachable: "decode_debit H d = decode_debit_ref H d"
  by (rule decode_debit_eq_ref)

lemma decode_debit_iff: "decode_debit H d = Inr c \<longleftrightarrow> debit_layout H d \<and> c = debit_fields d"
  by (auto simp: decode_debit_eq_ref decode_debit_ref_def debit_layout_def)

lemma encode_debit_ok: "debit_wf H c \<Longrightarrow> \<exists>d. encode_debit H c = Inr d \<and> decode_debit H d = Inr c"
proof -
  assume wf: "debit_wf H c"
  obtain am dl where w: "word32 (call_amount c) = Inr am" "word32 (call_deadline c) = Inr dl"
    using wf word32_ok by (meson debit_wf_def)
  obtain off le where w': "word32 160 = Inr off" "word32 65 = Inr le"
    using word32_ok [of 160] word32_ok [of 65] by auto
  define d where "d = DEBIT_SELECTOR H @ (call_channel c @ am @ call_receipt c @ dl @ off)
      @ (le @ call_signature c @ zero_bytes 31)"
  have enc: "encode_debit H c = Inr d"
    using wf w w' by (simp add: encode_debit_def d_def debit_wf_def SIG_LEN_def OFFSET_WORD_def)
  have len: "length am = 32" "length dl = 32" "length off = 32" "length le = 32"
    and vals: "from_bytes am = call_amount c" "from_bytes dl = call_deadline c"
      "from_bytes off = 160" "from_bytes le = 65"
    using w w' by (auto simp: word32_Inr)
  have sl: "length d = 292" "slice 0 4 d = DEBIT_SELECTOR H" "slice 4 36 d = call_channel c"
      "slice 36 68 d = am" "slice 68 100 d = call_receipt c" "slice 100 132 d = dl"
      "slice 132 164 d = off" "slice 164 196 d = le" "slice 196 261 d = call_signature c"
      "slice 261 292 d = zero_bytes 31"
    using wf len by (intro debit_slices [OF _ _ _ _ _ _ _ _ _ d_def]; simp add: debit_wf_def zero_bytes_def)+
  have "debit_layout H d" "c = debit_fields d"
    using sl vals by (simp_all add: debit_layout_def debit_fields_def)
  with enc show ?thesis by (auto simp: decode_debit_iff)
qed

interpretation debit: codec "encode_debit H" "decode_debit H" "debit_wf H" for H
  by unfold_locales (auto intro: decode_debit_sound encode_debit_ok)

lemma decode_debit_wf:
  assumes "decode_debit H d = Inr c"
  shows "debit_wf H c"
proof -
  have d: "length d = 292" "DEBIT_SELECTOR H = slice 0 4 d" and c: "c = debit_fields d"
    using assms by (simp_all add: decode_debit_iff debit_layout_def)
  have len: "length (slice 0 4 d) = 4" "length (slice 4 36 d) = 32" "length (slice 36 68 d) = 32"
    "length (slice 68 100 d) = 32" "length (slice 100 132 d) = 32" "length (slice 196 261 d) = 65"
    using d(1) by (simp_all add: slice_def)
  have "from_bytes (slice 36 68 d) < 2 ^ 256" "from_bytes (slice 100 132 d) < 2 ^ 256"
    using from_bytes_bounds [of "slice 36 68 d"] from_bytes_bounds [of "slice 100 132 d"]
    by (simp_all only: len) simp_all
  then show ?thesis
    using from_bytes_bounds len by (simp add: debit_wf_def d(2) c debit_fields_def)
qed

text \<open>
  C25. Debit calldata is canonical. Whatever the body, \<open>decode_debit\<close> returns a call exactly when the call is
  well-formed (32-byte ids, 65-byte signature, uint256 amounts) and the body is \<open>encode_debit\<close> of it: every
  accepted body is the one encoding of what it is read as, and every well-formed call has one.
\<close>

theorem debit_roundtrip:
  "(decode_debit H d = Inr c \<longleftrightarrow> debit_wf H c \<and> encode_debit H c = Inr d)
   \<and> (debit_wf H c \<longrightarrow> (\<exists>d. encode_debit H c = Inr d \<and> decode_debit H d = Inr c))"
  using decode_debit_wf debit.dec_iff_enc encode_debit_ok decode_debit_sound by blast

theorem debit_roundtrip_witness:
  "let H = (\<lambda>b. take 4 b @ zero_bytes 28);
       c = \<lparr>call_channel = replicate 32 1, call_amount = 20000, call_receipt = replicate 32 2,
            call_deadline = 1700000000, call_signature = replicate 64 3 @ [27]\<rparr>
   in debit_wf H c \<and> (\<exists>d. encode_debit H c = Inr d \<and> decode_debit H d = Inr c)"
proof -
  let ?H = "\<lambda>b. take 4 b @ zero_bytes 28"
  let ?c = "\<lparr>call_channel = replicate 32 1, call_amount = 20000, call_receipt = replicate 32 2,
            call_deadline = 1700000000, call_signature = replicate 64 3 @ [27]\<rparr>"
  have wf: "debit_wf ?H ?c"
    by (simp add: debit_wf_def DEBIT_SELECTOR_def selector_def zero_bytes_def)
  then have "\<exists>d. encode_debit ?H ?c = Inr d \<and> decode_debit ?H d = Inr ?c"
    using debit_roundtrip by blast
  with wf show ?thesis by (simp add: Let_def)
qed

section \<open>Expire and transfer calldata\<close>

definition expire_wf :: "hashfn \<Rightarrow> bytes \<Rightarrow> bool" where
  "expire_wf H channel \<longleftrightarrow> length (EXPIRE_SELECTOR H) = 4 \<and> length channel = 32"

lemma decode_expire_iff:
  "decode_expire H d = Inr c \<longleftrightarrow>
     length d = 36 \<and> slice 0 4 d = EXPIRE_SELECTOR H \<and> c = slice 4 36 d"
proof -
  have "encode_expire H (slice 4 36 d) = d" if "length d = 36" "slice 0 4 d = EXPIRE_SELECTOR H"
  proof -
    have "slice 0 4 d @ slice 4 36 d = d" using that(1) by (simp add: slice_join slice_all)
    with that(2) show ?thesis by (simp add: encode_expire_def)
  qed
  then show ?thesis by (auto simp: decode_expire_def EXPIRE_LEN_def Let_def)
qed

lemma decode_expire_errors:
  "decode_expire H d = Inl e \<Longrightarrow> e = CalldataError ''calldata_length'' \<or> e = CalldataError ''selector_not_allowed''"
  using decode_expire_iff [of H d "slice 4 36 d"]
  by (auto simp: decode_expire_def EXPIRE_LEN_def Let_def split: if_splits)

interpretation expire: codec "\<lambda>c. Inr (encode_expire H c)" "decode_expire H" "expire_wf H" for H
proof unfold_locales
  show "decode_expire H d = Inr c \<Longrightarrow> (Inr (encode_expire H c) :: exn + bytes) = Inr d" for d c
    by (auto simp: decode_expire_def Let_def split: if_splits)
  show "\<exists>d. (Inr (encode_expire H c) :: exn + bytes) = Inr d \<and> decode_expire H d = Inr c"
    if "expire_wf H c" for c
    using that by (auto simp: decode_expire_iff expire_wf_def encode_expire_def slice_simps)
qed

lemma encode_transfer_Inr:
  assumes "encode_transfer H to amount = Inr d" "length (TRANSFER_SELECTOR H) = 4"
    "fromhex (drop 2 to) = Some raw" "length raw = 20"
  shows "length d = 68" "slice 0 4 d = TRANSFER_SELECTOR H" "slice 16 36 d = raw"
    "from_bytes (slice 36 68 d) = amount" "0 < amount"
  using assms
  by (auto simp: encode_transfer_def word32_Inr slice_simps zero_bytes_def split: if_splits sum.splits)

end
