(* ===== verification/Rowhash.thy ===== *)
theory Rowhash
  imports Calldata "HOL-Library.Char_ord" "HOL-Library.List_Lexorder"
begin

text \<open>
  \<open>_row_hash\<close> of \<open>escrow_signer/ledger.py\<close>: \<open>keccak\<close> of the previous head followed by the row's
  payload as canonical JSON, and the chains built with it. The JSON text is
  \<open>json.dumps(payload, sort_keys=True, separators=(",", ":"))\<close> of a flat dictionary of strings,
  integers and nulls, written out with its escapes; it is proved injective, so that two payloads
  that hash the same bytes are the same payload.
\<close>

section \<open>Canonical JSON of a flat dictionary\<close>

datatype scalar = SNull | SInt int | SStr string

type_synonym payload = "(string \<times> scalar) list"

definition esc_char :: "char \<Rightarrow> string" where
  "esc_char c =
     (let n = code c in
      if n = 34 then [CHR 0x5C, CHR 0x22] else if n = 92 then [CHR 0x5C, CHR 0x5C]
      else if n = 10 then [CHR 0x5C, CHR ''n''] else if n = 13 then [CHR 0x5C, CHR ''r'']
      else if n = 9 then [CHR 0x5C, CHR ''t''] else if n = 8 then [CHR 0x5C, CHR ''b'']
      else if n = 12 then [CHR 0x5C, CHR ''f'']
      else if 32 \<le> n \<and> n \<le> 126 then [c]
      else [CHR 0x5C, CHR ''u'', CHR ''0'', CHR ''0'', digit_char (n div 16), digit_char (n mod 16)])"

definition dump_str :: "string \<Rightarrow> string" where
  "dump_str s = CHR 0x22 # concat (map esc_char s) @ [CHR 0x22]"

fun dump_scalar :: "scalar \<Rightarrow> string" where
  "dump_scalar SNull = ''null''"
| "dump_scalar (SInt i) = int_str i"
| "dump_scalar (SStr s) = dump_str s"

definition dump_item :: "string \<times> scalar \<Rightarrow> string" where
  "dump_item kv = dump_str (fst kv) @ '':'' @ dump_scalar (snd kv)"

fun dump_items :: "payload \<Rightarrow> string" where
  "dump_items [] = ''}''"
| "dump_items [kv] = dump_item kv @ ''}''"
| "dump_items (kv # kvs) = dump_item kv @ '','' @ dump_items kvs"

definition canonical :: "payload \<Rightarrow> string" where
  "canonical p = ''{'' @ dump_items (sort_key fst p)"

definition row_hash :: "hashfn \<Rightarrow> string \<Rightarrow> payload \<Rightarrow> string" where
  "row_hash H prev p = hex0x (H (py_encode prev @ py_encode (canonical p)))"

section \<open>The JSON text determines the dictionary\<close>

definition unhex2 :: "char \<Rightarrow> char \<Rightarrow> char" where
  "unhex2 h l = char_of (16 * the (digit_of 16 h) + the (digit_of 16 l))"

fun unesc :: "string \<Rightarrow> (char \<times> string) option" where
  "unesc [] = None"
| "unesc (c # cs) =
     (if c \<noteq> CHR 0x5C then Some (c, cs)
      else (case cs of
              [] \<Rightarrow> None
            | d # ds \<Rightarrow>
                if d = CHR ''n'' then Some (char_of (10 :: nat), ds)
                else if d = CHR ''r'' then Some (char_of (13 :: nat), ds)
                else if d = CHR ''t'' then Some (char_of (9 :: nat), ds)
                else if d = CHR ''b'' then Some (char_of (8 :: nat), ds)
                else if d = CHR ''f'' then Some (char_of (12 :: nat), ds)
                else if d = CHR ''u'' then Some (unhex2 (ds ! 2) (ds ! 3), drop 4 ds)
                else Some (d, ds)))"

lemma char_of_code: "code c = n \<Longrightarrow> char_of n = c"
  by (metis char_of_char)

lemma code_backslash: "code c = 92 \<longleftrightarrow> c = CHR 0x5C" "code c = 34 \<longleftrightarrow> c = CHR 0x22"
proof -
  have *: "code c = code d \<longleftrightarrow> c = d" for d by simp
  show "code c = 92 \<longleftrightarrow> c = CHR 0x5C" using * [of "CHR 0x5C"] by simp
  show "code c = 34 \<longleftrightarrow> c = CHR 0x22" using * [of "CHR 0x22"] by simp
qed

lemma unhex2_digits: "unhex2 (digit_char (code c div 16)) (digit_char (code c mod 16)) = c"
proof -
  have "code c div 16 < 16" "code c mod 16 < 16"
    using nat_of_char_less_256 [of c] by (simp_all add: less_mult_imp_div_less)
  then have "unhex2 (digit_char (code c div 16)) (digit_char (code c mod 16))
      = char_of (16 * (code c div 16) + code c mod 16)"
    by (simp add: unhex2_def digit_of_digit_char)
  also have "16 * (code c div 16) + code c mod 16 = code c" by (rule mult_div_mod_eq)
  finally show ?thesis by simp
qed

lemma unesc_esc: "unesc (esc_char c @ r) = Some (c, r)"
proof -
  have u: "unesc ([CHR 0x5C, CHR ''u'', CHR ''0'', CHR ''0'', digit_char (code c div 16),
      digit_char (code c mod 16)] @ r) = Some (c, r)"
    by (simp add: unhex2_digits)
  consider "code c = 34" | "code c = 92" | "code c = 10" | "code c = 13" | "code c = 9" | "code c = 8"
    | "code c = 12" | "32 \<le> code c \<and> code c \<le> 126 \<and> code c \<noteq> 34 \<and> code c \<noteq> 92"
    | "\<not> (32 \<le> code c \<and> code c \<le> 126)" "code c \<notin> {8, 9, 10, 12, 13}" by fastforce
  then show ?thesis
  proof cases
    case 8
    then have "esc_char c = [c]" "c \<noteq> CHR 0x5C" by (auto simp: esc_char_def Let_def)
    then show ?thesis by simp
  next
    case 9
    then have "esc_char c = [CHR 0x5C, CHR ''u'', CHR ''0'', CHR ''0'', digit_char (code c div 16),
        digit_char (code c mod 16)]"
      by (auto simp: esc_char_def Let_def)
    then show ?thesis using u by simp
  qed (simp_all add: esc_char_def Let_def code_backslash char_of_code)
qed

lemma esc_char_first: "esc_char c = d # ds \<Longrightarrow> d \<noteq> CHR 0x22"
  by (auto simp: esc_char_def Let_def code_backslash split: if_splits)

lemma esc_char_not_Nil [simp]: "esc_char c \<noteq> []"
  by (simp add: esc_char_def Let_def)

lemma esc_chars_prefix_free:
  "concat (map esc_char s) @ CHR 0x22 # x = concat (map esc_char t) @ CHR 0x22 # y \<Longrightarrow> s = t \<and> x = y"
proof (induction s arbitrary: t)
  case Nil
  show ?case
  proof (cases t)
    case (Cons c t')
    obtain d ds where d: "esc_char c = d # ds" by (cases "esc_char c") auto
    with Nil Cons have "d = CHR 0x22" by simp
    with esc_char_first [OF d] show ?thesis by simp
  qed (use Nil in simp)
next
  case (Cons c s)
  show ?case
  proof (cases t)
    case Nil
    obtain d ds where d: "esc_char c = d # ds" by (cases "esc_char c") auto
    with Cons.prems Nil have "d = CHR 0x22" by simp
    with esc_char_first [OF d] show ?thesis by simp
  next
    case (Cons c' t')
    let ?r = "concat (map esc_char s) @ CHR 0x22 # x"
    let ?r' = "concat (map esc_char t') @ CHR 0x22 # y"
    have "esc_char c @ ?r = esc_char c' @ ?r'" using Cons.prems Cons by simp
    then have "unesc (esc_char c @ ?r) = unesc (esc_char c' @ ?r')" by (rule arg_cong)
    then have "c = c' \<and> ?r = ?r'" by (simp only: unesc_esc option.inject prod.inject)
    with Cons.IH [of t'] Cons show ?thesis by simp
  qed
qed

lemma dump_str_prefix_free: "dump_str s @ x = dump_str t @ y \<Longrightarrow> s = t \<and> x = y"
  by (auto simp: dump_str_def dest: esc_chars_prefix_free)

lemma delimited_unique:
  assumes "a @ t # x = b @ u # y" "\<And>c. c \<in> set a \<Longrightarrow> \<not> D c" "\<And>c. c \<in> set b \<Longrightarrow> \<not> D c" "D t" "D u"
  shows "a = b \<and> t = u \<and> x = y"
proof -
  have "takeWhile (\<lambda>c. \<not> D c) (a @ t # x) = a" using assms(2,4) by (simp add: takeWhile_append2)
  moreover have "takeWhile (\<lambda>c. \<not> D c) (b @ u # y) = b" using assms(3,5) by (simp add: takeWhile_append2)
  ultimately have "a = b" using assms(1) by metis
  with assms(1) show ?thesis by simp
qed

lemma dump_scalar_first:
  "\<exists>c cs. dump_scalar v = c # cs \<and>
     (case v of SNull \<Rightarrow> c = CHR ''n'' | SStr s \<Rightarrow> c = CHR 0x22
      | SInt i \<Rightarrow> c \<noteq> CHR ''n'' \<and> c \<noteq> CHR 0x22)"
proof (cases v)
  case (SInt i)
  obtain c cs where "int_str i = c # cs" by (cases "int_str i") auto
  with SInt int_str_chars [of c i] show ?thesis by simp
qed (simp_all add: dump_str_def)

lemma dump_scalar_delimited:
  assumes eq: "dump_scalar v @ t # x = dump_scalar w @ u # y"
    and tu: "t \<in> {CHR '','', CHR ''}''}" "u \<in> {CHR '','', CHR ''}''}"
  shows "v = w \<and> t = u \<and> x = y"
proof -
  obtain c cs d ds where first: "dump_scalar v = c # cs" "dump_scalar w = d # ds"
    "case v of SNull \<Rightarrow> c = CHR ''n'' | SStr s \<Rightarrow> c = CHR 0x22 | SInt i \<Rightarrow> c \<noteq> CHR ''n'' \<and> c \<noteq> CHR 0x22"
    "case w of SNull \<Rightarrow> d = CHR ''n'' | SStr s \<Rightarrow> d = CHR 0x22 | SInt i \<Rightarrow> d \<noteq> CHR ''n'' \<and> d \<noteq> CHR 0x22"
    using dump_scalar_first [of v] dump_scalar_first [of w] by blast
  then have "c = d" using eq by simp
  with first(3,4) consider "v = SNull" "w = SNull" | i j where "v = SInt i" "w = SInt j"
    | s r where "v = SStr s" "w = SStr r"
    by (cases v; cases w) auto
  then show ?thesis
  proof cases
    case 1
    with eq show ?thesis by simp
  next
    case 2
    have "int_str i = int_str j \<and> t = u \<and> x = y"
      using eq 2 tu int_str_chars(2,3)
      by (intro delimited_unique [where D = "\<lambda>c. c = CHR '','' \<or> c = CHR ''}''"]) auto
    with 2 show ?thesis by simp
  next
    case 3
    with eq show ?thesis by (auto dest: dump_str_prefix_free)
  qed
qed

lemma dump_item_delimited:
  assumes "dump_item a @ t # x = dump_item b @ u # y"
    "t \<in> {CHR '','', CHR ''}''}" "u \<in> {CHR '','', CHR ''}''}"
  shows "a = b \<and> t = u \<and> x = y"
proof -
  have "fst a = fst b \<and> '':'' @ dump_scalar (snd a) @ t # x = '':'' @ dump_scalar (snd b) @ u # y"
    using assms(1) by (intro dump_str_prefix_free) (simp add: dump_item_def)
  then have "fst a = fst b" "snd a = snd b \<and> t = u \<and> x = y"
    using dump_scalar_delimited [OF _ assms(2,3)] by auto
  then show ?thesis by (simp add: prod_eq_iff)
qed

lemma dump_items_Cons:
  "dump_items (kv # kvs) =
     dump_item kv @ (if kvs = [] then CHR ''}'' # [] else CHR '','' # dump_items kvs)"
  by (cases kvs) simp_all

lemma dump_item_first: "\<exists>cs. dump_item kv = CHR 0x22 # cs"
  by (simp add: dump_item_def dump_str_def)

lemma dump_items_inject: "dump_items xs = dump_items ys \<Longrightarrow> xs = ys"
proof (induction xs arbitrary: ys)
  case Nil
  show ?case
  proof (cases ys)
    case (Cons kv kvs)
    then show ?thesis using Nil dump_item_first [of kv] by (auto simp: dump_items_Cons)
  qed simp
next
  case (Cons a xs)
  show ?case
  proof (cases ys)
    case Nil
    then show ?thesis using Cons.prems dump_item_first [of a] by (auto simp: dump_items_Cons)
  next
    case (Cons b ys')
    have "a = b \<and> (if xs = [] then CHR ''}'' else CHR '','') = (if ys' = [] then CHR ''}'' else CHR '','')
        \<and> (if xs = [] then [] else dump_items xs) = (if ys' = [] then [] else dump_items ys')"
      using Cons.prems Cons
      by (intro dump_item_delimited) (auto simp: dump_items_Cons split: if_splits)
    then show ?thesis using Cons.IH [of ys'] Cons by (auto split: if_splits)
  qed
qed

lemma assoc_eqI:
  assumes "set p = set q" "map fst p = map fst q" "distinct (map fst p)"
  shows "p = q"
proof -
  have d: "distinct (map fst q)" using assms(2,3) by simp
  have some: "map_of p k = Some v \<longleftrightarrow> map_of q k = Some v" for k v
    using assms(1,3) d by (simp add: map_of_eq_Some_iff)
  have eq: "map_of p = map_of q"
  proof
    fix k
    show "map_of p k = map_of q k" by (metis some option.exhaust)
  qed
  have as_map: "r = map (\<lambda>k. (k, the (map_of r k))) (map fst r)" if "distinct (map fst r)" for r :: "('k \<times> 'v) list"
  proof -
    have "map (\<lambda>kv. (fst kv, the (map_of r (fst kv)))) r = r" using that by (intro map_idI) auto
    then show ?thesis by (simp add: comp_def)
  qed
  from as_map [OF assms(3)] as_map [OF d] eq assms(2) show ?thesis by metis
qed

lemma canonical_inject:
  assumes "canonical p = canonical q" "map fst p = map fst q" "distinct (map fst p)"
  shows "p = q"
proof (rule assoc_eqI [OF _ assms(2,3)])
  have "sort_key fst p = sort_key fst q"
    using assms(1) by (intro dump_items_inject) (simp add: canonical_def)
  then show "set p = set q" by (metis set_sort)
qed

section \<open>Hash chains\<close>

text \<open>The head a chain starts from, and the bytes one link hashes.\<close>

definition genesis :: string where "genesis = ''0x00''"

definition link_input :: "string \<Rightarrow> payload \<Rightarrow> bytes" where
  "link_input prev p = py_encode prev @ py_encode (canonical p)"

text \<open>
  The loop of \<open>verify_chains\<close>: each row's stored tag must be the hash of the running head and the
  row's payload; the result is the last head.
\<close>

fun verify_chain :: "hashfn \<Rightarrow> ('r \<Rightarrow> payload) \<Rightarrow> ('r \<Rightarrow> string) \<Rightarrow> string \<Rightarrow> 'r list \<Rightarrow> exn + string" where
  "verify_chain H payload tag head [] = Inr head"
| "verify_chain H payload tag head (r # rs) =
     (let expected = row_hash H head (payload r) in
      if expected \<noteq> tag r then Inl LedgerUnavailable
      else verify_chain H payload tag expected rs)"

fun chain_head :: "hashfn \<Rightarrow> ('r \<Rightarrow> payload) \<Rightarrow> string \<Rightarrow> 'r list \<Rightarrow> string" where
  "chain_head H payload head [] = head"
| "chain_head H payload head (r # rs) = chain_head H payload (row_hash H head (payload r)) rs"

fun chain_inputs :: "hashfn \<Rightarrow> ('r \<Rightarrow> payload) \<Rightarrow> string \<Rightarrow> 'r list \<Rightarrow> bytes list" where
  "chain_inputs H payload head [] = []"
| "chain_inputs H payload head (r # rs) =
     link_input head (payload r) # chain_inputs H payload (row_hash H head (payload r)) rs"

lemma row_hash_link: "row_hash H prev p = hex0x (H (link_input prev p))"
  by (simp add: row_hash_def link_input_def)

lemma chain_head_snoc [simp]:
  "chain_head H payload g (rs @ [r]) = row_hash H (chain_head H payload g rs) (payload r)"
  by (induction rs arbitrary: g) simp_all

lemma chain_inputs_snoc [simp]:
  "chain_inputs H payload g (rs @ [r]) =
     chain_inputs H payload g rs @ [link_input (chain_head H payload g rs) (payload r)]"
  by (induction rs arbitrary: g) simp_all

lemma verify_chain_head: "verify_chain H payload tag g rs = Inr h \<Longrightarrow> h = chain_head H payload g rs"
  by (induction rs arbitrary: g) (auto simp: Let_def split: if_splits)

lemma verify_chain_snoc [simp]:
  "verify_chain H payload tag g (rs @ [r]) =
     (case verify_chain H payload tag g rs of
        Inl e \<Rightarrow> Inl e
      | Inr h \<Rightarrow> if row_hash H h (payload r) \<noteq> tag r then Inl LedgerUnavailable
                 else Inr (row_hash H h (payload r)))"
  by (induction rs arbitrary: g) (auto simp: Let_def)

lemma verify_chain_cong:
  assumes "map (\<lambda>r. (payload r, tag r)) rs = map (\<lambda>r. (payload r, tag r)) rs'"
  shows "verify_chain H payload tag g rs = verify_chain H payload tag g rs'"
  using assms
proof (induction rs arbitrary: g rs')
  case Nil
  then show ?case by simp
next
  case (Cons r rs)
  then obtain r' qs where "rs' = r' # qs" by (cases rs') auto
  with Cons show ?case by (simp add: Let_def)
qed

lemma genesis_not_hash:
  assumes "length bs = 32"
  shows "genesis \<noteq> hex0x bs"
proof
  assume "genesis = hex0x bs"
  then have "length genesis = length (hex0x bs)" by simp
  then show False using assms by (simp add: genesis_def hex0x_def)
qed

lemma no_brace_hex0x: "CHR ''{'' \<notin> set (hex0x bs)"
proof
  assume "CHR ''{'' \<in> set (hex0x bs)"
  then have "CHR ''{'' \<in> set (hex_str bs)" by (simp add: hex0x_def)
  then obtain d where "d < 16" "CHR ''{'' = digit_char d" using hex_str_chars by blast
  then show False using digit_char_neq(6) by metis
qed

lemma no_brace_genesis: "CHR ''{'' \<notin> set genesis"
  by (simp add: genesis_def)

lemma no_brace_chain_head: "CHR ''{'' \<notin> set g \<Longrightarrow> CHR ''{'' \<notin> set (chain_head H payload g rs)"
  by (induction rs rule: rev_induct) (simp_all add: row_hash_link no_brace_hex0x)

lemma link_input_inject:
  assumes "link_input h p = link_input h' p'" "CHR ''{'' \<notin> set h" "CHR ''{'' \<notin> set h'"
  shows "h = h' \<and> canonical p = canonical p'"
proof -
  have "h @ canonical p = h' @ canonical p'"
    using assms(1) by (simp add: link_input_def flip: py_encode_append)
  then have "h = h' \<and> CHR ''{'' = CHR ''{'' \<and> dump_items (sort_key fst p) = dump_items (sort_key fst p')"
    using assms(2,3) by (intro delimited_unique [where D = "\<lambda>c. c = CHR ''{''"]) (auto simp: canonical_def)
  then show ?thesis by (simp add: canonical_def)
qed

text \<open>
  What the books rely on: the payload of every row has the same distinct keys. Then two chains
  that verify from the same start to the same head hold the same payloads in the same order, as
  long as the hash had no collision on the bytes they hashed.
\<close>

locale hash_chain =
  fixes payload :: "'r \<Rightarrow> payload" and tag :: "'r \<Rightarrow> string" and keys :: "string list"
  assumes payload_keys: "map fst (payload r) = keys"
    and keys_distinct: "distinct keys"
begin

lemma payload_inject: "canonical (payload r) = canonical (payload r') \<Longrightarrow> payload r = payload r'"
  by (rule canonical_inject) (simp_all add: payload_keys keys_distinct)

lemma chain_determines:
  assumes "chain_head H payload genesis rs = chain_head H payload genesis rs'"
    and "inj_on H (set (chain_inputs H payload genesis rs) \<union> set (chain_inputs H payload genesis rs'))"
    and len: "\<And>x. length (H x) = 32"
  shows "map payload rs = map payload rs'"
  using assms(1,2)
proof (induction rs arbitrary: rs' rule: rev_induct)
  case Nil
  show ?case
  proof (cases rs' rule: rev_cases)
    case (snoc qs q)
    with Nil genesis_not_hash [OF len] show ?thesis by (simp add: row_hash_link)
  qed simp
next
  case (snoc r rs)
  show ?case
  proof (cases rs' rule: rev_cases)
    case Nil
    with snoc.prems(1) have "hex0x (H (link_input (chain_head H payload genesis rs) (payload r))) = genesis"
      by (simp add: row_hash_link)
    with genesis_not_hash [OF len] show ?thesis by metis
  next
    case (snoc qs q)
    note rs' = this
    let ?h = "chain_head H payload genesis rs" and ?h' = "chain_head H payload genesis qs"
    have "H (link_input ?h (payload r)) = H (link_input ?h' (payload q))"
      using snoc.prems(1) rs' by (simp add: row_hash_link)
    then have "link_input ?h (payload r) = link_input ?h' (payload q)"
      by (rule inj_onD [OF snoc.prems(2)]) (simp_all add: rs')
    then have "?h = ?h' \<and> canonical (payload r) = canonical (payload q)"
      using link_input_inject no_brace_chain_head no_brace_genesis by blast
    moreover have "inj_on H (set (chain_inputs H payload genesis rs) \<union> set (chain_inputs H payload genesis qs))"
      using snoc.prems(2) rs' by (auto elim: inj_on_subset)
    ultimately show ?thesis using snoc.IH [of qs] rs' payload_inject by simp
  qed
qed

lemma verified_determines:
  assumes "verify_chain H payload tag genesis rs = Inr h" "verify_chain H payload tag genesis rs' = Inr h"
    and "inj_on H (set (chain_inputs H payload genesis rs) \<union> set (chain_inputs H payload genesis rs'))"
    and "\<And>x. length (H x) = 32"
  shows "map payload rs = map payload rs'"
  using assms by (intro chain_determines) (auto dest!: verify_chain_head)

end

section \<open>Evaluation of concrete payloads\<close>

text \<open>A stand-in for \<open>keccak\<close> on which the samples run: the first 32 bytes.\<close>

definition toy_hash :: hashfn where
  "toy_hash bs = take 32 (bs @ zero_bytes 32)"

text \<open>Printable ASCII but the quote and the backslash stands for itself.\<close>

definition esc_other :: "char \<Rightarrow> string" where
  "esc_other c = esc_char c"

lemma esc_other_code [code]:
  "esc_other c =
     (let n = code c in
      if n = 34 then [CHR 0x5C, CHR 0x22] else if n = 92 then [CHR 0x5C, CHR 0x5C]
      else if n = 10 then [CHR 0x5C, CHR ''n''] else if n = 13 then [CHR 0x5C, CHR ''r'']
      else if n = 9 then [CHR 0x5C, CHR ''t''] else if n = 8 then [CHR 0x5C, CHR ''b'']
      else if n = 12 then [CHR 0x5C, CHR ''f'']
      else if 32 \<le> n \<and> n \<le> 126 then [c]
      else [CHR 0x5C, CHR ''u'', CHR ''0'', CHR ''0'', digit_char (n div 16), digit_char (n mod 16)])"
  by (simp add: esc_other_def esc_char_def)

lemma esc_char_code [code]:
  "esc_char (Char b0 b1 b2 b3 b4 b5 b6 b7) =
     (if \<not> b7 \<and> (b5 \<or> b6) \<and> (b6 \<or> b4 \<or> b3 \<or> b2 \<or> \<not> b1 \<or> b0) \<and> (b5 \<or> \<not> b4 \<or> \<not> b3 \<or> \<not> b2 \<or> b1 \<or> b0)
         \<and> \<not> (b0 \<and> b1 \<and> b2 \<and> b3 \<and> b4 \<and> b5 \<and> b6)
      then [Char b0 b1 b2 b3 b4 b5 b6 b7] else esc_other (Char b0 b1 b2 b3 b4 b5 b6 b7))"
  by (cases b7; cases b6; cases b5; cases b4; cases b3; cases b2; cases b1; cases b0;
      simp add: esc_other_def esc_char_def)

end
