(* ===== verification/Config.thy ===== *)
theory Config
  imports Rowhash
begin

text \<open>
  \<open>escrow_signer/config.py\<close>: the compiled-in pins and bands, the spend caps and the settings, and
  \<open>load\<close>, which refuses to start on anything missing or malformed. The process environment is the
  parameter \<open>environ\<close> (\<open>os.environ.get\<close>). \<open>rpc_timeout_s\<close> keeps the text of its number: nothing
  in the model computes with it.
\<close>

section \<open>Pinned deployment and policy bands\<close>

definition CHAIN_ID :: int where "CHAIN_ID = 8453"

definition DEPLOYMENTS :: "(string \<times> string) list" where
  "DEPLOYMENTS =
     [(''aicom'', ''0xa4cb6ef73B982B847fB06Ec75540d05D0311B2Eb''),
      (''independent'', ''0x0BFCa46A324fe534Eb6E71c52C8b5AD74B969534'')]"

type_synonym environ = "string \<Rightarrow> string option"

definition DEPLOYMENT :: "environ \<Rightarrow> string" where
  "DEPLOYMENT environ =
     py_strip (case environ ''SIGNER_DEPLOYMENT'' of
                 None \<Rightarrow> ''aicom'' | Some v \<Rightarrow> if v = [] then ''aicom'' else v)"

text \<open>\<open>DEPLOYMENTS.get(DEPLOYMENT, "")\<close>.\<close>

definition ESCROW :: "environ \<Rightarrow> string" where
  "ESCROW environ = (case map_of DEPLOYMENTS (DEPLOYMENT environ) of None \<Rightarrow> [] | Some a \<Rightarrow> a)"

definition TOKEN :: string where "TOKEN = ''0x833589fCD6eDb6E08f4c7C32D4f71b54bdA02913''"
definition TOKEN_DECIMALS :: int where "TOKEN_DECIMALS = 6"
definition TX_VALUE :: int where "TX_VALUE = 0"

definition MAX_BODY_BYTES :: int where "MAX_BODY_BYTES = 8192"
definition GAS_HARD_CAP :: int where "GAS_HARD_CAP = 400000"
definition GAS_MULTIPLIER_NUM :: int where "GAS_MULTIPLIER_NUM = 5"
definition GAS_MULTIPLIER_DEN :: int where "GAS_MULTIPLIER_DEN = 4"
definition MIN_AMOUNT_UNITS :: int where "MIN_AMOUNT_UNITS = 10000"
definition MAX_AMOUNT_UNITS :: int where "MAX_AMOUNT_UNITS = 10000000000"
definition CENT_UNITS :: int where "CENT_UNITS = 10000"
definition MIN_DEADLINE_SKEW_S :: int where "MIN_DEADLINE_SKEW_S = 60"
definition MAX_DEADLINE_TTL_S :: int where "MAX_DEADLINE_TTL_S = 86400"
definition CHANNEL_MIN_REMAINING_S :: int where "CHANNEL_MIN_REMAINING_S = 60"
definition ESCROW_V2_SETTLE_WINDOW_S :: int where "ESCROW_V2_SETTLE_WINDOW_S = 3600"
definition CHAIN_CACHE_TTL_S :: int where "CHAIN_CACHE_TTL_S = 30"

definition UNLIMITED :: string where "UNLIMITED = ''unlimited''"

section \<open>Reading the environment\<close>

text \<open>\<open>(os.environ.get(name, default) or "").strip()\<close>.\<close>

definition env_get :: "environ \<Rightarrow> string \<Rightarrow> string \<Rightarrow> string" where
  "env_get environ name dflt = py_strip (case environ name of None \<Rightarrow> dflt | Some v \<Rightarrow> v)"

definition required :: "environ \<Rightarrow> string \<Rightarrow> exn + string" where
  "required environ name =
     (let value = env_get environ name [] in if value = [] then Inl ConfigError else Inr value)"

definition cap :: "environ \<Rightarrow> string \<Rightarrow> exn + int" where
  "cap environ name =
     (let raw = env_get environ name [] in
      if raw = [] then Inl ConfigError
      else if py_lower raw = UNLIMITED then Inr (- 1)
      else (case py_int raw of
              None \<Rightarrow> Inl ConfigError
            | Some value \<Rightarrow> if value \<le> 0 then Inl ConfigError else Inr value))"

text \<open>\<open>int(s)\<close> and \<open>float(s)\<close> outside any \<open>try\<close>: a malformed number is an uncaught \<open>ValueError\<close>.\<close>

definition int_or_raise :: "string \<Rightarrow> exn + int" where
  "int_or_raise s = someR (py_int s) ValueError"

definition float_digits :: "string \<Rightarrow> bool" where
  "float_digits s \<longleftrightarrow> scan_digits 10 True 0 s \<noteq> None"

definition drop_sign :: "string \<Rightarrow> string" where
  "drop_sign s = (case s of [] \<Rightarrow> [] | c # cs \<Rightarrow> if c = CHR ''-'' \<or> c = CHR ''+'' then cs else s)"

definition float_syntax :: "string \<Rightarrow> bool" where
  "float_syntax s =
     (let t = drop_sign (py_lower (py_strip s));
          mantissa = (\<lambda>m. case py_split CHR ''.'' m of
               [a] \<Rightarrow> float_digits a
             | [a, b] \<Rightarrow> (float_digits a \<or> a = []) \<and> (float_digits b \<or> b = []) \<and> (a \<noteq> [] \<or> b \<noteq> [])
             | _ \<Rightarrow> False)
      in t \<in> {''inf'', ''infinity'', ''nan''}
         \<or> (case py_split CHR ''e'' t of
              [m] \<Rightarrow> mantissa m
            | [m, x] \<Rightarrow> mantissa m \<and> float_digits (drop_sign x)
            | _ \<Rightarrow> False))"

definition float_or_raise :: "string \<Rightarrow> exn + string" where
  "float_or_raise s = (if float_syntax s then Inr s else Inl ValueError)"

section \<open>Caps and settings\<close>

record caps =
  units_10m :: int
  units_1h :: int
  units_24h :: int
  units_per_tx :: int
  units_channel_24h :: int
  tx_1h :: int
  tx_24h :: int
  tx_per_channel_24h :: int
  distinct_channels_24h :: int
  fee_wei_24h :: int

definition caps_items :: "caps \<Rightarrow> (string \<times> int) list" where
  "caps_items c =
     [(''units_10m'', units_10m c), (''units_1h'', units_1h c), (''units_24h'', units_24h c),
      (''units_per_tx'', units_per_tx c), (''units_channel_24h'', units_channel_24h c),
      (''tx_1h'', tx_1h c), (''tx_24h'', tx_24h c),
      (''tx_per_channel_24h'', tx_per_channel_24h c),
      (''distinct_channels_24h'', distinct_channels_24h c), (''fee_wei_24h'', fee_wei_24h c)]"

definition caps_as_json :: "caps \<Rightarrow> payload" where
  "caps_as_json c = map (\<lambda>(k, v). (k, if v = - 1 then SStr UNLIMITED else SInt v)) (caps_items c)"

definition unlimited_windows :: "caps \<Rightarrow> string list" where
  "unlimited_windows c = sort (map fst (filter (\<lambda>kv. snd kv = - 1) (caps_items c)))"

text \<open>\<open>json.dumps(caps.as_json())\<close>, with the default separators.\<close>

fun dump_spaced :: "payload \<Rightarrow> string" where
  "dump_spaced [] = ''}''"
| "dump_spaced [(k, v)] = dump_str k @ '': '' @ dump_scalar v @ ''}''"
| "dump_spaced ((k, v) # kvs) = dump_str k @ '': '' @ dump_scalar v @ '', '' @ dump_spaced kvs"

definition caps_json :: "caps \<Rightarrow> string" where
  "caps_json c = ''{'' @ dump_spaced (caps_as_json c)"

record settings =
  bind_host :: string
  bind_port :: int
  sign_path :: string
  bearer_token :: string
  private_key :: string
  db_path :: string
  rpc_urls :: "string list"
  rpc_timeout_s :: string
  priority_fee_wei :: int
  max_fee_wei_ceiling :: int
  spend_caps :: caps
  user_agent :: string
  audit_witness_path :: string
  max_gas_only_per_24h :: int
  sweep_to :: string
  sweep_min_units :: int
  sweep_interval_s :: int

definition sweep_address :: "string \<Rightarrow> bool" where
  "sweep_address s \<longleftrightarrow>
     length s = 42 \<and> starts_with ''0x'' s \<and> (\<forall>c \<in> set (drop 2 s). digit_of 16 c \<noteq> None)"

definition load_caps :: "environ \<Rightarrow> exn + caps" where
  "load_caps environ =
     bindR (cap environ ''SIGNER_CAP_UNITS_10M'') (\<lambda>a.
     bindR (cap environ ''SIGNER_CAP_UNITS_1H'') (\<lambda>b.
     bindR (cap environ ''SIGNER_CAP_UNITS_24H'') (\<lambda>c.
     bindR (cap environ ''SIGNER_CAP_UNITS_PER_TX'') (\<lambda>d.
     bindR (cap environ ''SIGNER_CAP_UNITS_CHANNEL_24H'') (\<lambda>e.
     bindR (cap environ ''SIGNER_CAP_TX_1H'') (\<lambda>f.
     bindR (cap environ ''SIGNER_CAP_TX_24H'') (\<lambda>g.
     bindR (cap environ ''SIGNER_CAP_TX_PER_CHANNEL_24H'') (\<lambda>h.
     bindR (cap environ ''SIGNER_CAP_DISTINCT_CHANNELS_24H'') (\<lambda>i.
     bindR (cap environ ''SIGNER_CAP_FEE_WEI_24H'') (\<lambda>j.
       Inr \<lparr>units_10m = a, units_1h = b, units_24h = c, units_per_tx = d, units_channel_24h = e,
            tx_1h = f, tx_24h = g, tx_per_channel_24h = h, distinct_channels_24h = i,
            fee_wei_24h = j\<rparr>))))))))))"

definition load :: "environ \<Rightarrow> exn + settings" where
  "load environ =
     bindR (guardR (map_of DEPLOYMENTS (DEPLOYMENT environ) \<noteq> None) ConfigError) (\<lambda>_.
     bindR (required environ ''SIGNER_PRIVATE_KEY'') (\<lambda>key.
     bindR (guardR (starts_with ''0x'' key \<and> length key = 66) ConfigError) (\<lambda>_.
     let path = env_get environ ''SIGNER_SIGN_PATH'' ''/sign'' in
     bindR (guardR (\<not> (\<not> starts_with ''/'' path \<or> ends_with ''/'' path \<and> path \<noteq> ''/'')) ConfigError) (\<lambda>_.
     let urls = filter (\<lambda>u. u \<noteq> []) (map py_strip (py_split CHR '','' (env_get environ ''SIGNER_RPC_URLS'' []))) in
     bindR (guardR (urls \<noteq> []) ConfigError) (\<lambda>_.
     bindR (guardR (\<forall>u \<in> set urls. starts_with ''http://'' u \<or> starts_with ''https://'' u) ConfigError) (\<lambda>_.
     let to = env_get environ ''SIGNER_SWEEP_TO'' [] in
     bindR (guardR (to = [] \<or> sweep_address to) ConfigError) (\<lambda>_.
     bindR (guardR (to = [] \<or> py_int16 to \<noteq> Some 0) ConfigError) (\<lambda>_.
     bindR (int_or_raise (env_get environ ''SIGNER_SWEEP_INTERVAL_S'' ''86400'')) (\<lambda>interval.
     bindR (guardR (600 \<le> interval) ConfigError) (\<lambda>_.
     bindR (int_or_raise (env_get environ ''SIGNER_SWEEP_MIN_UNITS'' ''1000000'')) (\<lambda>min_units.
     bindR (guardR (0 < min_units) ConfigError) (\<lambda>_.
     bindR (int_or_raise (env_get environ ''SIGNER_BIND_PORT'' ''9500'')) (\<lambda>port.
     bindR (required environ ''SIGNER_TOKEN'') (\<lambda>tok.
     bindR (float_or_raise (env_get environ ''SIGNER_RPC_TIMEOUT_S'' ''10'')) (\<lambda>timeout.
     bindR (cap environ ''SIGNER_PRIORITY_FEE_WEI'') (\<lambda>priority.
     bindR (cap environ ''SIGNER_MAX_FEE_WEI_CEILING'') (\<lambda>ceiling.
     bindR (int_or_raise (env_get environ ''SIGNER_MAX_GAS_ONLY_PER_24H'' ''24'')) (\<lambda>gas_only.
     bindR (load_caps environ) (\<lambda>limits.
       Inr \<lparr>bind_host = env_get environ ''SIGNER_BIND_HOST'' ''127.0.0.1'',
            bind_port = port, sign_path = path, bearer_token = tok, private_key = key,
            db_path = env_get environ ''SIGNER_DB_PATH'' ''/var/lib/escrow-signer/signer.db'',
            rpc_urls = urls, rpc_timeout_s = timeout, priority_fee_wei = priority,
            max_fee_wei_ceiling = ceiling, spend_caps = limits,
            user_agent = ''escrow-policy-signer/0.1'',
            audit_witness_path = env_get environ ''SIGNER_AUDIT_WITNESS_PATH'' [],
            max_gas_only_per_24h = gas_only, sweep_to = to, sweep_min_units = min_units,
            sweep_interval_s = interval\<rparr>)))))))))))))))))))"

section \<open>What a loaded configuration guarantees\<close>

lemma cap_Inr: "cap environ name = Inr v \<Longrightarrow> v = - 1 \<or> 0 < v"
  by (auto simp: cap_def Let_def split: if_splits option.splits)

lemma cap_unlimited:
  "cap environ name = Inr v \<Longrightarrow> v = - 1 \<longleftrightarrow> py_lower (env_get environ name []) = UNLIMITED"
  by (auto simp: cap_def Let_def split: if_splits option.splits)

lemma load_caps_Inr:
  assumes "load_caps environ = Inr c" "(k, v) \<in> set (caps_items c)"
  shows "v = - 1 \<or> 0 < v"
  using assms unfolding load_caps_def
  by (elim bindR_InrE) (auto simp: caps_items_def dest: cap_Inr)

lemma required_nonempty: "required environ name = Inr v \<Longrightarrow> v \<noteq> []"
  by (auto simp: required_def Let_def split: if_splits)

lemma load_Inr_conj:
  assumes "load environ = Inr s"
  shows "map_of DEPLOYMENTS (DEPLOYMENT environ) \<noteq> None
    \<and> \<not> (\<not> starts_with ''/'' (sign_path s) \<or> ends_with ''/'' (sign_path s) \<and> sign_path s \<noteq> ''/'')
    \<and> rpc_urls s \<noteq> []
    \<and> (\<forall>u \<in> set (rpc_urls s). starts_with ''http://'' u \<or> starts_with ''https://'' u)
    \<and> (sweep_to s = [] \<or> sweep_address (sweep_to s)) \<and> (sweep_to s = [] \<or> py_int16 (sweep_to s) \<noteq> Some 0)
    \<and> 600 \<le> sweep_interval_s s \<and> 0 < sweep_min_units s
    \<and> load_caps environ = Inr (spend_caps s)
    \<and> cap environ ''SIGNER_PRIORITY_FEE_WEI'' = Inr (priority_fee_wei s)
    \<and> cap environ ''SIGNER_MAX_FEE_WEI_CEILING'' = Inr (max_fee_wei_ceiling s)
    \<and> bearer_token s \<noteq> []"
  using assms unfolding load_def Let_def
  apply (elim bindR_InrE)
  apply (drule Inr_inject)
  apply hypsubst
  apply (simp (no_asm) only: settings.select_convs)
  apply (intro conjI; (assumption | erule required_nonempty guardR_Inr [THEN iffD1]))
  done

text \<open>
  No cap is ever defaulted, zero or negative: in every configuration \<open>load\<close> accepts, each of
  the ten spend caps is positive or is \<open>-1\<close>, the value that only the word "unlimited" produces.
\<close>

theorem load_caps_chosen:
  assumes "load environ = Inr s" "(k, v) \<in> set (caps_items (spend_caps s))"
  shows "v = - 1 \<or> 0 < v"
proof -
  have "load_caps environ = Inr (spend_caps s)" using load_Inr_conj [OF assms(1)] by blast
  then show ?thesis using assms(2) by (rule load_caps_Inr)
qed

definition sample_environ :: environ where
  "sample_environ = map_of
     [(''SIGNER_PRIVATE_KEY'', ''0x1111111111111111111111111111111111111111111111111111111111111111''),
      (''SIGNER_TOKEN'', ''t0ken''), (''SIGNER_RPC_URLS'', ''https://a.example, https://b.example''),
      (''SIGNER_PRIORITY_FEE_WEI'', ''1000000''), (''SIGNER_MAX_FEE_WEI_CEILING'', ''5000000000''),
      (''SIGNER_CAP_UNITS_10M'', ''5000000''), (''SIGNER_CAP_UNITS_1H'', ''10000000''),
      (''SIGNER_CAP_UNITS_24H'', ''25000000''), (''SIGNER_CAP_UNITS_PER_TX'', ''2000000''),
      (''SIGNER_CAP_UNITS_CHANNEL_24H'', ''Unlimited''), (''SIGNER_CAP_TX_1H'', ''60''),
      (''SIGNER_CAP_TX_24H'', ''300''), (''SIGNER_CAP_TX_PER_CHANNEL_24H'', ''50''),
      (''SIGNER_CAP_DISTINCT_CHANNELS_24H'', ''20''), (''SIGNER_CAP_FEE_WEI_24H'', ''10000000000000000''),
      (''SIGNER_SWEEP_TO'', ''0x00000000000000000000000000000000000000A1'')]"

definition sample_settings :: settings where
  "sample_settings =
     \<lparr>bind_host = ''127.0.0.1'', bind_port = 9500, sign_path = ''/sign'', bearer_token = ''t0ken'',
      private_key = ''0x1111111111111111111111111111111111111111111111111111111111111111'',
      db_path = ''/var/lib/escrow-signer/signer.db'',
      rpc_urls = [''https://a.example'', ''https://b.example''], rpc_timeout_s = ''10'',
      priority_fee_wei = 1000000, max_fee_wei_ceiling = 5000000000,
      spend_caps = \<lparr>units_10m = 5000000, units_1h = 10000000, units_24h = 25000000,
        units_per_tx = 2000000, units_channel_24h = - 1, tx_1h = 60, tx_24h = 300,
        tx_per_channel_24h = 50, distinct_channels_24h = 20, fee_wei_24h = 10000000000000000\<rparr>,
      user_agent = ''escrow-policy-signer/0.1'', audit_witness_path = [],
      max_gas_only_per_24h = 24, sweep_to = ''0x00000000000000000000000000000000000000A1'',
      sweep_min_units = 1000000, sweep_interval_s = 86400\<rparr>"

lemma load_sample: "load sample_environ = Inr sample_settings"
  by code_simp

theorem load_caps_chosen_witness:
  "(''tx_1h'', 60) \<in> set (caps_items (spend_caps sample_settings)) \<and> (60 = - 1 \<or> (0 :: int) < 60)"
proof -
  have mem: "(''tx_1h'', 60) \<in> set (caps_items (spend_caps sample_settings))"
    by (simp add: caps_items_def sample_settings_def)
  with load_caps_chosen [OF load_sample mem] show ?thesis by simp
qed

text \<open>
  A configuration that loads names a compiled-in escrow, reads chain over at least one http(s)
  endpoint of its own, serves a sign path that starts with a slash and does not end with one, and
  either leaves the sweep off or sends it to one fixed, syntactically valid, non-zero address, at
  most once per ten minutes and only from a positive amount.
\<close>

theorem load_pins:
  assumes "load environ = Inr s"
  shows "ESCROW environ \<in> snd ` set DEPLOYMENTS \<and> rpc_urls s \<noteq> []
    \<and> (\<forall>u \<in> set (rpc_urls s). starts_with ''http://'' u \<or> starts_with ''https://'' u)
    \<and> starts_with ''/'' (sign_path s) \<and> (sign_path s = ''/'' \<or> \<not> ends_with ''/'' (sign_path s))
    \<and> (sweep_to s = [] \<or> sweep_address (sweep_to s) \<and> py_int16 (sweep_to s) \<noteq> Some 0)
    \<and> 600 \<le> sweep_interval_s s \<and> 0 < sweep_min_units s"
proof -
  note d = load_Inr_conj [OF assms]
  obtain a where a: "map_of DEPLOYMENTS (DEPLOYMENT environ) = Some a" using d by auto
  then have "ESCROW environ \<in> snd ` set DEPLOYMENTS"
    by (auto simp: ESCROW_def dest!: map_of_SomeD intro: rev_image_eqI)
  with d show ?thesis by blast
qed

theorem load_pins_witness:
  "ESCROW sample_environ \<in> snd ` set DEPLOYMENTS \<and> 600 \<le> sweep_interval_s sample_settings"
  using load_pins [OF load_sample] by blast

end
