(* ===== verification/Ledger.thy ===== *)
theory Ledger
  imports Config
begin

text \<open>
  \<open>escrow_signer/ledger.py\<close>: the signer's books. The tables are lists of records in insertion
  order (\<open>nonce_alloc\<close> is a map on its key), and each method of \<open>Ledger\<close> is a program over a state
  that holds them. What SQLite checks is checked here: primary keys and unique indexes (a violation
  is \<open>SqliteError\<close>) and the 64-bit range of a bound integer (\<open>OverflowError\<close>). Statements outside
  \<open>BEGIN\<close> commit at once; \<open>transaction\<close> restores the tables when an exception leaves it. Input and
  output faults of the database file, and sums that leave 64 bits, are outside the model.
\<close>

section \<open>Tables\<close>

datatype row_state = Reserved | Signed | Broadcast | Mined | Dead | Superseded

fun state_str :: "row_state \<Rightarrow> string" where
  "state_str Reserved = ''reserved''"
| "state_str Signed = ''signed''"
| "state_str Broadcast = ''broadcast''"
| "state_str Mined = ''mined''"
| "state_str Dead = ''dead''"
| "state_str Superseded = ''superseded''"

text \<open>\<open>_COUNTED\<close> (states that hold budget) and \<open>_LIVE\<close> (not yet terminal).\<close>

definition counted :: "row_state \<Rightarrow> bool" where
  "counted st \<longleftrightarrow> st \<in> {Reserved, Signed, Broadcast, Mined}"

definition live :: "row_state \<Rightarrow> bool" where
  "live st \<longleftrightarrow> st \<in> {Reserved, Signed, Broadcast}"

definition CLOCK_TOLERANCE_S :: int where "CLOCK_TOLERANCE_S = 5"

text \<open>
  \<open>SpendRow\<close>, and the row of the table \<open>spend\<close>, which adds the two hashes. The column
  \<open>account_nonce\<close> may be null in the schema; every statement of the code writes an integer.
\<close>

record spend_row =
  chain_id :: int
  escrow :: string
  receipt_id :: string
  seq :: int
  ts :: int
  channel_id :: string
  depositor :: string
  token :: string
  amount_units :: int
  deadline :: int
  channel_nonce :: int
  calldata_keccak :: string
  to_addr :: string
  gas_limit :: int
  hub_gas_hint :: int
  max_fee_wei :: int
  account_nonce :: int
  from_addr :: string
  row_state :: row_state
  tx_hash :: string
  fee_wei_spent :: int
  dead_reason :: string

record db_row = spend_row +
  prev_row_hash :: string
  row_tag :: string

definition to_row :: "db_row \<Rightarrow> spend_row" where
  "to_row r = spend_row.truncate r"

text \<open>What "the same request" means.\<close>

definition semantic_tuple :: "spend_row \<Rightarrow> string \<times> string \<times> int \<times> string \<times> string" where
  "semantic_tuple r = (to_addr r, channel_id r, amount_units r, receipt_id r, calldata_keccak r)"

record tx_attempt =
  at_tx_hash :: string
  at_chain_id :: int
  at_escrow :: string
  at_receipt_id :: string
  at_account_nonce :: int
  at_raw_keccak :: string
  at_max_fee_wei :: int
  at_sent_at :: int
  at_receipt_status :: string
  at_seq :: int

record audit_row =
  au_seq :: int
  au_ts :: int
  au_kind :: string
  au_decision :: string
  au_http_status :: int
  au_reason_code :: string
  au_chain_id :: "int option"
  au_escrow :: "string option"
  au_receipt_id :: "string option"
  au_channel_id :: "string option"
  au_amount_units :: "int option"
  au_digest16 :: string
  au_tx_hash :: string
  au_prev_hash :: string
  au_row_hash :: string

record boot_row =
  bo_ts :: int
  bo_address :: string
  bo_chain_id :: int
  bo_escrow :: string
  bo_caps_json :: string
  bo_audit_head :: string
  bo_reconciled :: bool

type_synonym nonce_key = "int \<times> string"

text \<open>
  The database file: the tables, the single row of \<open>clock_guard\<close> and the two rows of
  \<open>chain_head\<close>. \<open>nonce_alloc\<close> maps \<open>(chain_id, from_addr)\<close> to \<open>(next_nonce, updated_seq)\<close>.
\<close>

record ledger_db =
  spend :: "db_row list"
  attempts :: "tx_attempt list"
  audits :: "audit_row list"
  boots :: "boot_row list"
  max_ts :: int
  max_seq :: int
  is_halted :: bool
  halt_reason :: string
  nonce_alloc :: "nonce_key \<rightharpoonup> int \<times> int"
  spend_head :: string
  audit_head :: string

text \<open>What \<open>Ledger.__init__\<close> leaves in a new file.\<close>

definition empty_db :: ledger_db where
  "empty_db =
     \<lparr>spend = [], attempts = [], audits = [], boots = [], max_ts = 0, max_seq = 0,
      is_halted = False, halt_reason = [], nonce_alloc = Map.empty,
      spend_head = genesis, audit_head = genesis\<rparr>"

text \<open>
  The state a method runs in: the database, how often the clock was read, and the lines appended to
  the witness file. The services around it: \<open>keccak\<close>, the readings of \<open>time.time()\<close> in seconds
  in the order they are taken, the witness path and whether the n-th append to it succeeds.
\<close>

record books =
  db :: ledger_db
  clock_reads :: nat
  witness_lines :: "(string \<times> string \<times> int) list"
  witness_tries :: nat

record ledger_env =
  keccak :: hashfn
  clock :: "nat \<Rightarrow> rat"
  witness_path :: string
  witness_opens :: "nat \<Rightarrow> bool"

section \<open>Clock, halt and sequence\<close>

text \<open>\<open>int(x)\<close> of a float truncates towards zero.\<close>

definition py_trunc :: "rat \<Rightarrow> int" where
  "py_trunc x = (if 0 \<le> x then \<lfloor>x\<rfloor> else \<lceil>x\<rceil>)"

definition read_clock :: "'e ledger_env_scheme \<Rightarrow> ('z books_scheme, rat) py" where
  "read_clock E =
     State (\<lambda>s. (Inr (clock E (clock_reads s)), s\<lparr>clock_reads := Suc (clock_reads s)\<rparr>))"

definition wall :: "'e ledger_env_scheme \<Rightarrow> ('z books_scheme, int) py" where
  "wall E = bindE (read_clock E) (\<lambda>t. ok (py_trunc t))"

definition get_db :: "('z books_scheme, ledger_db) py" where
  "get_db = readE db"

definition upd_db :: "(ledger_db \<Rightarrow> ledger_db) \<Rightarrow> ('z books_scheme, unit) py" where
  "upd_db f = writeE (\<lambda>s. s\<lparr>db := f (db s)\<rparr>)"

definition halted :: "ledger_db \<Rightarrow> string" where
  "halted d = (if is_halted d then halt_reason d else [])"

definition halt :: "string \<Rightarrow> ('z books_scheme, unit) py" where
  "halt reason = upd_db (\<lambda>d. d\<lparr>is_halted := True, halt_reason := reason\<rparr>)"

definition clear_halt :: "('z books_scheme, unit) py" where
  "clear_halt = upd_db (\<lambda>d. d\<lparr>is_halted := False, halt_reason := []\<rparr>)"

definition regression_reason :: "int \<Rightarrow> int \<Rightarrow> string" where
  "regression_reason w m = ''clock regression: wall='' @ int_str w @ '' max_ts='' @ int_str m"

definition assert_clock_sane :: "'e ledger_env_scheme \<Rightarrow> ('z books_scheme, unit) py" where
  "assert_clock_sane E =
     bindE get_db (\<lambda>d. bindE (wall E) (\<lambda>w.
       if w < max_ts d - CLOCK_TOLERANCE_S
       then thenE (halt (regression_reason w (max_ts d))) (raise ClockRegression)
       else ok ()))"

definition tick :: "'e ledger_env_scheme \<Rightarrow> ('z books_scheme, int \<times> int) py" where
  "tick E =
     bindE get_db (\<lambda>d. bindE (wall E) (\<lambda>w.
       if w < max_ts d - CLOCK_TOLERANCE_S
       then thenE (halt (regression_reason w (max_ts d))) (raise ClockRegression)
       else
         let t = max w (max_ts d); n = max_seq d + 1 in
         thenE (upd_db (\<lambda>d. d\<lparr>max_ts := t, max_seq := n\<rparr>)) (ok (n, t))))"

section \<open>The audit log\<close>

text \<open>The keyword arguments of \<open>audit\<close>; an absent one is \<open>[]\<close>, \<open>0\<close> or \<open>None\<close>.\<close>

record audit_fields =
  f_kind :: string
  f_decision :: string
  f_http_status :: int
  f_reason_code :: string
  f_chain_id :: "int option"
  f_escrow :: "string option"
  f_receipt_id :: "string option"
  f_channel_id :: "string option"
  f_amount_units :: "int option"
  f_digest16 :: string
  f_tx_hash :: string

definition or_default :: "string \<Rightarrow> string \<Rightarrow> string" where
  "or_default s d = (if s = [] then d else s)"

definition opt_int :: "int option \<Rightarrow> scalar" where
  "opt_int v = (case v of None \<Rightarrow> SNull | Some i \<Rightarrow> SInt i)"

definition opt_str :: "string option \<Rightarrow> scalar" where
  "opt_str v = (case v of None \<Rightarrow> SNull | Some s \<Rightarrow> SStr s)"

text \<open>The dictionary both the writer and \<open>verify_chains\<close> hash.\<close>

definition audit_payload :: "audit_row \<Rightarrow> payload" where
  "audit_payload a =
     [(''ts'', SInt (au_ts a)), (''kind'', SStr (au_kind a)), (''decision'', SStr (au_decision a)),
      (''http_status'', SInt (au_http_status a)), (''reason_code'', SStr (au_reason_code a)),
      (''chain_id'', opt_int (au_chain_id a)), (''escrow'', opt_str (au_escrow a)),
      (''receipt_id'', opt_str (au_receipt_id a)), (''channel_id'', opt_str (au_channel_id a)),
      (''amount_units'', opt_int (au_amount_units a)), (''digest16'', SStr (au_digest16 a)),
      (''tx_hash'', SStr (au_tx_hash a))]"

text \<open>A Python integer that SQLite can store.\<close>

definition sql_int :: "int \<Rightarrow> bool" where
  "sql_int i \<longleftrightarrow> - (2 ^ 63) \<le> i \<and> i < 2 ^ 63"

definition sql_opt :: "int option \<Rightarrow> bool" where
  "sql_opt v = (case v of None \<Rightarrow> True | Some i \<Rightarrow> sql_int i)"

definition next_rowid :: "audit_row list \<Rightarrow> int" where
  "next_rowid rows = foldr max (map au_seq rows) 0 + 1"

definition audit_record :: "int \<Rightarrow> audit_fields \<Rightarrow> ledger_db \<Rightarrow> audit_row" where
  "audit_record t f d =
     \<lparr>au_seq = next_rowid (audits d), au_ts = t, au_kind = or_default (f_kind f) ''request'',
      au_decision = or_default (f_decision f) ''refused'', au_http_status = f_http_status f,
      au_reason_code = f_reason_code f, au_chain_id = f_chain_id f, au_escrow = f_escrow f,
      au_receipt_id = f_receipt_id f, au_channel_id = f_channel_id f,
      au_amount_units = f_amount_units f, au_digest16 = f_digest16 f, au_tx_hash = f_tx_hash f,
      au_prev_hash = audit_head d, au_row_hash = []\<rparr>"

definition write_witness :: "'e ledger_env_scheme \<Rightarrow> string \<Rightarrow> string \<Rightarrow> ('z books_scheme, unit) py" where
  "write_witness E name head =
     (if witness_path E = [] then ok ()
      else bindE (readE witness_tries) (\<lambda>n.
           thenE (writeE (\<lambda>s. s\<lparr>witness_tries := Suc n\<rparr>))
             (if \<not> witness_opens E n then ok ()
              else bindE (wall E) (\<lambda>w.
                   writeE (\<lambda>s. s\<lparr>witness_lines := witness_lines s @ [(name, head, w)]\<rparr>)))))"

definition audit :: "'e ledger_env_scheme \<Rightarrow> audit_fields \<Rightarrow> ('z books_scheme, unit) py" where
  "audit E f =
     bindE (tick E) (\<lambda>(n, t). bindE get_db (\<lambda>d.
       let a = audit_record t f d;
           h = row_hash (keccak E) (audit_head d) (audit_payload a)
       in if \<not> (sql_int t \<and> sql_int (f_http_status f) \<and> sql_opt (f_chain_id f) \<and> sql_opt (f_amount_units f))
          then raise OverflowError
          else thenE (upd_db (\<lambda>d. d\<lparr>audits := audits d @ [a\<lparr>au_row_hash := h\<rparr>]\<rparr>))
                 (thenE (upd_db (\<lambda>d. d\<lparr>audit_head := h\<rparr>)) (write_witness E ''audit'' h))))"

section \<open>Window totals\<close>

definition in_window :: "int \<Rightarrow> string \<Rightarrow> int \<Rightarrow> 'r spend_row_scheme \<Rightarrow> bool" where
  "in_window c e since r \<longleftrightarrow>
     chain_id r = c \<and> escrow r = e \<and> since < ts r \<and> counted (row_state r)"

definition window_units :: "ledger_db \<Rightarrow> int \<Rightarrow> string \<Rightarrow> string \<Rightarrow> int \<Rightarrow> int" where
  "window_units d c e tok since =
     sum_list (map amount_units (filter (\<lambda>r. in_window c e since r \<and> token r = tok) (spend d)))"

definition window_count :: "ledger_db \<Rightarrow> int \<Rightarrow> string \<Rightarrow> int \<Rightarrow> int" where
  "window_count d c e since = int (length (filter (in_window c e since) (spend d)))"

definition channel_units :: "ledger_db \<Rightarrow> int \<Rightarrow> string \<Rightarrow> string \<Rightarrow> int \<Rightarrow> int" where
  "channel_units d c e ch since =
     sum_list (map amount_units (filter (\<lambda>r. in_window c e since r \<and> channel_id r = ch) (spend d)))"

definition channel_count :: "ledger_db \<Rightarrow> int \<Rightarrow> string \<Rightarrow> string \<Rightarrow> int \<Rightarrow> int" where
  "channel_count d c e ch since =
     int (length (filter (\<lambda>r. in_window c e since r \<and> channel_id r = ch) (spend d)))"

definition distinct_channels :: "ledger_db \<Rightarrow> int \<Rightarrow> string \<Rightarrow> int \<Rightarrow> int" where
  "distinct_channels d c e since =
     int (length (remdups (map channel_id (filter (in_window c e since) (spend d)))))"

definition row_fee :: "'r spend_row_scheme \<Rightarrow> int" where
  "row_fee r = (if 0 < fee_wei_spent r then fee_wei_spent r else max_fee_wei r * gas_limit r)"

definition fee_wei_window :: "ledger_db \<Rightarrow> int \<Rightarrow> string \<Rightarrow> int \<Rightarrow> int" where
  "fee_wei_window d c e since =
     sum_list (map row_fee (filter (in_window c e since) (spend d)))"

definition gas_only_count :: "ledger_db \<Rightarrow> int \<Rightarrow> string \<Rightarrow> int \<Rightarrow> int" where
  "gas_only_count d c e since =
     int (length (filter (\<lambda>r. in_window c e since r \<and> amount_units r = 0) (spend d)))"

section \<open>Rows\<close>

definition keyed :: "int \<Rightarrow> string \<Rightarrow> string \<Rightarrow> 'r spend_row_scheme \<Rightarrow> bool" where
  "keyed c e i r \<longleftrightarrow> chain_id r = c \<and> escrow r = e \<and> receipt_id r = i"

definition find_row :: "ledger_db \<Rightarrow> int \<Rightarrow> string \<Rightarrow> string \<Rightarrow> db_row option" where
  "find_row d c e i = find (keyed c e i) (spend d)"

definition get_row :: "ledger_db \<Rightarrow> int \<Rightarrow> string \<Rightarrow> string \<Rightarrow> spend_row option" where
  "get_row d c e i = map_option to_row (find_row d c e i)"

definition unresolved :: "ledger_db \<Rightarrow> spend_row list" where
  "unresolved d = map to_row (sort_key seq (filter (\<lambda>r. live (row_state r)) (spend d)))"

definition attempts_for :: "ledger_db \<Rightarrow> int \<Rightarrow> string \<Rightarrow> string \<Rightarrow> tx_attempt list" where
  "attempts_for d c e i =
     sort_key at_seq
       (filter (\<lambda>a. at_chain_id a = c \<and> at_escrow a = e \<and> at_receipt_id a = i) (attempts d))"

text \<open>The constraints of the table \<open>spend\<close>: primary key, unique \<open>seq\<close>, \<open>idx_spend_nonce\<close>.\<close>

definition row_key :: "'r spend_row_scheme \<Rightarrow> int \<times> string \<times> string" where
  "row_key r = (chain_id r, escrow r, receipt_id r)"

definition nonce_slot :: "'r spend_row_scheme \<Rightarrow> int \<times> string \<times> int" where
  "nonce_slot r = (chain_id r, from_addr r, account_nonce r)"

definition nonce_index_ok :: "db_row list \<Rightarrow> bool" where
  "nonce_index_ok rows \<longleftrightarrow> distinct (map nonce_slot (filter (\<lambda>r. row_state r \<noteq> Dead) rows))"

definition spend_ok :: "db_row list \<Rightarrow> bool" where
  "spend_ok rows \<longleftrightarrow>
     distinct (map row_key rows) \<and> distinct (map seq rows) \<and> nonce_index_ok rows"

end
