(* ===== verification/Ledger_Ops.thy ===== *)
theory Ledger_Ops
  imports Ledger
begin

text \<open>
  The writing methods of \<open>Ledger\<close>: the two reservations (\<open>reserve\<close>, R20, and
  \<open>reserve_gas_only\<close>, R28), the state transitions and the integrity check. The ledger's mutex
  makes each method one step (theory \<open>Locks\<close>); \<open>BEGIN IMMEDIATE ... COMMIT\<close> is \<open>transaction\<close>.
\<close>

section \<open>Transactions\<close>

text \<open>
  \<open>BEGIN\<close> to \<open>COMMIT\<close>: whatever exception leaves the block, the handlers (or
  \<open>_rollback_on_error\<close>) roll the tables back; the clock readings are not undone.
\<close>

definition transaction :: "('z books_scheme, 'a) py \<Rightarrow> ('z books_scheme, 'a) py" where
  "transaction m =
     bindE get_db (\<lambda>d. tryE m (\<lambda>e. thenE (upd_db (\<lambda>_. d)) (raise e)) ok)"

text \<open>The tail of the \<open>except\<close> clause: \<open>sqlite3.Error\<close> becomes \<open>LedgerUnavailable\<close>.\<close>

definition as_unavailable :: "('z books_scheme, 'a) py \<Rightarrow> ('z books_scheme, 'a) py" where
  "as_unavailable m =
     tryE m (\<lambda>e. if e = SqliteError then raise LedgerUnavailable else raise e) ok"

section \<open>What a reservation asks for\<close>

record reserve_args =
  r_chain_id :: int
  r_escrow :: string
  r_receipt_id :: string
  r_channel_id :: string
  r_depositor :: string
  r_token :: string
  r_amount :: int
  r_deadline :: int
  r_channel_nonce :: int
  r_calldata_keccak :: string
  r_to_addr :: string
  r_gas_limit :: int
  r_hub_gas_hint :: int
  r_max_fee_wei :: int
  r_from_addr :: string

definition args_key :: "reserve_args \<Rightarrow> nonce_key" where
  "args_key a = (r_chain_id a, r_from_addr a)"

text \<open>The chained fields of a row, in the order of \<open>_CHAINED_FIELDS\<close>.\<close>

definition spend_payload :: "'r spend_row_scheme \<Rightarrow> payload" where
  "spend_payload r =
     [(''chain_id'', SInt (chain_id r)), (''escrow'', SStr (escrow r)),
      (''receipt_id'', SStr (receipt_id r)), (''seq'', SInt (seq r)), (''ts'', SInt (ts r)),
      (''channel_id'', SStr (channel_id r)), (''depositor'', SStr (depositor r)),
      (''token'', SStr (token r)), (''amount_units'', SInt (amount_units r)),
      (''deadline'', SInt (deadline r)), (''channel_nonce'', SInt (channel_nonce r)),
      (''calldata_keccak'', SStr (calldata_keccak r)), (''to_addr'', SStr (to_addr r)),
      (''from_addr'', SStr (from_addr r))]"

text \<open>The row an \<open>INSERT\<close> writes, its hash over the current head.\<close>

definition fresh_row :: "hashfn \<Rightarrow> string \<Rightarrow> reserve_args \<Rightarrow> int \<Rightarrow> int \<Rightarrow> int \<Rightarrow> db_row" where
  "fresh_row H head a n t nonce =
     (let r = \<lparr>chain_id = r_chain_id a, escrow = r_escrow a, receipt_id = r_receipt_id a, seq = n,
               ts = t, channel_id = r_channel_id a, depositor = r_depositor a, token = r_token a,
               amount_units = r_amount a, deadline = r_deadline a,
               channel_nonce = r_channel_nonce a, calldata_keccak = r_calldata_keccak a,
               to_addr = r_to_addr a, gas_limit = r_gas_limit a, hub_gas_hint = r_hub_gas_hint a,
               max_fee_wei = r_max_fee_wei a, account_nonce = nonce, from_addr = r_from_addr a,
               row_state = Reserved, tx_hash = [], fee_wei_spent = 0, dead_reason = [],
               prev_row_hash = head, row_tag = []\<rparr>
      in r\<lparr>row_tag := row_hash H head (spend_payload r)\<rparr>)"

definition insert_ints_ok :: "caps \<Rightarrow> reserve_args \<Rightarrow> int \<Rightarrow> int \<Rightarrow> bool" where
  "insert_ints_ok c a nonce now \<longleftrightarrow>
     list_all sql_int
       [r_chain_id a, r_amount a, r_deadline a, r_channel_nonce a, r_gas_limit a, r_hub_gas_hint a,
        r_max_fee_wei a, nonce, units_24h c, units_1h c, units_10m c, units_channel_24h c, tx_1h c,
        tx_24h c, now - 600, now - 3600, now - 86400]"

definition revive_ints_ok :: "reserve_args \<Rightarrow> int \<Rightarrow> bool" where
  "revive_ints_ok a nonce \<longleftrightarrow>
     list_all sql_int
       [nonce, r_gas_limit a, r_hub_gas_hint a, r_max_fee_wei a, r_chain_id a, r_amount a]"

section \<open>The caps\<close>

text \<open>The tuple \<open>checks\<close>: name, limit, what this call adds, what the window holds.\<close>

definition cap_checks :: "ledger_db \<Rightarrow> caps \<Rightarrow> reserve_args \<Rightarrow> int \<Rightarrow> (string \<times> int \<times> int \<times> int) list" where
  "cap_checks d c a now =
     (let ch = r_chain_id a; e = r_escrow a; tok = r_token a; chan = r_channel_id a;
          cut_10m = now - 600; cut_1h = now - 3600; cut_24h = now - 86400; amount = r_amount a
      in [(''cap_units_per_tx'', units_per_tx c, amount, 0),
          (''cap_units_10m'', units_10m c, amount, window_units d ch e tok cut_10m),
          (''cap_units_1h'', units_1h c, amount, window_units d ch e tok cut_1h),
          (''cap_units_24h'', units_24h c, amount, window_units d ch e tok cut_24h),
          (''cap_units_channel_24h'', units_channel_24h c, amount, channel_units d ch e chan cut_24h),
          (''cap_tx_1h'', tx_1h c, 1, window_count d ch e cut_1h),
          (''cap_tx_24h'', tx_24h c, 1, window_count d ch e cut_24h),
          (''cap_tx_per_channel_24h'', tx_per_channel_24h c, 1, channel_count d ch e chan cut_24h),
          (''cap_fee_wei_24h'', fee_wei_24h c, r_max_fee_wei a * r_gas_limit a,
            fee_wei_window d ch e cut_24h)])"

definition breaches :: "string \<times> int \<times> int \<times> int \<Rightarrow> bool" where
  "breaches = (\<lambda>(name, limit, adding, existing). limit \<noteq> - 1 \<and> limit < existing + adding)"

definition channels_breach :: "ledger_db \<Rightarrow> caps \<Rightarrow> reserve_args \<Rightarrow> int \<Rightarrow> bool" where
  "channels_breach d c a now \<longleftrightarrow>
     distinct_channels_24h c \<noteq> - 1
     \<and> channel_count d (r_chain_id a) (r_escrow a) (r_channel_id a) (now - 86400) = 0
     \<and> distinct_channels_24h c < distinct_channels d (r_chain_id a) (r_escrow a) (now - 86400) + 1"

text \<open>The first window that would be exceeded.\<close>

definition first_breach :: "ledger_db \<Rightarrow> caps \<Rightarrow> reserve_args \<Rightarrow> int \<Rightarrow> string option" where
  "first_breach d c a now =
     (case find breaches (cap_checks d c a now) of
        Some (name, _) \<Rightarrow> Some name
      | None \<Rightarrow> if channels_breach d c a now then Some ''cap_distinct_channels_24h'' else None)"

text \<open>The \<open>WHERE\<close> clause of the guarded \<open>INSERT\<close>.\<close>

definition insert_guard :: "ledger_db \<Rightarrow> caps \<Rightarrow> reserve_args \<Rightarrow> int \<Rightarrow> bool" where
  "insert_guard d c a now \<longleftrightarrow>
     (let ch = r_chain_id a; e = r_escrow a; tok = r_token a; chan = r_channel_id a;
          cut_10m = now - 600; cut_1h = now - 3600; cut_24h = now - 86400; amount = r_amount a
      in (units_24h c = - 1 \<or> window_units d ch e tok cut_24h + amount \<le> units_24h c)
         \<and> (units_1h c = - 1 \<or> window_units d ch e tok cut_1h + amount \<le> units_1h c)
         \<and> (units_10m c = - 1 \<or> window_units d ch e tok cut_10m + amount \<le> units_10m c)
         \<and> (units_channel_24h c = - 1
             \<or> channel_units d ch e chan cut_24h + amount \<le> units_channel_24h c)
         \<and> (tx_1h c = - 1 \<or> window_count d ch e cut_1h + 1 \<le> tx_1h c)
         \<and> (tx_24h c = - 1 \<or> window_count d ch e cut_24h + 1 \<le> tx_24h c))"

section \<open>Statements of the reservation\<close>

text \<open>\<open>INSERT OR IGNORE INTO nonce_alloc\<close>; the allocator's next nonce.\<close>

definition ensure_nonce :: "nonce_key \<Rightarrow> int \<Rightarrow> ledger_db \<Rightarrow> ledger_db" where
  "ensure_nonce k n d =
     (case nonce_alloc d k of
        None \<Rightarrow> d\<lparr>nonce_alloc := (nonce_alloc d)(k \<mapsto> (0, n))\<rparr>
      | Some _ \<Rightarrow> d)"

definition next_nonce :: "ledger_db \<Rightarrow> nonce_key \<Rightarrow> int" where
  "next_nonce d k = (case nonce_alloc d k of None \<Rightarrow> 0 | Some (n, _) \<Rightarrow> n)"

definition bump_nonce :: "nonce_key \<Rightarrow> int \<Rightarrow> ledger_db \<Rightarrow> ledger_db" where
  "bump_nonce k n d = d\<lparr>nonce_alloc := (nonce_alloc d)(k \<mapsto> (next_nonce d k + 1, n))\<rparr>"

text \<open>
  \<open>UPDATE spend SET state = 'reserved', ... WHERE key AND state = 'dead' AND amount_units = ...\<close>.
  The gas-only statement leaves \<open>hub_gas_hint\<close> alone.
\<close>

definition revivable :: "reserve_args \<Rightarrow> db_row \<Rightarrow> bool" where
  "revivable a r \<longleftrightarrow>
     keyed (r_chain_id a) (r_escrow a) (r_receipt_id a) r \<and> row_state r = Dead
     \<and> amount_units r = r_amount a"

definition revive_row :: "bool \<Rightarrow> reserve_args \<Rightarrow> int \<Rightarrow> db_row \<Rightarrow> db_row" where
  "revive_row hint a nonce r =
     r\<lparr>row_state := Reserved, account_nonce := nonce, gas_limit := r_gas_limit a,
       hub_gas_hint := (if hint then r_hub_gas_hint a else hub_gas_hint r),
       max_fee_wei := r_max_fee_wei a, tx_hash := [], dead_reason := []\<rparr>"

definition revive_rows :: "bool \<Rightarrow> reserve_args \<Rightarrow> int \<Rightarrow> db_row list \<Rightarrow> db_row list" where
  "revive_rows hint a nonce rows = map (\<lambda>r. if revivable a r then revive_row hint a nonce r else r) rows"

definition revive_stmt :: "bool \<Rightarrow> reserve_args \<Rightarrow> int \<Rightarrow> ('z books_scheme, unit) py" where
  "revive_stmt hint a nonce =
     bindE get_db (\<lambda>d.
       let rows = revive_rows hint a nonce (spend d) in
       if \<not> revive_ints_ok a nonce then raise OverflowError
       else if \<not> nonce_index_ok rows then raise SqliteError
       else if length (filter (revivable a) (spend d)) \<noteq> 1 then raise LedgerUnavailable
       else upd_db (\<lambda>d. d\<lparr>spend := rows\<rparr>))"

text \<open>The guarded \<open>INSERT\<close> and the new head of the spend chain.\<close>

definition insert_stmt :: "hashfn \<Rightarrow> bool \<Rightarrow> bool \<Rightarrow> reserve_args \<Rightarrow> int \<Rightarrow> int \<Rightarrow> int \<Rightarrow> ('z books_scheme, unit) py" where
  "insert_stmt H ints guard a n t nonce =
     bindE get_db (\<lambda>d.
       let r = fresh_row H (spend_head d) a n t nonce in
       if \<not> (ints \<and> sql_int n \<and> sql_int t) then raise OverflowError
       else if \<not> guard then raise (CapBreach ''cap_race'')
       else if \<not> spend_ok (spend d @ [r]) then raise SqliteError
       else upd_db (\<lambda>d. d\<lparr>spend := spend d @ [r], spend_head := row_tag r\<rparr>))"

text \<open>\<open>tick\<close>, then the allocator's nonce for this key.\<close>

definition open_attempt :: "'e ledger_env_scheme \<Rightarrow> nonce_key \<Rightarrow> ('z books_scheme, int \<times> int \<times> int) py" where
  "open_attempt E k =
     bindE (tick E) (\<lambda>(n, t).
       thenE (upd_db (ensure_nonce k n)) (bindE get_db (\<lambda>d. ok (n, t, next_nonce d k))))"

definition transition_audit :: "reserve_args \<Rightarrow> string \<Rightarrow> audit_fields" where
  "transition_audit a reason =
     \<lparr>f_kind = ''transition'', f_decision = ''reserved'', f_http_status = 0, f_reason_code = reason,
      f_chain_id = Some (r_chain_id a), f_escrow = Some (r_escrow a),
      f_receipt_id = Some (r_receipt_id a), f_channel_id = Some (r_channel_id a),
      f_amount_units = Some (r_amount a), f_digest16 = [], f_tx_hash = []\<rparr>"

text \<open>\<open>self.get(...)\<close> after the commit; a missing row is \<open>LedgerUnavailable\<close>.\<close>

definition fetch_row :: "reserve_args \<Rightarrow> ('z books_scheme, spend_row) py" where
  "fetch_row a =
     bindE get_db (\<lambda>d. case get_row d (r_chain_id a) (r_escrow a) (r_receipt_id a) of
         None \<Rightarrow> raise LedgerUnavailable | Some r \<Rightarrow> ok r)"

section \<open>R20: the reservation of a debit\<close>

definition reserve_revive :: "'e ledger_env_scheme \<Rightarrow> reserve_args \<Rightarrow> ('z books_scheme, spend_row) py" where
  "reserve_revive E a =
     as_unavailable
       (thenE (transaction (bindE (open_attempt E (args_key a)) (\<lambda>(n, t, nonce).
                 thenE (revive_stmt True a nonce) (upd_db (bump_nonce (args_key a) n)))))
         (bindE (fetch_row a) (\<lambda>row.
           thenE (audit E (transition_audit a ''revived after a released attempt'')) (ok row))))"

definition reserve_insert :: "'e ledger_env_scheme \<Rightarrow> caps \<Rightarrow> reserve_args \<Rightarrow> int \<Rightarrow> ('z books_scheme, spend_row) py" where
  "reserve_insert E c a now =
     thenE (as_unavailable (transaction (bindE (open_attempt E (args_key a)) (\<lambda>(n, t, nonce).
              bindE get_db (\<lambda>d.
                thenE (insert_stmt (keccak E) (insert_ints_ok c a nonce now) (insert_guard d c a now) a n t nonce)
                  (upd_db (bump_nonce (args_key a) n)))))))
       (fetch_row a)"

definition reserve :: "'e ledger_env_scheme \<Rightarrow> caps \<Rightarrow> reserve_args \<Rightarrow> ('z books_scheme, spend_row) py" where
  "reserve E c a =
     (if r_amount a \<le> 0 then raise ValueError
      else thenE (assert_clock_sane E) (bindE (wall E) (\<lambda>now. bindE get_db (\<lambda>d.
        case first_breach d c a now of
          Some name \<Rightarrow> raise (CapBreach name)
        | None \<Rightarrow>
            (case get_row d (r_chain_id a) (r_escrow a) (r_receipt_id a) of
               None \<Rightarrow> reserve_insert E c a now
             | Some existing \<Rightarrow>
                 if row_state existing \<noteq> Dead then raise LedgerUnavailable
                 else reserve_revive E a)))))"

section \<open>R28: the reservation of a call that moves no tokens\<close>

text \<open>The arguments with the fields the method fills in itself.\<close>

definition gas_args :: "reserve_args \<Rightarrow> reserve_args" where
  "gas_args a =
     a\<lparr>r_depositor := [], r_token := [], r_amount := 0, r_deadline := 0, r_channel_nonce := 0,
       r_hub_gas_hint := 0\<rparr>"

definition gas_breach :: "ledger_db \<Rightarrow> caps \<Rightarrow> reserve_args \<Rightarrow> int \<Rightarrow> int \<Rightarrow> string option" where
  "gas_breach d c a limit now =
     (let cut = now - 86400 in
      if limit \<noteq> - 1 \<and> limit < gas_only_count d (r_chain_id a) (r_escrow a) cut + 1
        then Some ''cap_gas_only_24h''
      else if fee_wei_24h c \<noteq> - 1
          \<and> fee_wei_24h c < fee_wei_window d (r_chain_id a) (r_escrow a) cut + r_max_fee_wei a * r_gas_limit a
        then Some ''cap_fee_wei_24h''
      else None)"

definition gas_guard :: "ledger_db \<Rightarrow> reserve_args \<Rightarrow> int \<Rightarrow> int \<Rightarrow> bool" where
  "gas_guard d a limit now \<longleftrightarrow>
     limit = - 1 \<or> gas_only_count d (r_chain_id a) (r_escrow a) (now - 86400) + 1 \<le> limit"

definition gas_ints_ok :: "reserve_args \<Rightarrow> int \<Rightarrow> int \<Rightarrow> int \<Rightarrow> bool" where
  "gas_ints_ok a nonce limit now \<longleftrightarrow>
     list_all sql_int
       [r_chain_id a, r_gas_limit a, r_max_fee_wei a, nonce, limit, now - 86400]"

definition gas_attempt :: "'e ledger_env_scheme \<Rightarrow> reserve_args \<Rightarrow> int \<Rightarrow> int \<Rightarrow> bool \<Rightarrow> ('z books_scheme, unit) py" where
  "gas_attempt E a limit now revive =
     transaction (bindE (open_attempt E (args_key a)) (\<lambda>(n, t, nonce).
       thenE (if revive then revive_stmt False a nonce
              else bindE get_db (\<lambda>d.
                insert_stmt (keccak E) (gas_ints_ok a nonce limit now) (gas_guard d a limit now) a n t nonce))
         (upd_db (bump_nonce (args_key a) n))))"

definition reserve_gas_only :: "'e ledger_env_scheme \<Rightarrow> caps \<Rightarrow> reserve_args \<Rightarrow> int \<Rightarrow> ('z books_scheme, spend_row) py" where
  "reserve_gas_only E c args limit =
     (let a = gas_args args in
      thenE (assert_clock_sane E) (bindE (wall E) (\<lambda>now. bindE get_db (\<lambda>d.
        case gas_breach d c a limit now of
          Some name \<Rightarrow> raise (CapBreach name)
        | None \<Rightarrow>
            let existing = get_row d (r_chain_id a) (r_escrow a) (r_receipt_id a);
                revive = (case existing of None \<Rightarrow> False | Some r \<Rightarrow> row_state r = Dead)
            in if existing \<noteq> None \<and> \<not> revive then raise LedgerUnavailable
               else thenE (as_unavailable (gas_attempt E a limit now revive))
                 (bindE (fetch_row a) (\<lambda>row.
                   thenE (audit E (transition_audit a ''gas-only call reserved'')) (ok row)))))))"

section \<open>State transitions\<close>

text \<open>The keyword arguments of \<open>_set_state\<close>; \<open>None\<close> is an absent one.\<close>

record row_updates =
  u_tx_hash :: "string option"
  u_fee_wei :: "int option"
  u_dead_reason :: "string option"

definition no_updates :: row_updates where
  "no_updates = \<lparr>u_tx_hash = None, u_fee_wei = None, u_dead_reason = None\<rparr>"

definition given :: "'a option \<Rightarrow> 'a \<Rightarrow> 'a" where
  "given v dflt = (case v of None \<Rightarrow> dflt | Some x \<Rightarrow> x)"

definition apply_updates :: "row_state \<Rightarrow> row_updates \<Rightarrow> db_row \<Rightarrow> db_row" where
  "apply_updates st u r =
     r\<lparr>row_state := st, tx_hash := given (u_tx_hash u) (tx_hash r),
       fee_wei_spent := given (u_fee_wei u) (fee_wei_spent r),
       dead_reason := given (u_dead_reason u) (dead_reason r)\<rparr>"

definition update_rows :: "spend_row \<Rightarrow> row_state \<Rightarrow> row_updates \<Rightarrow> db_row list \<Rightarrow> db_row list" where
  "update_rows row st u rows =
     map (\<lambda>r. if keyed (chain_id row) (escrow row) (receipt_id row) r then apply_updates st u r else r) rows"

definition set_state :: "'e ledger_env_scheme \<Rightarrow> spend_row \<Rightarrow> row_state \<Rightarrow> row_updates \<Rightarrow> ('z books_scheme, unit) py" where
  "set_state E row st u =
     bindE get_db (\<lambda>d.
       let rows = update_rows row st u (spend d) in
       if \<not> sql_opt (u_fee_wei u) then raise OverflowError
       else if \<not> nonce_index_ok rows then raise SqliteError
       else thenE (upd_db (\<lambda>d. d\<lparr>spend := rows\<rparr>))
         (audit E \<lparr>f_kind = ''transition'', f_decision = state_str st, f_http_status = 0,
            f_reason_code = given (u_dead_reason u) [], f_chain_id = Some (chain_id row),
            f_escrow = Some (escrow row), f_receipt_id = Some (receipt_id row),
            f_channel_id = Some (channel_id row), f_amount_units = Some (amount_units row),
            f_digest16 = [], f_tx_hash = given (u_tx_hash u) (tx_hash row)\<rparr>))"

text \<open>\<open>INSERT OR REPLACE\<close>: rows that share the hash or the \<open>seq\<close> go first.\<close>

definition record_attempt :: "tx_attempt \<Rightarrow> ledger_db \<Rightarrow> ledger_db" where
  "record_attempt a d =
     d\<lparr>attempts := filter (\<lambda>b. at_tx_hash b \<noteq> at_tx_hash a \<and> at_seq b \<noteq> at_seq a) (attempts d) @ [a]\<rparr>"

definition mark_signed :: "'e ledger_env_scheme \<Rightarrow> spend_row \<Rightarrow> string \<Rightarrow> string \<Rightarrow> ('z books_scheme, unit) py" where
  "mark_signed E row h raw_keccak =
     thenE (set_state E row Signed (no_updates\<lparr>u_tx_hash := Some h\<rparr>))
       (bindE (tick E) (\<lambda>(n, t).
         upd_db (record_attempt
           \<lparr>at_tx_hash = h, at_chain_id = chain_id row, at_escrow = escrow row,
            at_receipt_id = receipt_id row, at_account_nonce = account_nonce row,
            at_raw_keccak = raw_keccak, at_max_fee_wei = max_fee_wei row, at_sent_at = t,
            at_receipt_status = [], at_seq = n\<rparr>)))"

definition mark_broadcast :: "'e ledger_env_scheme \<Rightarrow> spend_row \<Rightarrow> string \<Rightarrow> ('z books_scheme, unit) py" where
  "mark_broadcast E row h = set_state E row Broadcast (no_updates\<lparr>u_tx_hash := Some h\<rparr>)"

definition mark_mined :: "'e ledger_env_scheme \<Rightarrow> spend_row \<Rightarrow> string \<Rightarrow> int \<Rightarrow> ('z books_scheme, unit) py" where
  "mark_mined E row h fee =
     set_state E row Mined
       (no_updates\<lparr>u_tx_hash := (if h \<noteq> [] then Some h else None),
                   u_fee_wei := (if fee \<noteq> 0 then Some fee else None)\<rparr>)"

text \<open>
  "Never signed", read from the books: the stored row is still reserved and no attempt carried its
  nonce. Only then, and only if nothing was allocated after it, the nonce goes back.
\<close>

definition unsigned_row :: "ledger_db \<Rightarrow> spend_row \<Rightarrow> db_row option" where
  "unsigned_row d row =
     (case find_row d (chain_id row) (escrow row) (receipt_id row) of
        None \<Rightarrow> None
      | Some held \<Rightarrow>
          if row_state held = Reserved
             \<and> find (\<lambda>a. at_chain_id a = chain_id row \<and> at_account_nonce a = account_nonce held) (attempts d) = None
          then Some held else None)"

definition return_nonce :: "nonce_key \<Rightarrow> int \<Rightarrow> ledger_db \<Rightarrow> ledger_db" where
  "return_nonce k nonce d =
     (case nonce_alloc d k of
        None \<Rightarrow> d
      | Some (n, _) \<Rightarrow>
          if n = nonce + 1 then d\<lparr>nonce_alloc := (nonce_alloc d)(k \<mapsto> (nonce, max_seq d))\<rparr> else d)"

definition mark_dead :: "'e ledger_env_scheme \<Rightarrow> spend_row \<Rightarrow> string \<Rightarrow> ('z books_scheme, unit) py" where
  "mark_dead E row reason =
     bindE get_db (\<lambda>d.
       thenE (set_state E row Dead (no_updates\<lparr>u_dead_reason := Some reason\<rparr>))
         (case unsigned_row d row of
            None \<Rightarrow> ok ()
          | Some held \<Rightarrow>
              upd_db (return_nonce (chain_id row, from_addr held) (account_nonce held))))"

definition record_attempt_status :: "string \<Rightarrow> string \<Rightarrow> ('z books_scheme, unit) py" where
  "record_attempt_status h status =
     upd_db (\<lambda>d. d\<lparr>attempts := map (\<lambda>a. if at_tx_hash a = h then a\<lparr>at_receipt_status := status\<rparr> else a)
                              (attempts d)\<rparr>)"

definition set_next_nonce :: "'e ledger_env_scheme \<Rightarrow> int \<Rightarrow> string \<Rightarrow> int \<Rightarrow> ('z books_scheme, unit) py" where
  "set_next_nonce E c addr nonce =
     bindE (tick E) (\<lambda>(n, t).
       if \<not> sql_int nonce then raise OverflowError
       else upd_db (\<lambda>d. d\<lparr>nonce_alloc := (nonce_alloc d)((c, addr) \<mapsto> (nonce, n))\<rparr>))"

section \<open>Integrity\<close>

definition verify_spend :: "hashfn \<Rightarrow> ledger_db \<Rightarrow> exn + string" where
  "verify_spend H d = verify_chain H spend_payload row_tag genesis (sort_key seq (spend d))"

definition verify_audit :: "hashfn \<Rightarrow> ledger_db \<Rightarrow> exn + string" where
  "verify_audit H d = verify_chain H audit_payload au_row_hash genesis (sort_key au_seq (audits d))"

definition verify_chains :: "'e ledger_env_scheme \<Rightarrow> ('z books_scheme, unit) py" where
  "verify_chains E =
     bindE get_db (\<lambda>d.
       liftE (bindR (verify_spend (keccak E) d) (\<lambda>_. bindR (verify_audit (keccak E) d) (\<lambda>_. Inr ()))))"

definition record_boot :: "'e ledger_env_scheme \<Rightarrow> string \<Rightarrow> int \<Rightarrow> string \<Rightarrow> string \<Rightarrow> bool \<Rightarrow> ('z books_scheme, unit) py" where
  "record_boot E address c e caps_text reconciled =
     bindE (tick E) (\<lambda>(n, t).
       upd_db (\<lambda>d. d\<lparr>boots := boots d @
         [\<lparr>bo_ts = t, bo_address = address, bo_chain_id = c, bo_escrow = e, bo_caps_json = caps_text,
           bo_audit_head = audit_head d, bo_reconciled = reconciled\<rparr>]\<rparr>))"

record ledger_stats =
  st_rows :: int
  st_live :: int
  st_audit_rows :: int
  st_audit_head :: string
  st_halted :: string
  st_max_ts :: int
  st_now :: int

definition stats :: "'e ledger_env_scheme \<Rightarrow> ('z books_scheme, ledger_stats) py" where
  "stats E =
     bindE (wall E) (\<lambda>now. bindE get_db (\<lambda>d.
       ok \<lparr>st_rows = int (length (spend d)), st_live = int (length (unresolved d)),
           st_audit_rows = int (length (audits d)), st_audit_head = audit_head d,
           st_halted = halted d, st_max_ts = max_ts d, st_now = now\<rparr>))"

end
