(* ===== verification/Ledger_Steps.thy ===== *)
theory Ledger_Steps
  imports Ledger_Ops
begin

text \<open>
  The books as a state machine. \<open>book_step H k\<close> has one rule per statement or transaction the
  methods of \<open>Ledger\<close> commit; \<open>k = (chain_id, from_addr)\<close> is the key of the process's signing
  address and \<open>B\<close> the nonces it has already handed to the network (the boot's \<open>set_next_nonce\<close> runs
  before the first of them). Every method is a path of these steps, so what holds of every step
  holds after every method, whatever its outcome. An audit row and the head it moves are one step
  here: the two statements of \<open>audit\<close> commit separately. What a process killed between them leaves is
  treated in \<open>Ledger_History\<close> (the audit chain breaks) and \<open>File_Life\<close> (the rows stay sound).
\<close>

section \<open>The effect of each statement on the tables\<close>

definition tick_db :: "int \<Rightarrow> ledger_db \<Rightarrow> ledger_db" where
  "tick_db w d = d\<lparr>max_ts := max w (max_ts d), max_seq := max_seq d + 1\<rparr>"

definition halt_db :: "string \<Rightarrow> ledger_db \<Rightarrow> ledger_db" where
  "halt_db reason d = d\<lparr>is_halted := True, halt_reason := reason\<rparr>"

definition append_audit :: "hashfn \<Rightarrow> int \<Rightarrow> audit_fields \<Rightarrow> ledger_db \<Rightarrow> ledger_db" where
  "append_audit H t f d =
     (let a = audit_record t f d; h = row_hash H (audit_head d) (audit_payload a)
      in d\<lparr>audits := audits d @ [a\<lparr>au_row_hash := h\<rparr>], audit_head := h\<rparr>)"

text \<open>The tables inside a reservation's transaction: ticked, with a nonce row for the key.\<close>

definition opened_db :: "nonce_key \<Rightarrow> int \<Rightarrow> ledger_db \<Rightarrow> ledger_db" where
  "opened_db k w d = (let d1 = tick_db w d in ensure_nonce k (max_seq d1) d1)"

definition new_row :: "hashfn \<Rightarrow> reserve_args \<Rightarrow> int \<Rightarrow> ledger_db \<Rightarrow> db_row" where
  "new_row H a w d =
     (let d1 = opened_db (args_key a) w d
      in fresh_row H (spend_head d1) a (max_seq d1) (max_ts d1) (next_nonce d1 (args_key a)))"

definition commit_insert :: "hashfn \<Rightarrow> reserve_args \<Rightarrow> int \<Rightarrow> ledger_db \<Rightarrow> ledger_db" where
  "commit_insert H a w d =
     (let d1 = opened_db (args_key a) w d; r = new_row H a w d
      in bump_nonce (args_key a) (max_seq d1) (d1\<lparr>spend := spend d1 @ [r], spend_head := row_tag r\<rparr>))"

definition commit_revive :: "bool \<Rightarrow> reserve_args \<Rightarrow> int \<Rightarrow> ledger_db \<Rightarrow> ledger_db" where
  "commit_revive hint a w d =
     (let d1 = opened_db (args_key a) w d
      in bump_nonce (args_key a) (max_seq d1)
           (d1\<lparr>spend := revive_rows hint a (next_nonce d1 (args_key a)) (spend d1)\<rparr>))"

section \<open>Steps\<close>

text \<open>No row that is not dead carries this nonce.\<close>

definition nonce_free :: "nonce_key \<Rightarrow> int \<Rightarrow> ledger_db \<Rightarrow> bool" where
  "nonce_free k n d \<longleftrightarrow>
     (\<forall>r \<in> set (spend d). nonce_slot r = (fst k, snd k, n) \<longrightarrow> row_state r = Dead)"

inductive book_step :: "hashfn \<Rightarrow> nonce_key \<Rightarrow> int set \<Rightarrow> ledger_db \<Rightarrow> ledger_db \<Rightarrow> bool"
  for H :: hashfn and k :: nonce_key and B :: "int set" where
  halts: "book_step H k B d (halt_db reason d)"
| ticks: "max_ts d - CLOCK_TOLERANCE_S \<le> w \<Longrightarrow> book_step H k B d (tick_db w d)"
| audited: "book_step H k B d (append_audit H t f d)"
| inserts: "args_key a = k \<Longrightarrow> max_ts d - CLOCK_TOLERANCE_S \<le> w \<Longrightarrow>
     spend_ok (spend d @ [new_row H a w d]) \<Longrightarrow> book_step H k B d (commit_insert H a w d)"
| revives: "args_key a = k \<Longrightarrow> max_ts d - CLOCK_TOLERANCE_S \<le> w \<Longrightarrow>
     nonce_index_ok (spend (commit_revive hint a w d)) \<Longrightarrow> book_step H k B d (commit_revive hint a w d)"
| moves: "st \<noteq> Reserved \<Longrightarrow> nonce_index_ok (update_rows row st u (spend d)) \<Longrightarrow>
     book_step H k B d (d\<lparr>spend := update_rows row st u (spend d)\<rparr>)"
| attempted: "book_step H k B d (record_attempt a d)"
| observed: "book_step H k B d (d\<lparr>attempts := map (\<lambda>a. if at_tx_hash a = h
       then a\<lparr>at_receipt_status := status\<rparr> else a) (attempts d)\<rparr>)"
| returned: "nonce_free k' n d \<Longrightarrow> (k' = k \<Longrightarrow> n \<notin> B) \<Longrightarrow> book_step H k B d (return_nonce k' n d)"
| nonce_set: "k' = k \<longrightarrow> B = {} \<Longrightarrow>
     book_step H k B d (d\<lparr>nonce_alloc := (nonce_alloc d)(k' \<mapsto> (nonce, n))\<rparr>)"
| booted: "book_step H k B d (d\<lparr>boots := boots d @ [b]\<rparr>)"

inductive_cases book_stepE: "book_step H k B d d'"

section \<open>The invariant of the books\<close>

text \<open>
  Rows in the order of their sequence numbers, none from the future of the clock guard; the keys
  and the nonce index of the schema; both hash chains intact up to the stored heads.
\<close>

definition rows_ok :: "ledger_db \<Rightarrow> bool" where
  "rows_ok d \<longleftrightarrow>
     sorted_wrt (<) (map seq (spend d)) \<and> (\<forall>r \<in> set (spend d). seq r \<le> max_seq d \<and> ts r \<le> max_ts d)
     \<and> distinct (map row_key (spend d)) \<and> nonce_index_ok (spend d)"

definition chains_ok :: "hashfn \<Rightarrow> ledger_db \<Rightarrow> bool" where
  "chains_ok H d \<longleftrightarrow>
     verify_chain H spend_payload row_tag genesis (spend d) = Inr (spend_head d)
     \<and> sorted_wrt (<) (map au_seq (audits d))
     \<and> verify_chain H audit_payload au_row_hash genesis (audits d) = Inr (audit_head d)"

text \<open>
  The nonces \<open>B\<close> already handed to the network lie below the allocator, and no reservation that
  could still give its nonce back holds one of them.
\<close>

definition nonces_ok :: "nonce_key \<Rightarrow> int set \<Rightarrow> ledger_db \<Rightarrow> bool" where
  "nonces_ok k B d \<longleftrightarrow>
     (\<forall>n \<in> B. n < next_nonce d k)
     \<and> (\<forall>r \<in> set (spend d). row_state r = Reserved \<and> (chain_id r, from_addr r) = k \<longrightarrow> account_nonce r \<notin> B)"

text \<open>The part that spending rests on, which no kill disturbs, and the whole.\<close>

definition rows_wf :: "nonce_key \<Rightarrow> int set \<Rightarrow> ledger_db \<Rightarrow> bool" where
  "rows_wf k B d \<longleftrightarrow> rows_ok d \<and> nonces_ok k B d"

definition book_wf :: "hashfn \<Rightarrow> nonce_key \<Rightarrow> int set \<Rightarrow> ledger_db \<Rightarrow> bool" where
  "book_wf H k B d \<longleftrightarrow> rows_ok d \<and> chains_ok H d \<and> nonces_ok k B d"

lemma book_wf_parts: "book_wf H k B d \<longleftrightarrow> rows_wf k B d \<and> chains_ok H d"
  by (auto simp: book_wf_def rows_wf_def)

lemmas rows_wf_defs = rows_wf_def rows_ok_def nonces_ok_def

lemmas book_wf_defs = book_wf_def rows_ok_def chains_ok_def nonces_ok_def

lemma empty_wf: "book_wf H k {} empty_db"
  by (simp add: book_wf_defs empty_db_def nonce_index_ok_def)

text \<open>What a statement that only rewrites columns outside the hash leaves alone.\<close>

definition row_core :: "db_row \<Rightarrow> payload \<times> string" where
  "row_core r = (spend_payload r, row_tag r)"

lemma row_core_fields:
  assumes "row_core r = row_core r'"
  shows "seq r = seq r'" "ts r = ts r'" "row_key r = row_key r'" "amount_units r = amount_units r'"
    "chain_id r = chain_id r'" "from_addr r = from_addr r'" "channel_id r = channel_id r'"
    "escrow r = escrow r'" "receipt_id r = receipt_id r'" "depositor r = depositor r'"
    "token r = token r'" "to_addr r = to_addr r'" "calldata_keccak r = calldata_keccak r'"
    "spend_payload r = spend_payload r'" "row_tag r = row_tag r'" "deadline r = deadline r'"
  using assms by (simp_all add: row_core_def spend_payload_def row_key_def)

lemma core_apply_updates [simp]: "row_core (apply_updates st u r) = row_core r"
  by (simp add: row_core_def apply_updates_def spend_payload_def)

lemma core_revive_row [simp]: "row_core (revive_row hint a n r) = row_core r"
  by (simp add: row_core_def revive_row_def spend_payload_def)

lemma core_update_rows [simp]: "map row_core (update_rows row st u rows) = map row_core rows"
  by (simp add: update_rows_def)

lemma core_revive_rows [simp]: "map row_core (revive_rows hint a n rows) = map row_core rows"
  by (simp add: revive_rows_def)

lemma map_cong_core:
  assumes "map row_core rs = map row_core rs'" "\<And>r r'. row_core r = row_core r' \<Longrightarrow> f r = f r'"
  shows "map f rs = map f rs'"
proof -
  have len: "length rs = length rs'" using assms(1) map_eq_imp_length_eq by blast
  have "row_core (rs ! i) = row_core (rs' ! i)" if "i < length rs" for i
    using assms(1) that len by (metis nth_map)
  then have "f (rs ! i) = f (rs' ! i)" if "i < length rs" for i
    using that by (intro assms(2))
  then show ?thesis using len by (simp add: list_eq_iff_nth_eq)
qed

lemma rows_ok_core:
  assumes "rows_ok d" "map row_core (spend d') = map row_core (spend d)"
    "max_seq d \<le> max_seq d'" "max_ts d \<le> max_ts d'" "nonce_index_ok (spend d')"
  shows "rows_ok d'"
proof -
  have "map seq (spend d') = map seq (spend d)" "map ts (spend d') = map ts (spend d)"
    "map row_key (spend d') = map row_key (spend d)"
    by (rule map_cong_core [OF assms(2)], erule row_core_fields)+
  note eqs = this
  have "\<forall>x \<in> set (map seq (spend d)). x \<le> max_seq d'" "\<forall>x \<in> set (map ts (spend d)). x \<le> max_ts d'"
    using assms(1,3,4) by (fastforce simp: rows_ok_def)+
  then have "\<forall>x \<in> set (map seq (spend d')). x \<le> max_seq d'" "\<forall>x \<in> set (map ts (spend d')). x \<le> max_ts d'"
    by (simp_all only: eqs)
  then have "\<forall>r \<in> set (spend d'). seq r \<le> max_seq d' \<and> ts r \<le> max_ts d'" by simp
  moreover have "sorted_wrt (<) (map seq (spend d'))" "distinct (map row_key (spend d'))"
    using assms(1) by (simp_all only: eqs rows_ok_def)
  ultimately show ?thesis using assms(5) unfolding rows_ok_def by blast
qed

lemma spend_chain_core:
  assumes "map row_core rs = map row_core rs'"
  shows "verify_chain H spend_payload row_tag g rs = verify_chain H spend_payload row_tag g rs'"
  by (rule verify_chain_cong, rule map_cong_core [OF assms]) (simp add: row_core_def)

end
