(* ===== verification/Ledger_Inv.thy ===== *)
theory Ledger_Inv
  imports Ledger_Steps "HOL-Library.Sublist"
begin

text \<open>
  Every step keeps the invariant of the books, never edits a hashed column and never moves the
  clock guard or the sequence back; every method of \<open>Ledger\<close> is a path of steps, whatever its
  outcome.
\<close>

section \<open>The tables a reservation leaves\<close>

lemma next_nonce_ensure [simp]: "next_nonce (ensure_nonce k n d) k' = next_nonce d k'"
  by (auto simp: next_nonce_def ensure_nonce_def split: option.splits)

lemma ensure_nonce_frame [simp]:
  "spend (ensure_nonce k n d) = spend d" "attempts (ensure_nonce k n d) = attempts d"
  "audits (ensure_nonce k n d) = audits d" "boots (ensure_nonce k n d) = boots d"
  "max_ts (ensure_nonce k n d) = max_ts d" "max_seq (ensure_nonce k n d) = max_seq d"
  "is_halted (ensure_nonce k n d) = is_halted d" "halt_reason (ensure_nonce k n d) = halt_reason d"
  "spend_head (ensure_nonce k n d) = spend_head d" "audit_head (ensure_nonce k n d) = audit_head d"
  by (simp_all add: ensure_nonce_def split: option.splits)

lemma tick_db_frame [simp]:
  "spend (tick_db w d) = spend d" "attempts (tick_db w d) = attempts d"
  "audits (tick_db w d) = audits d" "boots (tick_db w d) = boots d"
  "max_ts (tick_db w d) = max w (max_ts d)" "max_seq (tick_db w d) = max_seq d + 1"
  "is_halted (tick_db w d) = is_halted d" "halt_reason (tick_db w d) = halt_reason d"
  "spend_head (tick_db w d) = spend_head d" "audit_head (tick_db w d) = audit_head d"
  "nonce_alloc (tick_db w d) = nonce_alloc d" "next_nonce (tick_db w d) k = next_nonce d k"
  by (simp_all add: tick_db_def next_nonce_def)

lemma opened_db_frame [simp]:
  "spend (opened_db k w d) = spend d" "attempts (opened_db k w d) = attempts d"
  "audits (opened_db k w d) = audits d" "boots (opened_db k w d) = boots d"
  "max_ts (opened_db k w d) = max w (max_ts d)" "max_seq (opened_db k w d) = max_seq d + 1"
  "is_halted (opened_db k w d) = is_halted d" "halt_reason (opened_db k w d) = halt_reason d"
  "spend_head (opened_db k w d) = spend_head d" "audit_head (opened_db k w d) = audit_head d"
  "next_nonce (opened_db k w d) k' = next_nonce d k'"
  by (simp_all add: opened_db_def Let_def)

lemma bump_nonce_frame [simp]:
  "spend (bump_nonce k n d) = spend d" "attempts (bump_nonce k n d) = attempts d"
  "audits (bump_nonce k n d) = audits d" "boots (bump_nonce k n d) = boots d"
  "max_ts (bump_nonce k n d) = max_ts d" "max_seq (bump_nonce k n d) = max_seq d"
  "is_halted (bump_nonce k n d) = is_halted d" "halt_reason (bump_nonce k n d) = halt_reason d"
  "spend_head (bump_nonce k n d) = spend_head d" "audit_head (bump_nonce k n d) = audit_head d"
  "next_nonce (bump_nonce k n d) k' = (if k' = k then next_nonce d k + 1 else next_nonce d k')"
  by (simp_all add: bump_nonce_def next_nonce_def)

lemma return_nonce_frame [simp]:
  "spend (return_nonce k n d) = spend d" "attempts (return_nonce k n d) = attempts d"
  "audits (return_nonce k n d) = audits d" "boots (return_nonce k n d) = boots d"
  "max_ts (return_nonce k n d) = max_ts d" "max_seq (return_nonce k n d) = max_seq d"
  "is_halted (return_nonce k n d) = is_halted d" "halt_reason (return_nonce k n d) = halt_reason d"
  "spend_head (return_nonce k n d) = spend_head d" "audit_head (return_nonce k n d) = audit_head d"
  by (simp_all add: return_nonce_def split: option.splits)

lemma next_nonce_return:
  "next_nonce (return_nonce k n d) k' =
     (if k' = k \<and> nonce_alloc d k \<noteq> None \<and> next_nonce d k = n + 1 then n else next_nonce d k')"
  by (auto simp: return_nonce_def next_nonce_def split: option.splits)

lemma record_attempt_frame [simp]:
  "spend (record_attempt a d) = spend d" "audits (record_attempt a d) = audits d"
  "max_ts (record_attempt a d) = max_ts d" "max_seq (record_attempt a d) = max_seq d"
  "spend_head (record_attempt a d) = spend_head d" "audit_head (record_attempt a d) = audit_head d"
  "nonce_alloc (record_attempt a d) = nonce_alloc d"
  by (simp_all add: record_attempt_def)

lemma append_audit_frame [simp]:
  "spend (append_audit H t f d) = spend d" "attempts (append_audit H t f d) = attempts d"
  "max_ts (append_audit H t f d) = max_ts d" "max_seq (append_audit H t f d) = max_seq d"
  "spend_head (append_audit H t f d) = spend_head d" "nonce_alloc (append_audit H t f d) = nonce_alloc d"
  "is_halted (append_audit H t f d) = is_halted d" "halt_reason (append_audit H t f d) = halt_reason d"
  by (simp_all add: append_audit_def Let_def)

lemma new_row_fields [simp]:
  "seq (new_row H a w d) = max_seq d + 1" "ts (new_row H a w d) = max w (max_ts d)"
  "row_state (new_row H a w d) = Reserved" "account_nonce (new_row H a w d) = next_nonce d (args_key a)"
  "(chain_id (new_row H a w d), from_addr (new_row H a w d)) = args_key a"
  "amount_units (new_row H a w d) = r_amount a" "chain_id (new_row H a w d) = r_chain_id a"
  "escrow (new_row H a w d) = r_escrow a" "receipt_id (new_row H a w d) = r_receipt_id a"
  "channel_id (new_row H a w d) = r_channel_id a" "token (new_row H a w d) = r_token a"
  "max_fee_wei (new_row H a w d) = r_max_fee_wei a" "gas_limit (new_row H a w d) = r_gas_limit a"
  "fee_wei_spent (new_row H a w d) = 0" "from_addr (new_row H a w d) = r_from_addr a"
  by (simp_all add: new_row_def fresh_row_def args_key_def Let_def)

lemma new_row_tag:
  "row_tag (new_row H a w d) = row_hash H (spend_head d) (spend_payload (new_row H a w d))"
  by (simp add: new_row_def fresh_row_def Let_def spend_payload_def)

lemma commit_insert_frame [simp]:
  "spend (commit_insert H a w d) = spend d @ [new_row H a w d]"
  "spend_head (commit_insert H a w d) = row_tag (new_row H a w d)"
  "audits (commit_insert H a w d) = audits d" "audit_head (commit_insert H a w d) = audit_head d"
  "attempts (commit_insert H a w d) = attempts d"
  "max_ts (commit_insert H a w d) = max w (max_ts d)" "max_seq (commit_insert H a w d) = max_seq d + 1"
  "is_halted (commit_insert H a w d) = is_halted d" "halt_reason (commit_insert H a w d) = halt_reason d"
  by (simp_all add: commit_insert_def Let_def)

lemma next_nonce_spend [simp]:
  "next_nonce (d\<lparr>spend := rs\<rparr>) k = next_nonce d k" "next_nonce (d\<lparr>spend_head := h\<rparr>) k = next_nonce d k"
  "next_nonce (d\<lparr>attempts := ats\<rparr>) k = next_nonce d k" "next_nonce (d\<lparr>boots := bs\<rparr>) k = next_nonce d k"
  "next_nonce (halt_db reason d) k = next_nonce d k" "next_nonce (append_audit H t f d) k = next_nonce d k"
  "next_nonce (record_attempt a d) k = next_nonce d k"
  by (simp_all add: next_nonce_def halt_db_def)

lemma next_nonce_commit_insert [simp]:
  "next_nonce (commit_insert H a w d) k =
     (if k = args_key a then next_nonce d k + 1 else next_nonce d k)"
  by (simp add: commit_insert_def Let_def)

lemma commit_revive_frame [simp]:
  "spend (commit_revive hint a w d) = revive_rows hint a (next_nonce d (args_key a)) (spend d)"
  "spend_head (commit_revive hint a w d) = spend_head d"
  "audits (commit_revive hint a w d) = audits d" "audit_head (commit_revive hint a w d) = audit_head d"
  "attempts (commit_revive hint a w d) = attempts d"
  "max_ts (commit_revive hint a w d) = max w (max_ts d)" "max_seq (commit_revive hint a w d) = max_seq d + 1"
  "is_halted (commit_revive hint a w d) = is_halted d" "halt_reason (commit_revive hint a w d) = halt_reason d"
  "next_nonce (commit_revive hint a w d) k =
     (if k = args_key a then next_nonce d k + 1 else next_nonce d k)"
  by (simp_all add: commit_revive_def Let_def)

section \<open>Every step keeps the invariant\<close>

lemma chains_ok_core:
  assumes "chains_ok H d" "map row_core (spend d') = map row_core (spend d)"
    "spend_head d' = spend_head d" "audits d' = audits d" "audit_head d' = audit_head d"
  shows "chains_ok H d'"
  using assms spend_chain_core [OF assms(2)] by (simp add: chains_ok_def)

lemma rowid_above: "a \<in> set rows \<Longrightarrow> au_seq a < next_rowid rows"
proof -
  have "x \<in> set xs \<Longrightarrow> x \<le> foldr max xs (0::int)" for x xs
    by (induction xs) auto
  then show "a \<in> set rows \<Longrightarrow> au_seq a < next_rowid rows"
    by (fastforce simp: next_rowid_def)
qed

lemma audit_payload_tag [simp]: "audit_payload (a\<lparr>au_row_hash := h\<rparr>) = audit_payload a"
  by (simp add: audit_payload_def)

lemma append_audit_chain:
  assumes "chains_ok H d"
  shows "chains_ok H (append_audit H t f d)"
proof -
  have "au_seq (audit_record t f d) = next_rowid (audits d)" by (simp add: audit_record_def)
  then show ?thesis using assms rowid_above [of _ "audits d"]
    by (simp add: chains_ok_def append_audit_def Let_def sorted_wrt_append)
qed

lemma nonces_ok_same:
  assumes "nonces_ok k B d" "spend d' = spend d" "next_nonce d k \<le> next_nonce d' k"
  shows "nonces_ok k B d'"
  using assms by (fastforce simp: nonces_ok_def)

lemma rows_ok_same:
  assumes "rows_ok d" "spend d' = spend d" "max_seq d \<le> max_seq d'" "max_ts d \<le> max_ts d'"
  shows "rows_ok d'"
  using assms by (fastforce simp: rows_ok_def)

lemma chains_ok_same:
  assumes "chains_ok H d" "spend d' = spend d" "spend_head d' = spend_head d" "audits d' = audits d"
    "audit_head d' = audit_head d"
  shows "chains_ok H d'"
  using assms by (simp add: chains_ok_def)

lemma rows_wf_same:
  assumes "rows_wf k B d" "spend d' = spend d" "max_seq d \<le> max_seq d'" "max_ts d \<le> max_ts d'"
    "next_nonce d k \<le> next_nonce d' k"
  shows "rows_wf k B d'"
  using assms rows_ok_same nonces_ok_same unfolding rows_wf_def by metis

lemma rows_wf_insert:
  assumes "rows_wf k B d" "spend_ok (spend d @ [new_row H a w d])"
  shows "rows_wf k B (commit_insert H a w d)"
proof -
  let ?r = "new_row H a w d" and ?d = "commit_insert H a w d"
  have wf: "rows_ok d" "nonces_ok k B d" using assms(1) by (simp_all add: rows_wf_def)
  have le: "\<forall>x \<in> set (spend d). seq x \<le> max_seq d \<and> ts x \<le> max_ts d"
    using wf(1) by (simp add: rows_ok_def)
  have sorted: "sorted_wrt (<) (map seq (spend d @ [?r]))"
    using wf(1) le by (fastforce simp: rows_ok_def sorted_wrt_append)
  have bounds: "\<forall>x \<in> set (spend d @ [?r]). seq x \<le> max_seq d + 1 \<and> ts x \<le> max w (max_ts d)"
    using le by fastforce
  have "rows_ok ?d"
    using sorted bounds assms(2) unfolding rows_ok_def spend_ok_def commit_insert_frame by blast
  moreover have "nonces_ok k B ?d"
  proof -
    have "n < next_nonce ?d k" if "n \<in> B" for n
      using wf(2) that by (fastforce simp: nonces_ok_def)
    moreover have "account_nonce r \<notin> B"
      if "r \<in> set (spend ?d)" "row_state r = Reserved" "(chain_id r, from_addr r) = k" for r
    proof (cases "r = ?r")
      case True
      then have "account_nonce r = next_nonce d k" using that(3) by (auto simp: args_key_def)
      then show ?thesis using wf(2) by (auto simp: nonces_ok_def)
    next
      case False
      then show ?thesis using that wf(2) by (auto simp: nonces_ok_def)
    qed
    ultimately show ?thesis by (simp add: nonces_ok_def)
  qed
  ultimately show ?thesis by (simp add: rows_wf_def)
qed

lemma rows_wf_revive:
  assumes "rows_wf k B d" "nonce_index_ok (spend (commit_revive hint a w d))" "args_key a = k"
  shows "rows_wf k B (commit_revive hint a w d)"
proof -
  let ?d = "commit_revive hint a w d"
  have wf: "rows_ok d" "nonces_ok k B d" using assms(1) by (simp_all add: rows_wf_def)
  have core: "map row_core (spend ?d) = map row_core (spend d)" by simp
  have "rows_ok ?d" by (rule rows_ok_core [OF wf(1) core _ _ assms(2)]) simp_all
  moreover have "nonces_ok k B ?d"
  proof -
    have less: "\<forall>n \<in> B. n < next_nonce d k" using wf(2) by (simp add: nonces_ok_def)
    have "account_nonce r \<notin> B"
      if "r \<in> set (spend ?d)" "row_state r = Reserved" "(chain_id r, from_addr r) = k" for r
    proof -
      note stored = that(1)
      obtain r0 where r0: "r0 \<in> set (spend d)" "r = (if revivable a r0 then revive_row hint a (next_nonce d (args_key a)) r0 else r0)"
        using stored unfolding commit_revive_frame revive_rows_def set_map by (elim imageE)
      show ?thesis
      proof (cases "revivable a r0")
        case False
        then show ?thesis using r0 that wf(2) by (auto simp: nonces_ok_def)
      next
        case True
        then have "account_nonce r = next_nonce d (args_key a)" using r0 by (simp add: revive_row_def)
        then show ?thesis using less assms(3) by force
      qed
    qed
    then show ?thesis using less by (fastforce simp: nonces_ok_def)
  qed
  ultimately show ?thesis by (simp add: rows_wf_def)
qed

lemma rows_wf_moves:
  assumes "rows_wf k B d" "st \<noteq> Reserved" "nonce_index_ok (update_rows row st u (spend d))"
  shows "rows_wf k B (d\<lparr>spend := update_rows row st u (spend d)\<rparr>)"
proof -
  let ?d = "d\<lparr>spend := update_rows row st u (spend d)\<rparr>"
  have wf: "rows_ok d" "nonces_ok k B d" using assms(1) by (simp_all add: rows_wf_def)
  have core: "map row_core (spend ?d) = map row_core (spend d)" by simp
  have "rows_ok ?d" by (rule rows_ok_core [OF wf(1) core]) (simp_all add: assms(3))
  moreover have "nonces_ok k B ?d"
    using wf(2) assms(2) by (auto simp: nonces_ok_def update_rows_def apply_updates_def next_nonce_def)
  ultimately show ?thesis by (simp add: rows_wf_def)
qed

lemma rows_wf_returned:
  assumes "rows_wf k B d" "k' = k \<Longrightarrow> n \<notin> B"
  shows "rows_wf k B (return_nonce k' n d)"
proof -
  let ?d = "return_nonce k' n d"
  have wf: "rows_ok d" "nonces_ok k B d" using assms(1) by (simp_all add: rows_wf_def)
  have "m < next_nonce ?d k" if "m \<in> B" for m
  proof -
    have "m < next_nonce d k" using that wf(2) by (simp add: nonces_ok_def)
    moreover have "m \<noteq> n \<or> k \<noteq> k'" using that assms(2) by auto
    ultimately show ?thesis by (auto simp: next_nonce_return)
  qed
  then have "nonces_ok k B ?d" using wf(2) by (simp add: nonces_ok_def)
  moreover have "rows_ok ?d" by (rule rows_ok_same [OF wf(1)]) simp_all
  ultimately show ?thesis by (simp add: rows_wf_def)
qed

lemma rows_wf_nonce_set:
  assumes "rows_wf k B d" "k' = k \<longrightarrow> B = {}"
  shows "rows_wf k B (d\<lparr>nonce_alloc := (nonce_alloc d)(k' \<mapsto> v)\<rparr>)"
proof -
  let ?d = "d\<lparr>nonce_alloc := (nonce_alloc d)(k' \<mapsto> v)\<rparr>"
  have wf: "rows_ok d" "nonces_ok k B d" using assms(1) by (simp_all add: rows_wf_def)
  have "nonces_ok k B ?d" using wf(2) assms(2) by (auto simp: nonces_ok_def next_nonce_def)
  moreover have "rows_ok ?d" by (rule rows_ok_same [OF wf(1)]) simp_all
  ultimately show ?thesis by (simp add: rows_wf_def)
qed

text \<open>The rows and the nonces rest on nothing the hash chains say, and the chains on nothing else.\<close>

theorem step_keeps_rows: "book_step H k B d d' \<Longrightarrow> rows_wf k B d \<Longrightarrow> rows_wf k B d'"
proof (induction rule: book_step.induct)
  case (halts d reason)
  then show ?case by (rule rows_wf_same) (simp_all add: halt_db_def next_nonce_def)
next
  case (ticks d w)
  then show ?case by (intro rows_wf_same [OF ticks(2)]) simp_all
next
  case (audited d t f)
  then show ?case by (rule rows_wf_same) simp_all
next
  case (inserts a d w)
  then show ?case by (intro rows_wf_insert)
next
  case (revives a d w hint)
  then show ?case by (intro rows_wf_revive)
next
  case (moves st row u d)
  then show ?case by (intro rows_wf_moves)
next
  case (attempted d a)
  then show ?case by (rule rows_wf_same) simp_all
next
  case (observed d h status)
  then show ?case by (rule rows_wf_same) (simp_all add: next_nonce_def)
next
  case (returned k' n d)
  then show ?case by (intro rows_wf_returned)
next
  case (nonce_set k' d nonce n)
  then show ?case by (intro rows_wf_nonce_set)
next
  case (booted d b)
  then show ?case by (rule rows_wf_same) (simp_all add: next_nonce_def)
qed

theorem step_keeps_chains: "book_step H k B d d' \<Longrightarrow> chains_ok H d \<Longrightarrow> chains_ok H d'"
proof (induction rule: book_step.induct)
  case (audited d t f)
  then show ?case by (rule append_audit_chain)
next
  case (inserts a d w)
  then show ?case by (simp add: chains_ok_def new_row_tag)
next
  case (revives a d w hint)
  have core: "map row_core (spend (commit_revive hint a w d)) = map row_core (spend d)" by simp
  show ?case by (rule chains_ok_core [OF revives(4) core]) simp_all
next
  case (moves st row u d)
  have core: "map row_core (update_rows row st u (spend d)) = map row_core (spend d)" by simp
  show ?case by (rule chains_ok_core [OF moves(3)]) (simp_all add: core)
qed (erule chains_ok_same; simp add: halt_db_def)+

lemma step_keeps_wf: "book_step H k B d d' \<Longrightarrow> book_wf H k B d \<Longrightarrow> book_wf H k B d'"
  unfolding book_wf_parts using step_keeps_rows step_keeps_chains by blast

lemma path_keeps_wf: "(book_step H k B)\<^sup>*\<^sup>* d d' \<Longrightarrow> book_wf H k B d \<Longrightarrow> book_wf H k B d'"
  by (induction rule: rtranclp_induct) (auto intro: step_keeps_wf)

lemma path_keeps_rows: "(book_step H k B)\<^sup>*\<^sup>* d d' \<Longrightarrow> rows_wf k B d \<Longrightarrow> rows_wf k B d'"
  by (induction rule: rtranclp_induct) (auto intro: step_keeps_rows)

section \<open>Every step only appends\<close>

text \<open>
  Hashed columns of stored rows, and stored audit rows, are never edited or removed; the guard's
  clock and the sequence never go back.
\<close>

definition append_only :: "ledger_db \<Rightarrow> ledger_db \<Rightarrow> bool" where
  "append_only d d' \<longleftrightarrow>
     prefix (map row_core (spend d)) (map row_core (spend d')) \<and> prefix (audits d) (audits d')
     \<and> max_ts d \<le> max_ts d' \<and> max_seq d \<le> max_seq d'"

lemma append_only_refl: "append_only d d"
  by (simp add: append_only_def)

lemma append_only_trans: "append_only d d' \<Longrightarrow> append_only d' d'' \<Longrightarrow> append_only d d''"
  unfolding append_only_def by (meson order_trans prefix_order.trans)

lemma step_appends: "book_step H k B d d' \<Longrightarrow> append_only d d'"
  by (induction rule: book_step.induct)
    (simp_all add: append_only_def halt_db_def append_audit_def Let_def)

lemma path_appends: "(book_step H k B)\<^sup>*\<^sup>* d d' \<Longrightarrow> append_only d d'"
  by (induction rule: rtranclp_induct) (auto intro: append_only_refl append_only_trans step_appends)

end
