(* ===== verification/Ledger_Methods.thy ===== *)
theory Ledger_Methods
  imports Ledger_Inv
begin

text \<open>
  The methods of \<open>Ledger\<close> as paths of \<open>book_step\<close>: their runs, statement by statement, and the
  relation \<open>evolves\<close> every one of them establishes, for all outcomes.
\<close>

section \<open>Runs of the statements\<close>

lemma run_get_db [simp]: "run_state get_db s = (Inr (db s), s)"
  by (simp add: get_db_def)

lemma run_upd_db [simp]: "run_state (upd_db f) s = (Inr (), s\<lparr>db := f (db s)\<rparr>)"
  by (simp add: upd_db_def)

definition now_at :: "'e ledger_env_scheme \<Rightarrow> 'z books_scheme \<Rightarrow> int" where
  "now_at E s = py_trunc (clock E (clock_reads s))"

definition read_on :: "'z books_scheme \<Rightarrow> 'z books_scheme" where
  "read_on s = s\<lparr>clock_reads := Suc (clock_reads s)\<rparr>"

lemma read_on_frame [simp]: "db (read_on s) = db s" "books.more (read_on s) = books.more s"
  by (simp_all add: read_on_def)

lemma run_wall [simp]: "run_state (wall E) s = (Inr (now_at E s), read_on s)"
  by (simp add: wall_def read_clock_def now_at_def read_on_def)

definition regressed :: "'e ledger_env_scheme \<Rightarrow> 'z books_scheme \<Rightarrow> bool" where
  "regressed E s \<longleftrightarrow> now_at E s < max_ts (db s) - CLOCK_TOLERANCE_S"

definition halted_on :: "'e ledger_env_scheme \<Rightarrow> 'z books_scheme \<Rightarrow> 'z books_scheme" where
  "halted_on E s = (read_on s)\<lparr>db := halt_db (regression_reason (now_at E s) (max_ts (db s))) (db s)\<rparr>"

lemma run_assert_clock_sane [simp]:
  "run_state (assert_clock_sane E) s =
     (if regressed E s then (Inl ClockRegression, halted_on E s) else (Inr (), read_on s))"
  by (simp add: assert_clock_sane_def halt_def halt_db_def regressed_def halted_on_def)

lemma run_tick [simp]:
  "run_state (tick E) s =
     (if regressed E s then (Inl ClockRegression, halted_on E s)
      else (Inr (max_seq (db s) + 1, max (now_at E s) (max_ts (db s))),
            (read_on s)\<lparr>db := tick_db (now_at E s) (db s)\<rparr>))"
  by (simp add: tick_def halt_def halt_db_def regressed_def halted_on_def tick_db_def Let_def)

lemma run_transaction [simp]:
  "run_state (transaction m) s =
     (case run_state m s of (Inl e, s') \<Rightarrow> (Inl e, s'\<lparr>db := db s\<rparr>) | (Inr x, s') \<Rightarrow> (Inr x, s'))"
  by (simp add: transaction_def split: prod.splits sum.splits)

lemma run_as_unavailable [simp]:
  "run_state (as_unavailable m) s =
     (case run_state m s of
        (Inl e, s') \<Rightarrow> (Inl (if e = SqliteError then LedgerUnavailable else e), s')
      | (Inr x, s') \<Rightarrow> (Inr x, s'))"
  by (simp add: as_unavailable_def split: prod.splits sum.splits)

lemma run_audit:
  "run_state (audit E f) s =
     (if regressed E s then (Inl ClockRegression, halted_on E s)
      else let t = max (now_at E s) (max_ts (db s)); s1 = (read_on s)\<lparr>db := tick_db (now_at E s) (db s)\<rparr>;
               d = append_audit (keccak E) t f (db s1)
           in if \<not> (sql_int t \<and> sql_int (f_http_status f) \<and> sql_opt (f_chain_id f) \<and> sql_opt (f_amount_units f))
              then (Inl OverflowError, s1)
              else run_state (write_witness E ''audit'' (audit_head d)) (s1\<lparr>db := d\<rparr>))"
  by (simp add: audit_def Let_def append_audit_def)

lemma run_open_attempt:
  "run_state (open_attempt E k) s =
     (if regressed E s then (Inl ClockRegression, halted_on E s)
      else (Inr (max_seq (db s) + 1, max (now_at E s) (max_ts (db s)), next_nonce (db s) k),
            (read_on s)\<lparr>db := opened_db k (now_at E s) (db s)\<rparr>))"
  by (simp add: open_attempt_def opened_db_def Let_def)

section \<open>Paths of the books\<close>

definition evolves :: "hashfn \<Rightarrow> nonce_key \<Rightarrow> int set \<Rightarrow> 'z books_scheme \<Rightarrow> 'z books_scheme \<Rightarrow> bool" where
  "evolves H k B s t \<longleftrightarrow> (rows_wf k B (db s) \<longrightarrow> (book_step H k B)\<^sup>*\<^sup>* (db s) (db t))"

interpretation evolves: effect_preorder "evolves H k B"
  for H :: hashfn and k :: nonce_key and B :: "int set"
proof
  show "evolves H k B s s" for s :: "'a books_scheme" by (simp add: evolves_def)
next
  show "evolves H k B s u" if "evolves H k B s t" "evolves H k B t u" for s t u :: "'a books_scheme"
    using that path_keeps_rows unfolding evolves_def by (metis rtranclp_trans)
qed

lemma evolves_step: "book_step H k B (db s) (db t) \<Longrightarrow> evolves H k B s t"
  by (simp add: evolves_def r_into_rtranclp)

lemma evolves_same: "db t = db s \<Longrightarrow> evolves H k B s t"
  by (simp add: evolves_def)

lemma evolves_wf: "evolves H k B s t \<Longrightarrow> book_wf H k B (db s) \<Longrightarrow> book_wf H k B (db t)"
  unfolding evolves_def book_wf_parts using path_keeps_wf [unfolded book_wf_parts] by blast

lemma evolves_rows: "evolves H k B s t \<Longrightarrow> rows_wf k B (db s) \<Longrightarrow> rows_wf k B (db t)"
  unfolding evolves_def using path_keeps_rows by blast

lemma io_relI_at:
  "(\<And>s r s'. run_state m s = (r, s') \<Longrightarrow> R s s') \<Longrightarrow> state_io_rel R m"
  by (rule state_io_relI) blast

lemma io_evolves_same:
  assumes "state_io_rel (same db) m"
  shows "state_io_rel (evolves H k B) m"
  using assms by (auto simp: state_io_rel_def same_def intro: evolves_same)

lemma io_witness: "state_io_rel (same db) (write_witness E name h)"
  unfolding write_witness_def
  by (intro io_intros same.io_writeE) (simp_all add: same_def wall_def read_clock_def state_io_rel_def)

lemma witness_db: "run_state (write_witness E name h) s = (r, s') \<Longrightarrow> db s' = db s"
  using state_io_rel_same [OF io_witness] .

lemma evolves_halted: "evolves H k B s (halted_on E s)"
  by (rule evolves_step) (simp add: halted_on_def book_step.halts)

lemma evolves_ticked:
  "\<not> regressed E s \<Longrightarrow> evolves H k B s ((read_on s)\<lparr>db := tick_db (now_at E s) (db s)\<rparr>)"
  by (rule evolves_step) (simp add: regressed_def book_step.ticks)

lemma io_wall: "state_io_rel (evolves H k B) (wall E)"
  by (rule io_evolves_same) (auto simp: state_io_rel_def same_def)

lemma io_get_db: "state_io_rel (evolves H k B) get_db"
  by (rule io_evolves_same) (auto simp: state_io_rel_def same_def)

lemma io_step: "(\<And>d. book_step H k B d (f d)) \<Longrightarrow> state_io_rel (evolves H k B) (upd_db f)"
  by (rule io_relI_at) (auto intro: evolves_step)

lemma io_assert_clock_sane: "state_io_rel (evolves H k B) (assert_clock_sane E)"
  by (rule io_relI_at) (auto intro: evolves_halted evolves_same split: if_splits)

lemma io_tick: "state_io_rel (evolves H k B) (tick E)"
  by (rule io_relI_at) (auto intro: evolves_halted evolves_ticked split: if_splits)

lemma io_audit: "state_io_rel (evolves (keccak E) k B) (audit E f)"
proof (rule io_relI_at)
  fix s r s'
  assume run: "run_state (audit E f) s = (r, s')"
  let ?s1 = "(read_on s)\<lparr>db := tick_db (now_at E s) (db s)\<rparr>"
  let ?d = "append_audit (keccak E) (max (now_at E s) (max_ts (db s))) f (db ?s1)"
  show "evolves (keccak E) k B s s'"
  proof (cases "regressed E s")
    case True
    then show ?thesis using run by (auto simp: run_audit intro: evolves_halted)
  next
    case False
    have tick: "evolves (keccak E) k B s ?s1" using False by (rule evolves_ticked)
    have "s' = ?s1 \<or> db s' = ?d"
      using run False by (auto simp: run_audit Let_def split: if_splits dest!: witness_db)
    moreover have "evolves (keccak E) k B ?s1 s'" if "db s' = ?d"
      by (rule evolves_step) (unfold that, rule book_step.audited)
    ultimately have "evolves (keccak E) k B ?s1 s'" by (auto intro: evolves_same)
    with tick show ?thesis by (rule evolves.effect_trans)
  qed
qed

lemmas io_statements = io_get_db io_wall io_assert_clock_sane io_tick io_audit

section \<open>The reservation transactions\<close>

lemma run_revive_stmt:
  "run_state (revive_stmt hint a nonce) s =
     (let rows = revive_rows hint a nonce (spend (db s)) in
      if \<not> revive_ints_ok a nonce then (Inl OverflowError, s)
      else if \<not> nonce_index_ok rows then (Inl SqliteError, s)
      else if length (filter (revivable a) (spend (db s))) \<noteq> 1 then (Inl LedgerUnavailable, s)
      else (Inr (), s\<lparr>db := (db s)\<lparr>spend := rows\<rparr>\<rparr>))"
  by (simp add: revive_stmt_def Let_def)

lemma run_insert_stmt:
  "run_state (insert_stmt H ints guard a n t nonce) s =
     (let r = fresh_row H (spend_head (db s)) a n t nonce in
      if \<not> (ints \<and> sql_int n \<and> sql_int t) then (Inl OverflowError, s)
      else if \<not> guard then (Inl (CapBreach ''cap_race''), s)
      else if \<not> spend_ok (spend (db s) @ [r]) then (Inl SqliteError, s)
      else (Inr (), s\<lparr>db := (db s)\<lparr>spend := spend (db s) @ [r], spend_head := row_tag r\<rparr>\<rparr>))"
  by (simp add: insert_stmt_def Let_def)

text \<open>What \<open>BEGIN ... COMMIT\<close> of a revival does.\<close>

definition revive_tx :: "'e ledger_env_scheme \<Rightarrow> bool \<Rightarrow> reserve_args \<Rightarrow> ('z books_scheme, unit) py" where
  "revive_tx E hint a =
     transaction (bindE (open_attempt E (args_key a)) (\<lambda>(n, t, nonce).
       thenE (revive_stmt hint a nonce) (upd_db (bump_nonce (args_key a) n))))"

definition revive_fault :: "bool \<Rightarrow> reserve_args \<Rightarrow> ledger_db \<Rightarrow> exn option" where
  "revive_fault hint a d =
     (let nonce = next_nonce d (args_key a) in
      if \<not> revive_ints_ok a nonce then Some OverflowError
      else if \<not> nonce_index_ok (revive_rows hint a nonce (spend d)) then Some SqliteError
      else if length (filter (revivable a) (spend d)) \<noteq> 1 then Some LedgerUnavailable
      else None)"

lemma run_revive_tx:
  "run_state (revive_tx E hint a) s =
     (if regressed E s then (Inl ClockRegression, read_on s)
      else case revive_fault hint a (db s) of
          Some e \<Rightarrow> (Inl e, read_on s)
        | None \<Rightarrow> (Inr (), (read_on s)\<lparr>db := commit_revive hint a (now_at E s) (db s)\<rparr>))"
  by (auto simp: revive_tx_def run_open_attempt run_revive_stmt revive_fault_def commit_revive_def
      Let_def halted_on_def read_on_def)

definition insert_tx :: "'e ledger_env_scheme \<Rightarrow> (int \<Rightarrow> bool) \<Rightarrow> (ledger_db \<Rightarrow> bool) \<Rightarrow> reserve_args \<Rightarrow>
    ('z books_scheme, unit) py" where
  "insert_tx E ints guard a =
     transaction (bindE (open_attempt E (args_key a)) (\<lambda>(n, t, nonce).
       bindE get_db (\<lambda>d.
         thenE (insert_stmt (keccak E) (ints nonce) (guard d) a n t nonce)
           (upd_db (bump_nonce (args_key a) n)))))"

definition insert_fault :: "hashfn \<Rightarrow> (int \<Rightarrow> bool) \<Rightarrow> (ledger_db \<Rightarrow> bool) \<Rightarrow> reserve_args \<Rightarrow> int \<Rightarrow>
    ledger_db \<Rightarrow> exn option" where
  "insert_fault H ints guard a w d =
     (if \<not> (ints (next_nonce d (args_key a)) \<and> sql_int (max_seq d + 1) \<and> sql_int (max w (max_ts d)))
        then Some OverflowError
      else if \<not> guard (opened_db (args_key a) w d) then Some (CapBreach ''cap_race'')
      else if \<not> spend_ok (spend d @ [new_row H a w d]) then Some SqliteError
      else None)"

lemma run_insert_tx:
  "run_state (insert_tx E ints guard a) s =
     (if regressed E s then (Inl ClockRegression, read_on s)
      else case insert_fault (keccak E) ints guard a (now_at E s) (db s) of
          Some e \<Rightarrow> (Inl e, read_on s)
        | None \<Rightarrow> (Inr (), (read_on s)\<lparr>db := commit_insert (keccak E) a (now_at E s) (db s)\<rparr>))"
  by (auto simp: insert_tx_def run_open_attempt run_insert_stmt insert_fault_def commit_insert_def
      new_row_def Let_def halted_on_def read_on_def)

lemma io_revive_tx:
  assumes "args_key a = k"
  shows "state_io_rel (evolves H k B) (revive_tx E hint a)"
proof (rule io_relI_at)
  fix s r s'
  assume run: "run_state (revive_tx E hint a) s = (r, s')"
  show "evolves H k B s s'"
  proof (cases "regressed E s \<or> revive_fault hint a (db s) \<noteq> None")
    case True
    then have "s' = read_on s" using run by (auto simp: run_revive_tx split: if_splits)
    then show ?thesis by (simp add: evolves_same)
  next
    case False
    then have "db s' = commit_revive hint a (now_at E s) (db s)" using run by (auto simp: run_revive_tx)
    moreover have "book_step H k B (db s) (commit_revive hint a (now_at E s) (db s))"
      using False assms
      by (intro book_step.revives) (auto simp: regressed_def revive_fault_def Let_def split: if_splits)
    ultimately show ?thesis by (simp add: evolves_step)
  qed
qed

lemma io_insert_tx:
  assumes "args_key a = k"
  shows "state_io_rel (evolves (keccak E) k B) (insert_tx E ints guard a)"
proof (rule io_relI_at)
  fix s r s'
  assume run: "run_state (insert_tx E ints guard a) s = (r, s')"
  show "evolves (keccak E) k B s s'"
  proof (cases "regressed E s \<or> insert_fault (keccak E) ints guard a (now_at E s) (db s) \<noteq> None")
    case True
    then have "s' = read_on s" using run by (auto simp: run_insert_tx split: if_splits)
    then show ?thesis by (simp add: evolves_same)
  next
    case False
    then have "db s' = commit_insert (keccak E) a (now_at E s) (db s)"
      using run by (auto simp: run_insert_tx)
    moreover have "book_step (keccak E) k B (db s) (commit_insert (keccak E) a (now_at E s) (db s))"
      using False assms
      by (intro book_step.inserts) (auto simp: regressed_def insert_fault_def split: if_splits)
    ultimately show ?thesis by (simp add: evolves_step)
  qed
qed

lemma reserve_revive_tx:
  "reserve_revive E a = as_unavailable (thenE (revive_tx E True a) (bindE (fetch_row a) (\<lambda>row.
     thenE (audit E (transition_audit a ''revived after a released attempt'')) (ok row))))"
  by (simp add: reserve_revive_def revive_tx_def)

lemma reserve_insert_tx:
  "reserve_insert E c a now =
     thenE (as_unavailable (insert_tx E (\<lambda>nonce. insert_ints_ok c a nonce now)
              (\<lambda>d. insert_guard d c a now) a)) (fetch_row a)"
  by (simp add: reserve_insert_def insert_tx_def)

lemma gas_attempt_tx:
  "gas_attempt E a limit now revive =
     (if revive then revive_tx E False a
      else insert_tx E (\<lambda>nonce. gas_ints_ok a nonce limit now) (\<lambda>d. gas_guard d a limit now) a)"
  by (simp add: gas_attempt_def revive_tx_def insert_tx_def thenE_bindE)

lemma io_as_unavailable:
  "state_io_rel (evolves H k B) m \<Longrightarrow> state_io_rel (evolves H k B) (as_unavailable m)"
  unfolding as_unavailable_def by (intro io_intros)

lemma io_fetch_row: "state_io_rel (evolves H k B) (fetch_row a)"
  unfolding fetch_row_def by (intro io_intros io_get_db)

lemma io_reserve:
  assumes "args_key a = k"
  shows "state_io_rel (evolves (keccak E) k B) (reserve E c a)"
  unfolding reserve_def reserve_insert_tx reserve_revive_tx
  by (intro io_intros io_statements io_as_unavailable io_fetch_row io_insert_tx [OF assms]
      io_revive_tx [OF assms])

lemma args_key_gas [simp]: "args_key (gas_args a) = args_key a"
  by (simp add: args_key_def gas_args_def)

lemma io_reserve_gas_only:
  assumes "args_key a = k"
  shows "state_io_rel (evolves (keccak E) k B) (reserve_gas_only E c a limit)"
proof -
  have key: "args_key (gas_args a) = k" using assms by simp
  show ?thesis
    unfolding reserve_gas_only_def Let_def gas_attempt_tx
    by (intro io_intros io_statements io_as_unavailable io_fetch_row io_insert_tx [OF key]
        io_revive_tx [OF key])
qed

section \<open>Transitions\<close>

definition state_audit :: "spend_row \<Rightarrow> row_state \<Rightarrow> row_updates \<Rightarrow> audit_fields" where
  "state_audit row st u =
     \<lparr>f_kind = ''transition'', f_decision = state_str st, f_http_status = 0,
      f_reason_code = given (u_dead_reason u) [], f_chain_id = Some (chain_id row),
      f_escrow = Some (escrow row), f_receipt_id = Some (receipt_id row),
      f_channel_id = Some (channel_id row), f_amount_units = Some (amount_units row),
      f_digest16 = [], f_tx_hash = given (u_tx_hash u) (tx_hash row)\<rparr>"

lemma run_set_state:
  "run_state (set_state E row st u) s =
     (let rows = update_rows row st u (spend (db s)) in
      if \<not> sql_opt (u_fee_wei u) then (Inl OverflowError, s)
      else if \<not> nonce_index_ok rows then (Inl SqliteError, s)
      else run_state (audit E (state_audit row st u)) (s\<lparr>db := (db s)\<lparr>spend := rows\<rparr>\<rparr>))"
  by (simp add: set_state_def state_audit_def Let_def)

lemma io_set_state:
  assumes "st \<noteq> Reserved"
  shows "state_io_rel (evolves (keccak E) k B) (set_state E row st u)"
proof (rule io_relI_at)
  fix s r s'
  assume run: "run_state (set_state E row st u) s = (r, s')"
  let ?rows = "update_rows row st u (spend (db s))"
  let ?s1 = "s\<lparr>db := (db s)\<lparr>spend := ?rows\<rparr>\<rparr>"
  show "evolves (keccak E) k B s s'"
  proof (cases "sql_opt (u_fee_wei u) \<and> nonce_index_ok ?rows")
    case False
    then have "s' = s" using run by (auto simp: run_set_state Let_def split: if_splits)
    then show ?thesis by (simp add: evolves_same)
  next
    case True
    then have "run_state (audit E (state_audit row st u)) ?s1 = (r, s')"
      using run by (simp add: run_set_state Let_def)
    then have "evolves (keccak E) k B ?s1 s'"
      using io_audit by (metis state_io_relD)
    moreover have "evolves (keccak E) k B s ?s1"
      using True assms by (intro evolves_step) (simp add: book_step.moves)
    ultimately show ?thesis by (blast intro: evolves.effect_trans)
  qed
qed

lemma run_audit_spend:
  assumes "run_state (audit E f) s = (r, s')"
  shows "spend (db s') = spend (db s) \<and> nonce_alloc (db s') = nonce_alloc (db s)
    \<and> attempts (db s') = attempts (db s) \<and> spend_head (db s') = spend_head (db s)"
proof (cases "regressed E s")
  case True
  then show ?thesis using assms by (auto simp: run_audit halted_on_def halt_db_def)
next
  case False
  then show ?thesis using assms
    by (auto simp: run_audit Let_def split: if_splits dest!: witness_db)
qed

lemma run_set_state_spend:
  assumes "run_state (set_state E row st u) s = (Inr x, s')"
  shows "spend (db s') = update_rows row st u (spend (db s)) \<and> nonce_alloc (db s') = nonce_alloc (db s)
    \<and> attempts (db s') = attempts (db s)"
  using assms run_audit_spend by (fastforce simp: run_set_state Let_def split: if_splits)

lemma io_mark_signed: "state_io_rel (evolves (keccak E) k B) (mark_signed E row h raw)"
  unfolding mark_signed_def split_def
  by (intro io_intros io_set_state io_tick io_step book_step.attempted) simp_all

lemma io_mark_broadcast: "state_io_rel (evolves (keccak E) k B) (mark_broadcast E row h)"
  unfolding mark_broadcast_def by (rule io_set_state) simp

lemma io_mark_mined: "state_io_rel (evolves (keccak E) k B) (mark_mined E row h fee)"
  unfolding mark_mined_def by (rule io_set_state) simp

lemma io_record_attempt_status: "state_io_rel (evolves H k B) (record_attempt_status h status)"
  unfolding record_attempt_status_def by (intro io_step book_step.observed)

lemma io_set_next_nonce:
  assumes "(c, addr) = k \<longrightarrow> B = {}"
  shows "state_io_rel (evolves H k B) (set_next_nonce E c addr nonce)"
  unfolding set_next_nonce_def split_def
  by (intro io_intros io_tick io_step book_step.nonce_set assms)

lemma io_record_boot: "state_io_rel (evolves H k B) (record_boot E address c e caps_text reconciled)"
  unfolding record_boot_def split_def by (intro io_intros io_tick io_step book_step.booted)

lemma io_verify_chains: "state_io_rel (evolves H k B) (verify_chains E)"
  unfolding verify_chains_def by (intro io_intros io_get_db)

section \<open>Giving a nonce back\<close>

text \<open>
  Why the nonce \<open>mark_dead\<close> returns is free: the stored row was the only one alive with it, by the
  unique index, and is dead now.
\<close>

lemma distinct_map_inj: "distinct (map f xs) \<Longrightarrow> x \<in> set xs \<Longrightarrow> y \<in> set xs \<Longrightarrow> f x = f y \<Longrightarrow> x = y"
  by (auto simp: distinct_map dest: inj_onD)

lemma find_row_Some:
  assumes "find_row d c e i = Some r"
  shows "r \<in> set (spend d)" "chain_id r = c" "escrow r = e" "receipt_id r = i"
  using find_Some_mem [OF assms [unfolded find_row_def]] by (simp_all add: keyed_def)

lemma unsigned_row_Some:
  assumes "unsigned_row d row = Some held"
  shows "find_row d (chain_id row) (escrow row) (receipt_id row) = Some held" "row_state held = Reserved"
  using assms by (auto simp: unsigned_row_def split: option.splits if_splits)

lemma dead_frees:
  assumes "nonce_index_ok (spend d)" "find_row d (chain_id row) (escrow row) (receipt_id row) = Some held"
    "row_state held \<noteq> Dead" "spend d' = update_rows row Dead u (spend d)"
  shows "nonce_free (chain_id row, from_addr held) (account_nonce held) d'"
proof -
  let ?alive = "filter (\<lambda>r. row_state r \<noteq> Dead) (spend d)"
  let ?key = "keyed (chain_id row) (escrow row) (receipt_id row)"
  have held: "held \<in> set (spend d)" "?key held"
    using find_Some_mem [OF assms(2) [unfolded find_row_def]] by simp_all
  have "row_state r = Dead"
    if mem: "r \<in> set (spend d')" and slot: "nonce_slot r = (chain_id row, from_addr held, account_nonce held)" for r
  proof (rule ccontr)
    assume alive: "row_state r \<noteq> Dead"
    obtain r0 where r0: "r0 \<in> set (spend d)" "r = (if ?key r0 then apply_updates Dead u r0 else r0)"
      using mem unfolding assms(4) update_rows_def set_map by (elim imageE)
    have new: "\<not> ?key r0"
    proof
      assume "?key r0"
      then have "row_state r = Dead" unfolding r0(2) by (simp add: apply_updates_def)
      with alive show False ..
    qed
    then have old: "r = r0" "\<not> ?key r0" using r0(2) by simp_all
    have "nonce_slot r0 = nonce_slot held" using slot old held(2) by (simp add: nonce_slot_def keyed_def)
    moreover have "r0 \<in> set ?alive" "held \<in> set ?alive" using r0(1) old alive held assms(3) by simp_all
    ultimately have "r0 = held"
      using assms(1) unfolding nonce_index_ok_def by (metis distinct_map_inj)
    then show False using old held by simp
  qed
  then show ?thesis by (simp add: nonce_free_def)
qed

lemma run_mark_dead:
  "run_state (mark_dead E row reason) s =
     (case run_state (set_state E row Dead (no_updates\<lparr>u_dead_reason := Some reason\<rparr>)) s of
        (Inl e, s') \<Rightarrow> (Inl e, s')
      | (Inr x, s') \<Rightarrow>
          (case unsigned_row (db s) row of
             None \<Rightarrow> (Inr (), s')
           | Some held \<Rightarrow>
               (Inr (), s'\<lparr>db := return_nonce (chain_id row, from_addr held) (account_nonce held) (db s')\<rparr>)))"
  by (auto simp: mark_dead_def split: prod.splits sum.splits option.splits)

lemma io_mark_dead: "state_io_rel (evolves (keccak E) k B) (mark_dead E row reason)"
proof (rule io_relI_at)
  fix s r s'
  assume run: "run_state (mark_dead E row reason) s = (r, s')"
  let ?u = "no_updates\<lparr>u_dead_reason := Some reason\<rparr>"
  obtain q t where set: "run_state (set_state E row Dead ?u) s = (q, t)" by fastforce
  have st: "evolves (keccak E) k B s t"
    using io_set_state [of Dead] set by (metis row_state.distinct(7) state_io_relD)
  show "evolves (keccak E) k B s s'"
  proof (cases "s' = t")
    case True
    then show ?thesis using st by simp
  next
    case False
    then obtain x held where q: "q = Inr x" and held: "unsigned_row (db s) row = Some held"
      and s': "s' = t\<lparr>db := return_nonce (chain_id row, from_addr held) (account_nonce held) (db t)\<rparr>"
      using run set by (auto simp: run_mark_dead split: sum.splits option.splits)
    note found = unsigned_row_Some [OF held] and rows = run_set_state_spend [OF set [unfolded q]]
    have "evolves (keccak E) k B t s'" if wf: "rows_wf k B (db s)"
    proof -
      have "nonce_free (chain_id row, from_addr held) (account_nonce held) (db t)"
        using wf found rows by (intro dead_frees [where d = "db s"]) (auto simp: rows_wf_defs)
      moreover have "account_nonce held \<notin> B" if "(chain_id row, from_addr held) = k"
        using wf found that find_row_Some [OF found(1)] by (auto simp: rows_wf_defs)
      ultimately show ?thesis unfolding s' by (intro evolves_step) (simp add: book_step.returned)
    qed
    then show ?thesis using st path_keeps_rows unfolding evolves_def by (metis rtranclp_trans)
  qed
qed

section \<open>Every method, in any order\<close>

text \<open>
  One call of a writing method of \<open>Ledger\<close>. The address \<open>k\<close> of the process is the same in every
  reservation; everything else is arbitrary, and so is the outcome.
\<close>

datatype ledger_call =
    AssertClock
  | Audit audit_fields
  | Reserve caps reserve_args
  | ReserveGasOnly caps reserve_args int
  | MarkSigned spend_row string string
  | MarkBroadcast spend_row string
  | MarkMined spend_row string int
  | MarkDead spend_row string
  | AttemptStatus string string
  | SetNextNonce int string int
  | RecordBoot string int string string bool

fun run_call :: "'e ledger_env_scheme \<Rightarrow> ledger_call \<Rightarrow> ('z books_scheme, unit) py" where
  "run_call E AssertClock = assert_clock_sane E"
| "run_call E (Audit f) = audit E f"
| "run_call E (Reserve c a) = thenE (reserve E c a) (ok ())"
| "run_call E (ReserveGasOnly c a n) = thenE (reserve_gas_only E c a n) (ok ())"
| "run_call E (MarkSigned r h raw) = mark_signed E r h raw"
| "run_call E (MarkBroadcast r h) = mark_broadcast E r h"
| "run_call E (MarkMined r h fee) = mark_mined E r h fee"
| "run_call E (MarkDead r reason) = mark_dead E r reason"
| "run_call E (AttemptStatus h status) = record_attempt_status h status"
| "run_call E (SetNextNonce c addr n) = set_next_nonce E c addr n"
| "run_call E (RecordBoot addr c e text b) = record_boot E addr c e text b"

fun call_key :: "ledger_call \<Rightarrow> nonce_key option" where
  "call_key (Reserve c a) = Some (args_key a)"
| "call_key (ReserveGasOnly c a n) = Some (args_key a)"
| "call_key _ = None"

lemma io_run_call:
  assumes "call_key c \<in> {None, Some k}"
  shows "state_io_rel (evolves (keccak E) k {}) (run_call E c)"
  using assms
  by (cases c) (simp_all add: io_statements io_mark_signed io_mark_broadcast io_mark_mined io_mark_dead
      io_record_attempt_status io_set_next_nonce io_record_boot evolves.io_thenE evolves.io_ok
      io_reserve io_reserve_gas_only)

text \<open>The books a run of the service, from a new file, can leave behind.\<close>

inductive reachable_books :: "'e ledger_env_scheme \<Rightarrow> 'z books_scheme \<Rightarrow> bool" for E where
  new_file: "db s = empty_db \<Longrightarrow> reachable_books E s"
| calls: "reachable_books E s \<Longrightarrow> run_state (run_call E c) s = (r, s') \<Longrightarrow> reachable_books E s'"

inductive_simps reachable_books_simps: "reachable_books E s"

lemma nonces_ok_none: "nonces_ok k {} d"
  by (simp add: nonces_ok_def)

lemma call_evolves:
  assumes "run_state (run_call E c) s = (r, s')"
  shows "\<exists>k. evolves (keccak E) k {} s s'"
proof -
  obtain k where "call_key c \<in> {None, Some k}" by (cases "call_key c") auto
  then show ?thesis using io_run_call assms by (metis state_io_relD)
qed

lemma reachable_wf: "reachable_books E s \<Longrightarrow> book_wf (keccak E) k {} (db s)"
proof (induction arbitrary: k rule: reachable_books.induct)
  case (new_file s)
  then show ?case by (simp add: empty_wf)
next
  case (calls s c r s')
  then obtain k' where "evolves (keccak E) k' {} s s'" using call_evolves by blast
  then have "book_wf (keccak E) k' {} (db s')" using calls.IH evolves_wf by blast
  then show ?case by (simp add: book_wf_def nonces_ok_none)
qed

lemma reachable_appends:
  assumes "reachable_books E s" "run_state (run_call E c) s = (r, s')"
  shows "append_only (db s) (db s')"
  using call_evolves [OF assms(2)] reachable_wf [OF assms(1)] path_appends unfolding evolves_def book_wf_parts by blast

end
