(* ===== verification/Ledger_Reserve.thy ===== *)
theory Ledger_Reserve
  imports Ledger_Methods
begin

text \<open>
  The two reservations: what a success leaves in the books (the windows within their caps, the row,
  the nonce), that a refusal leaves them as they were, and which branches cannot be reached.
\<close>

section \<open>The branches of a reservation\<close>

text \<open>The reading of the clock the windows are cut at: the second one of the call.\<close>

definition cut_time :: "'e ledger_env_scheme \<Rightarrow> 'z books_scheme \<Rightarrow> int" where
  "cut_time E s = now_at E (read_on s)"

text \<open>The reading inside the transaction, which stamps the row: the third one.\<close>

definition stamp_time :: "'e ledger_env_scheme \<Rightarrow> 'z books_scheme \<Rightarrow> int" where
  "stamp_time E s = now_at E (read_on (read_on s))"

lemma run_reserve:
  "run_state (reserve E c a) s =
     (if r_amount a \<le> 0 then (Inl ValueError, s)
      else if regressed E s then (Inl ClockRegression, halted_on E s)
      else case first_breach (db s) c a (cut_time E s) of
          Some name \<Rightarrow> (Inl (CapBreach name), read_on (read_on s))
        | None \<Rightarrow>
            (case get_row (db s) (r_chain_id a) (r_escrow a) (r_receipt_id a) of
               None \<Rightarrow> run_state (reserve_insert E c a (cut_time E s)) (read_on (read_on s))
             | Some existing \<Rightarrow>
                 if row_state existing \<noteq> Dead then (Inl LedgerUnavailable, read_on (read_on s))
                 else run_state (reserve_revive E a) (read_on (read_on s))))"
  by (simp add: reserve_def cut_time_def split: option.splits)

lemma run_fetch_row:
  "run_state (fetch_row a) s =
     (case get_row (db s) (r_chain_id a) (r_escrow a) (r_receipt_id a) of
        None \<Rightarrow> (Inl LedgerUnavailable, s) | Some r \<Rightarrow> (Inr r, s))"
  by (simp add: fetch_row_def split: option.splits)

lemma find_row_iff:
  "find_row d c e i = None \<longleftrightarrow> (\<forall>r \<in> set (spend d). \<not> keyed c e i r)"
  by (auto simp: find_row_def find_None_iff)

lemma get_row_None [simp]: "get_row d c e i = None \<longleftrightarrow> find_row d c e i = None"
  by (simp add: get_row_def)

lemma find_row_insert:
  assumes "find_row d (r_chain_id a) (r_escrow a) (r_receipt_id a) = None"
  shows "find_row (commit_insert H a w d) (r_chain_id a) (r_escrow a) (r_receipt_id a) =
           Some (new_row H a w d)"
proof -
  have "find P (xs @ [x]) = (case find P xs of None \<Rightarrow> if P x then Some x else None | Some y \<Rightarrow> Some y)"
    for P and xs :: "db_row list" and x
    by (induction xs) auto
  then show ?thesis using assms by (simp add: find_row_def keyed_def)
qed

lemma keyed_revive [simp]: "keyed c e i (revive_row hint a n r) = keyed c e i r"
  by (simp add: keyed_def revive_row_def)

lemma find_row_revive:
  assumes "find_row d (r_chain_id a) (r_escrow a) (r_receipt_id a) = Some r"
  shows "find_row (commit_revive hint a w d) (r_chain_id a) (r_escrow a) (r_receipt_id a) =
           Some (if revivable a r then revive_row hint a (next_nonce d (args_key a)) r else r)"
proof -
  have "find P (map f xs) = map_option f (find P xs)"
    if "\<And>x. P (f x) = P x" for P and f :: "db_row \<Rightarrow> db_row" and xs
    using that by (induction xs) auto
  from this [of "keyed (r_chain_id a) (r_escrow a) (r_receipt_id a)"] show ?thesis
    using assms by (simp add: find_row_def revive_rows_def)
qed

lemma run_reserve_insert:
  assumes "find_row (db s) (r_chain_id a) (r_escrow a) (r_receipt_id a) = None"
  shows "run_state (reserve_insert E c a now) s =
     (if regressed E s then (Inl ClockRegression, read_on s)
      else case insert_fault (keccak E) (\<lambda>n. insert_ints_ok c a n now) (\<lambda>d. insert_guard d c a now) a
                  (now_at E s) (db s) of
          Some e \<Rightarrow> (Inl (if e = SqliteError then LedgerUnavailable else e), read_on s)
        | None \<Rightarrow> (Inr (to_row (new_row (keccak E) a (now_at E s) (db s))),
                   (read_on s)\<lparr>db := commit_insert (keccak E) a (now_at E s) (db s)\<rparr>))"
  using find_row_insert [OF assms]
  by (auto simp: reserve_insert_tx run_insert_tx run_fetch_row get_row_def split: option.splits)

lemma run_reserve_revive:
  assumes "find_row (db s) (r_chain_id a) (r_escrow a) (r_receipt_id a) = Some r"
  shows "run_state (reserve_revive E a) s =
     (if regressed E s then (Inl ClockRegression, read_on s)
      else case revive_fault True a (db s) of
          Some e \<Rightarrow> (Inl (if e = SqliteError then LedgerUnavailable else e), read_on s)
        | None \<Rightarrow>
          (case run_state (audit E (transition_audit a ''revived after a released attempt''))
                  ((read_on s)\<lparr>db := commit_revive True a (now_at E s) (db s)\<rparr>) of
             (Inl e, s') \<Rightarrow> (Inl (if e = SqliteError then LedgerUnavailable else e), s')
           | (Inr x, s') \<Rightarrow>
               (Inr (to_row (if revivable a r then revive_row True a (next_nonce (db s) (args_key a)) r else r)), s')))"
  using find_row_revive [OF assms]
  by (auto simp: reserve_revive_tx run_revive_tx run_fetch_row get_row_def split: option.splits prod.splits sum.splits)

text \<open>A success is an insertion or a revival, and the outcome is determined.\<close>

lemma reserve_success:
  assumes run: "run_state (reserve E c a) s = (Inr row, s')"
  obtains
    (inserted) w where "w = stamp_time E s" "0 < r_amount a" "first_breach (db s) c a (cut_time E s) = None"
      "find_row (db s) (r_chain_id a) (r_escrow a) (r_receipt_id a) = None"
      "db s' = commit_insert (keccak E) a w (db s)"
      "row = to_row (new_row (keccak E) a w (db s))"
  | (revived) w r where "0 < r_amount a" "first_breach (db s) c a (cut_time E s) = None"
      "find_row (db s) (r_chain_id a) (r_escrow a) (r_receipt_id a) = Some r" "row_state r = Dead"
      "revive_fault True a (db s) = None"
      "spend (db s') = spend (commit_revive True a w (db s))"
      "nonce_alloc (db s') = nonce_alloc (commit_revive True a w (db s))"
      "row = to_row (if revivable a r then revive_row True a (next_nonce (db s) (args_key a)) r else r)"
proof -
  let ?s = "read_on (read_on s)"
  have pre: "0 < r_amount a" "\<not> regressed E s" "first_breach (db s) c a (cut_time E s) = None"
    using run by (auto simp: run_reserve split: if_splits option.splits)
  show thesis
  proof (cases "find_row (db s) (r_chain_id a) (r_escrow a) (r_receipt_id a)")
    case None
    then have "run_state (reserve_insert E c a (cut_time E s)) ?s = (Inr row, s')"
      using run pre by (simp add: run_reserve get_row_def)
    then show thesis
      using inserted [of "now_at E ?s"] pre None unfolding stamp_time_def
      by (auto simp: run_reserve_insert split: if_splits option.splits)
  next
    case (Some r)
    then have dead: "row_state r = Dead" and "run_state (reserve_revive E a) ?s = (Inr row, s')"
      using run pre by (auto simp: run_reserve get_row_def to_row_def spend_row.truncate_def split: if_splits)
    moreover have find: "find_row (db ?s) (r_chain_id a) (r_escrow a) (r_receipt_id a) = Some r"
      using Some by simp
    ultimately show thesis
      using revived [OF pre(1,3) Some dead, of "now_at E ?s"]
      by (auto simp: run_reserve_revive [OF find] dest!: run_audit_spend split: if_splits option.splits prod.splits sum.splits)
  qed
qed

section \<open>Windows after a reservation\<close>

lemma sum_rewritten:
  fixes f :: "'a \<Rightarrow> int"
  assumes "\<And>r. R r \<Longrightarrow> \<not> P r" "\<And>r. R r \<Longrightarrow> f (h r) \<le> b" "0 \<le> b"
  shows "sum_list (map f (filter P (map (\<lambda>r. if R r then h r else r) rows)))
           \<le> sum_list (map f (filter P rows)) + b * int (length (filter R rows))"
proof (induction rows)
  case Nil
  then show ?case by simp
next
  case (Cons r rows)
  then show ?case using assms(1,2) [of r] assms(3) by (auto simp: algebra_simps)
qed

lemma revivable_dead: "revivable a r \<Longrightarrow> \<not> counted (row_state r)"
  by (simp add: revivable_def counted_def)

lemma units_after_revive:
  assumes "length (filter (revivable a) rows) = 1" "0 \<le> r_amount a" "\<And>r. P r \<Longrightarrow> counted (row_state r)"
  shows "sum_list (map amount_units (filter P (revive_rows hint a n rows)))
           \<le> sum_list (map amount_units (filter P rows)) + r_amount a"
proof -
  have "sum_list (map amount_units (filter P (map (\<lambda>r. if revivable a r then revive_row hint a n r else r) rows)))
    \<le> sum_list (map amount_units (filter P rows)) + r_amount a * int (length (filter (revivable a) rows))"
  proof (rule sum_rewritten)
    show "\<not> P r" if "revivable a r" for r using that assms(3) revivable_dead by blast
    show "amount_units (revive_row hint a n r) \<le> r_amount a" if "revivable a r" for r
      using that by (simp add: revive_row_def revivable_def)
  qed (rule assms(2))
  then show ?thesis using assms(1) by (simp add: revive_rows_def)
qed

lemma count_after_revive:
  assumes "length (filter (revivable a) rows) = 1" "\<And>r. P r \<Longrightarrow> counted (row_state r)"
  shows "int (length (filter P (revive_rows hint a n rows))) \<le> int (length (filter P rows)) + 1"
proof -
  have "sum_list (map (\<lambda>_. 1) (filter P (map (\<lambda>r. if revivable a r then revive_row hint a n r else r) rows)))
    \<le> sum_list (map (\<lambda>_. 1) (filter P rows)) + 1 * int (length (filter (revivable a) rows))"
  proof (rule sum_rewritten)
    show "\<not> P r" if "revivable a r" for r using that assms(2) revivable_dead by blast
  qed simp_all
  then show ?thesis using assms(1) by (simp add: revive_rows_def sum_list_triv)
qed

lemma revive_fault_None:
  assumes "revive_fault hint a d = None"
  shows "length (filter (revivable a) (spend d)) = 1"
    "nonce_index_ok (revive_rows hint a (next_nonce d (args_key a)) (spend d))"
  using assms by (auto simp: revive_fault_def Let_def split: if_splits)

lemma revivable_found:
  assumes "rows_ok d" "find_row d (r_chain_id a) (r_escrow a) (r_receipt_id a) = Some r"
    "revive_fault hint a d = None"
  shows "revivable a r"
proof -
  have "filter (revivable a) (spend d) \<noteq> []" using revive_fault_None(1) [OF assms(3)] by auto
  then obtain x where x: "x \<in> set (spend d)" "revivable a x" by (auto simp: filter_empty_conv)
  moreover have "row_key x = row_key r"
    using x(2) find_row_Some [OF assms(2)] by (simp add: revivable_def keyed_def row_key_def)
  ultimately have "x = r"
    using assms(1) find_row_Some(1) [OF assms(2)] unfolding rows_ok_def by (metis distinct_map_inj)
  then show ?thesis using x by simp
qed

text \<open>
  The windows the caps bound, in tokens and in transactions, as \<open>(cap, total)\<close> pairs for the
  reservation \<open>a\<close> cut at \<open>now\<close>.
\<close>

definition window_totals :: "ledger_db \<Rightarrow> caps \<Rightarrow> reserve_args \<Rightarrow> int \<Rightarrow> (int \<times> int) list" where
  "window_totals d c a now =
     [(units_10m c, window_units d (r_chain_id a) (r_escrow a) (r_token a) (now - 600)),
      (units_1h c, window_units d (r_chain_id a) (r_escrow a) (r_token a) (now - 3600)),
      (units_24h c, window_units d (r_chain_id a) (r_escrow a) (r_token a) (now - 86400)),
      (units_channel_24h c, channel_units d (r_chain_id a) (r_escrow a) (r_channel_id a) (now - 86400)),
      (tx_1h c, window_count d (r_chain_id a) (r_escrow a) (now - 3600)),
      (tx_24h c, window_count d (r_chain_id a) (r_escrow a) (now - 86400)),
      (tx_per_channel_24h c, channel_count d (r_chain_id a) (r_escrow a) (r_channel_id a) (now - 86400))]"

definition cap_holds :: "int \<times> int \<Rightarrow> bool" where
  "cap_holds = (\<lambda>(limit, total). limit = - 1 \<or> total \<le> limit)"

lemma in_window_counted: "in_window c e since r \<Longrightarrow> counted (row_state r)"
  by (simp add: in_window_def)

lemmas window_defs = window_units_def window_count_def channel_units_def channel_count_def

lemma units_after:
  assumes "spend d' = spend d @ [r] \<and> amount_units r = r_amount a \<and> 0 \<le> r_amount a
      \<or> spend d' = revive_rows hint a n (spend d) \<and> length (filter (revivable a) (spend d)) = 1 \<and> 0 \<le> r_amount a"
  shows "window_units d' ch e tok since \<le> window_units d ch e tok since + r_amount a"
    "channel_units d' ch e chan since \<le> channel_units d ch e chan since + r_amount a"
    "window_count d' ch e since \<le> window_count d ch e since + 1"
    "channel_count d' ch e chan since \<le> channel_count d ch e chan since + 1"
  using assms
  by (auto simp: window_defs in_window_counted intro!: units_after_revive count_after_revive)

lemma no_breach_checks:
  assumes "first_breach d c a now = None" "x \<in> set (cap_checks d c a now)"
  shows "\<not> breaches x"
  using assms by (auto simp: first_breach_def dest!: find_None_mem split: option.splits)

lemma no_breach_limits:
  assumes "first_breach d c a now = None"
  shows "units_per_tx c = - 1 \<or> r_amount a \<le> units_per_tx c"
    "units_10m c = - 1 \<or> window_units d (r_chain_id a) (r_escrow a) (r_token a) (now - 600) + r_amount a \<le> units_10m c"
    "units_1h c = - 1 \<or> window_units d (r_chain_id a) (r_escrow a) (r_token a) (now - 3600) + r_amount a \<le> units_1h c"
    "units_24h c = - 1 \<or> window_units d (r_chain_id a) (r_escrow a) (r_token a) (now - 86400) + r_amount a \<le> units_24h c"
    "units_channel_24h c = - 1 \<or> channel_units d (r_chain_id a) (r_escrow a) (r_channel_id a) (now - 86400) + r_amount a \<le> units_channel_24h c"
    "tx_1h c = - 1 \<or> window_count d (r_chain_id a) (r_escrow a) (now - 3600) + 1 \<le> tx_1h c"
    "tx_24h c = - 1 \<or> window_count d (r_chain_id a) (r_escrow a) (now - 86400) + 1 \<le> tx_24h c"
    "tx_per_channel_24h c = - 1 \<or> channel_count d (r_chain_id a) (r_escrow a) (r_channel_id a) (now - 86400) + 1 \<le> tx_per_channel_24h c"
    "fee_wei_24h c = - 1 \<or> fee_wei_window d (r_chain_id a) (r_escrow a) (now - 86400) + r_max_fee_wei a * r_gas_limit a \<le> fee_wei_24h c"
    "\<not> channels_breach d c a now"
proof -
  have "list_all (\<lambda>(n, l, ad, e). l = - 1 \<or> e + ad \<le> l) (cap_checks d c a now)"
    using no_breach_checks [OF assms] by (fastforce simp: breaches_def list_all_iff)
  note row = this [unfolded cap_checks_def Let_def list.pred_inject split_conv]
  show "units_per_tx c = - 1 \<or> r_amount a \<le> units_per_tx c" using row by simp
  show "units_10m c = - 1 \<or> window_units d (r_chain_id a) (r_escrow a) (r_token a) (now - 600) + r_amount a \<le> units_10m c"
    using row by blast
  show "units_1h c = - 1 \<or> window_units d (r_chain_id a) (r_escrow a) (r_token a) (now - 3600) + r_amount a \<le> units_1h c"
    using row by blast
  show "units_24h c = - 1 \<or> window_units d (r_chain_id a) (r_escrow a) (r_token a) (now - 86400) + r_amount a \<le> units_24h c"
    using row by blast
  show "units_channel_24h c = - 1 \<or> channel_units d (r_chain_id a) (r_escrow a) (r_channel_id a) (now - 86400) + r_amount a \<le> units_channel_24h c"
    using row by blast
  show "tx_1h c = - 1 \<or> window_count d (r_chain_id a) (r_escrow a) (now - 3600) + 1 \<le> tx_1h c"
    using row by blast
  show "tx_24h c = - 1 \<or> window_count d (r_chain_id a) (r_escrow a) (now - 86400) + 1 \<le> tx_24h c"
    using row by blast
  show "tx_per_channel_24h c = - 1 \<or> channel_count d (r_chain_id a) (r_escrow a) (r_channel_id a) (now - 86400) + 1 \<le> tx_per_channel_24h c"
    using row by blast
  show "fee_wei_24h c = - 1 \<or> fee_wei_window d (r_chain_id a) (r_escrow a) (now - 86400) + r_max_fee_wei a * r_gas_limit a \<le> fee_wei_24h c"
    using row by blast
  show "\<not> channels_breach d c a now"
    using assms by (auto simp: first_breach_def split: option.splits if_splits)
qed

lemma within_after:
  assumes breach: "first_breach d c a now = None"
    and step: "spend d' = spend d @ [r] \<and> amount_units r = r_amount a \<and> 0 \<le> r_amount a
      \<or> spend d' = revive_rows hint a n (spend d) \<and> length (filter (revivable a) (spend d)) = 1 \<and> 0 \<le> r_amount a"
  shows "list_all cap_holds (window_totals d' c a now)"
proof -
  have le: "l = - 1 \<or> x \<le> l" if "l = - 1 \<or> y + b \<le> l" "x \<le> y + b" for l x y b :: int
    using that by linarith
  show ?thesis
    unfolding window_totals_def cap_holds_def list.pred_inject split_conv
    by (intro conjI list.pred_inject(1); rule le; (rule no_breach_limits [OF breach] units_after [OF step]))
qed

section \<open>Refusals\<close>

lemma witness_returns: "\<exists>s'. run_state (write_witness E name h) s = (Inr (), s')"
  by (simp add: write_witness_def)

lemma audit_raises:
  assumes "run_state (audit E f) s = (Inl e, s')"
  shows "e = ClockRegression \<or> e = OverflowError"
proof (cases "regressed E s")
  case True
  then show ?thesis using assms by (simp add: run_audit)
next
  case False
  then show ?thesis
    using assms by (auto simp: run_audit Let_def split: if_splits) (metis Inl_Inr_False prod.inject witness_returns)
qed

lemma guard_opened [simp]:
  "insert_guard (opened_db k w d) c a now = insert_guard d c a now"
  "gas_guard (opened_db k w d) a limit now = gas_guard d a limit now"
  by (simp_all add: insert_guard_def gas_guard_def window_defs gas_only_count_def)

lemma guard_holds: "first_breach d c a now = None \<Longrightarrow> insert_guard d c a now"
  using no_breach_limits [of d c a now] unfolding insert_guard_def Let_def by blast

lemma insert_fault_guarded:
  assumes "insert_fault H ints guard a w d = Some e" "guard (opened_db (args_key a) w d)"
  shows "e = OverflowError \<or> e = SqliteError"
  using assms by (auto simp: insert_fault_def split: if_splits)

lemma revive_fault_Some:
  "revive_fault hint a d = Some e \<Longrightarrow> e \<in> {OverflowError, SqliteError, LedgerUnavailable}"
  by (auto simp: revive_fault_def Let_def split: if_splits)

lemma breach_name:
  assumes "first_breach d c a now = Some name"
  shows "name \<in> set (map fst (cap_checks d c a now)) \<union> {''cap_distinct_channels_24h''}"
  using assms by (auto simp: first_breach_def dest!: find_Some_mem split: option.splits if_splits intro: rev_image_eqI)

text \<open>
  The record after a revival binds the same integers the revival has bound: only its time can fail,
  and a clock within 64 bits cannot.
\<close>

definition clock_fits :: "'e ledger_env_scheme \<Rightarrow> ledger_db \<Rightarrow> bool" where
  "clock_fits E d \<longleftrightarrow> sql_int (max_ts d) \<and> (\<forall>n. sql_int (py_trunc (clock E n)))"

lemma now_fits: "clock_fits E d \<Longrightarrow> sql_int (now_at E s)"
  by (simp add: clock_fits_def now_at_def)

lemma revive_audit_fits:
  assumes "clock_fits E (db s)" "revive_fault True a (db s) = None"
    "run_state (audit E (transition_audit a reason)) ((read_on s)\<lparr>db := commit_revive True a (now_at E s) (db s)\<rparr>) = (Inl e, s')"
  shows "e = ClockRegression"
proof (rule ccontr)
  assume other: "e \<noteq> ClockRegression"
  let ?d = "commit_revive True a (now_at E s) (db s)"
  let ?t = "(read_on s)\<lparr>db := ?d\<rparr>" and ?f = "transition_audit a reason"
  have max: "sql_int (max x y)" if "sql_int x" "sql_int y" for x y using that by (simp add: max_def)
  have "sql_int (max_ts ?d)"
    using max [OF now_fits [OF assms(1), of s]] assms(1) by (simp add: clock_fits_def)
  then have time: "sql_int (max (now_at E ?t) (max_ts (db ?t)))"
    using max [OF now_fits [OF assms(1), of ?t]] by simp
  have ints: "sql_int (f_http_status ?f)" "sql_opt (f_chain_id ?f)" "sql_opt (f_amount_units ?f)"
    using assms(2)
    by (auto simp: revive_fault_def Let_def revive_ints_ok_def transition_audit_def sql_opt_def sql_int_def split: if_splits)
  have "\<not> regressed E ?t" using assms(3) other by (auto simp: run_audit)
  then obtain name h t where "run_state (write_witness E name h) t = (Inl e, s')"
    using assms(3) time ints by (auto simp: run_audit Let_def)
  then show False using witness_returns [of E name h t] by auto
qed

text \<open>Every way a reservation fails, and the books it leaves.\<close>

lemma reserve_failure:
  assumes run: "run_state (reserve E c a) s = (Inl e, s')"
  shows "e = ValueError \<and> r_amount a \<le> 0 \<and> s' = s
    \<or> e = ClockRegression
    \<or> e = OverflowError \<and> (clock_fits E (db s) \<longrightarrow> db s' = db s)
    \<or> (\<exists>name. e = CapBreach name \<and> first_breach (db s) c a (cut_time E s) = Some name \<and> db s' = db s)
    \<or> e = LedgerUnavailable \<and> db s' = db s"
proof (cases "r_amount a \<le> 0 \<or> regressed E s \<or> first_breach (db s) c a (cut_time E s) \<noteq> None")
  case True
  then show ?thesis using run by (auto simp: run_reserve split: if_splits)
next
  case False
  note pre = False
  then have breach: "first_breach (db s) c a (cut_time E s) = None" by simp
  let ?s = "read_on (read_on s)"
  show ?thesis
  proof (cases "find_row (db s) (r_chain_id a) (r_escrow a) (r_receipt_id a)")
    case None
    then have "run_state (reserve_insert E c a (cut_time E s)) ?s = (Inl e, s')"
      using run pre by (simp add: run_reserve get_row_def)
    then show ?thesis
      using insert_fault_guarded guard_holds [OF breach] None
      by (fastforce simp: run_reserve_insert split: if_splits option.splits)
  next
    case (Some r)
    have find: "find_row (db ?s) (r_chain_id a) (r_escrow a) (r_receipt_id a) = Some r"
      using Some by simp
    show ?thesis
    proof (cases "row_state r = Dead")
      case False
      then show ?thesis using run pre Some
        by (auto simp: run_reserve get_row_def to_row_def spend_row.truncate_def split: if_splits)
    next
      case True
      then have at: "run_state (reserve_revive E a) ?s = (Inl e, s')"
        using run pre Some by (simp add: run_reserve get_row_def to_row_def spend_row.truncate_def)
      let ?m = "audit E (transition_audit a ''revived after a released attempt'')"
      let ?t = "(read_on ?s)\<lparr>db := commit_revive True a (now_at E ?s) (db ?s)\<rparr>"
      show ?thesis
      proof (cases "regressed E ?s \<or> revive_fault True a (db s) \<noteq> None")
        case True
        then show ?thesis
          using at revive_fault_Some by (fastforce simp: run_reserve_revive [OF find] split: if_splits)
      next
        case False
        obtain q t where audit: "run_state ?m ?t = (q, t)" by (cases "run_state ?m ?t")
        then obtain x where x: "q = Inl x"
          using at False by (cases q) (auto simp: run_reserve_revive [OF find])
        then have "e = x" "s' = t"
          using at False audit audit_raises [of E _ ?t x t] by (auto simp: run_reserve_revive [OF find])
        moreover have "x = ClockRegression" if "clock_fits E (db s)"
          using revive_audit_fits [of E ?s a _ x t] that audit x False by simp
        ultimately show ?thesis using audit_raises [of E _ ?t x t] audit x by blast
      qed
    qed
  qed
qed

lemma reserve_regressed:
  "0 < r_amount a \<Longrightarrow> regressed E s \<Longrightarrow>
     run_state (reserve E c a) s = (Inl ClockRegression, halted_on E s)"
  by (simp add: run_reserve)

end
