(* ===== verification/Ledger_Gas.thy ===== *)
theory Ledger_Gas
  imports Ledger_Reserve
begin

text \<open>
  \<open>reserve_gas_only\<close>, the reservation of a call that moves no tokens, and the nonce \<open>mark_dead\<close>
  gives back.
\<close>

section \<open>The branches of a gas-only reservation\<close>

lemma gas_args_keys [simp]:
  "r_chain_id (gas_args a) = r_chain_id a" "r_escrow (gas_args a) = r_escrow a"
  "r_receipt_id (gas_args a) = r_receipt_id a" "r_channel_id (gas_args a) = r_channel_id a"
  "r_amount (gas_args a) = 0" "r_max_fee_wei (gas_args a) = r_max_fee_wei a"
  "r_gas_limit (gas_args a) = r_gas_limit a" "r_from_addr (gas_args a) = r_from_addr a"
  "r_calldata_keccak (gas_args a) = r_calldata_keccak a" "r_to_addr (gas_args a) = r_to_addr a"
  by (simp_all add: gas_args_def)

abbreviation gas_ints :: "reserve_args \<Rightarrow> int \<Rightarrow> int \<Rightarrow> int \<Rightarrow> bool" where
  "gas_ints a limit now \<equiv> (\<lambda>n. gas_ints_ok a n limit now)"

abbreviation gas_open :: "reserve_args \<Rightarrow> int \<Rightarrow> int \<Rightarrow> ledger_db \<Rightarrow> bool" where
  "gas_open a limit now \<equiv> (\<lambda>d. gas_guard d a limit now)"

text \<open>The attempt after the caps: the transaction, the row, the audit record.\<close>

definition gas_finish :: "'e ledger_env_scheme \<Rightarrow> reserve_args \<Rightarrow> int \<Rightarrow> int \<Rightarrow> bool \<Rightarrow> ('z books_scheme, spend_row) py" where
  "gas_finish E a limit now revive =
     thenE (as_unavailable (gas_attempt E a limit now revive))
       (bindE (fetch_row a) (\<lambda>row.
         thenE (audit E (transition_audit a ''gas-only call reserved'')) (ok row)))"

lemma run_reserve_gas_only:
  "run_state (reserve_gas_only E c args limit) s =
     (let a = gas_args args; s2 = read_on (read_on s) in
      if regressed E s then (Inl ClockRegression, halted_on E s)
      else case gas_breach (db s) c a limit (cut_time E s) of
          Some name \<Rightarrow> (Inl (CapBreach name), s2)
        | None \<Rightarrow>
            (case find_row (db s) (r_chain_id a) (r_escrow a) (r_receipt_id a) of
               None \<Rightarrow> run_state (gas_finish E a limit (cut_time E s) False) s2
             | Some r \<Rightarrow>
                 if row_state r \<noteq> Dead then (Inl LedgerUnavailable, s2)
                 else run_state (gas_finish E a limit (cut_time E s) True) s2))"
  by (simp add: reserve_gas_only_def gas_finish_def cut_time_def get_row_def Let_def to_row_def
      spend_row.truncate_def split: option.splits)

lemma run_gas_insert:
  assumes "find_row (db s) (r_chain_id a) (r_escrow a) (r_receipt_id a) = None"
  shows "run_state (gas_finish E a limit now False) s =
     (if regressed E s then (Inl ClockRegression, read_on s)
      else case insert_fault (keccak E) (gas_ints a limit now) (gas_open a limit now) a (now_at E s) (db s) of
          Some e \<Rightarrow> (Inl (if e = SqliteError then LedgerUnavailable else e), read_on s)
        | None \<Rightarrow>
            run_state (thenE (audit E (transition_audit a ''gas-only call reserved''))
                (ok (to_row (new_row (keccak E) a (now_at E s) (db s)))))
              ((read_on s)\<lparr>db := commit_insert (keccak E) a (now_at E s) (db s)\<rparr>))"
  using find_row_insert [OF assms]
  by (simp add: gas_finish_def gas_attempt_tx run_insert_tx run_fetch_row get_row_def split: option.splits)

lemma run_gas_revive:
  assumes "find_row (db s) (r_chain_id a) (r_escrow a) (r_receipt_id a) = Some r"
  shows "run_state (gas_finish E a limit now True) s =
     (if regressed E s then (Inl ClockRegression, read_on s)
      else case revive_fault False a (db s) of
          Some e \<Rightarrow> (Inl (if e = SqliteError then LedgerUnavailable else e), read_on s)
        | None \<Rightarrow>
            run_state (thenE (audit E (transition_audit a ''gas-only call reserved''))
                (ok (to_row (if revivable a r then revive_row False a (next_nonce (db s) (args_key a)) r else r))))
              ((read_on s)\<lparr>db := commit_revive False a (now_at E s) (db s)\<rparr>))"
  using find_row_revive [OF assms]
  by (simp add: gas_finish_def gas_attempt_tx run_revive_tx run_fetch_row get_row_def split: option.splits)

lemma run_audited:
  assumes "run_state (thenE (audit E f) (ok x)) s = (Inr y, s')"
  shows "y = x \<and> spend (db s') = spend (db s) \<and> nonce_alloc (db s') = nonce_alloc (db s)"
  using assms by (auto dest!: run_audit_spend split: prod.splits sum.splits)

lemma run_audited_fails:
  assumes "run_state (thenE (audit E f) (ok x)) s = (Inl e, s')"
  shows "e = ClockRegression \<or> e = OverflowError"
  using assms by (auto dest!: audit_raises split: prod.splits sum.splits)

lemma gas_success:
  assumes run: "run_state (reserve_gas_only E c args limit) s = (Inr row, s')"
  obtains
    (inserted) w where "w = stamp_time E s" "gas_breach (db s) c (gas_args args) limit (cut_time E s) = None"
      "find_row (db s) (r_chain_id args) (r_escrow args) (r_receipt_id args) = None"
      "spend (db s') = spend (commit_insert (keccak E) (gas_args args) w (db s))"
      "nonce_alloc (db s') = nonce_alloc (commit_insert (keccak E) (gas_args args) w (db s))"
      "row = to_row (new_row (keccak E) (gas_args args) w (db s))"
  | (revived) w r where "gas_breach (db s) c (gas_args args) limit (cut_time E s) = None"
      "find_row (db s) (r_chain_id args) (r_escrow args) (r_receipt_id args) = Some r" "row_state r = Dead"
      "revive_fault False (gas_args args) (db s) = None"
      "spend (db s') = spend (commit_revive False (gas_args args) w (db s))"
      "nonce_alloc (db s') = nonce_alloc (commit_revive False (gas_args args) w (db s))"
      "row = to_row (if revivable (gas_args args) r
         then revive_row False (gas_args args) (next_nonce (db s) (args_key args)) r else r)"
proof -
  let ?a = "gas_args args" and ?s = "read_on (read_on s)"
  have pre: "\<not> regressed E s" "gas_breach (db s) c ?a limit (cut_time E s) = None"
    using run by (auto simp: run_reserve_gas_only Let_def split: if_splits option.splits)
  show thesis
  proof (cases "find_row (db s) (r_chain_id args) (r_escrow args) (r_receipt_id args)")
    case None
    then have at: "run_state (gas_finish E ?a limit (cut_time E s) False) ?s = (Inr row, s')"
      using run pre by (simp add: run_reserve_gas_only Let_def)
    have "find_row (db ?s) (r_chain_id ?a) (r_escrow ?a) (r_receipt_id ?a) = None" using None by simp
    note rule = run_gas_insert [OF this, of E limit "cut_time E s", unfolded at]
    have "run_state (thenE (audit E (transition_audit ?a ''gas-only call reserved''))
        (ok (to_row (new_row (keccak E) ?a (now_at E ?s) (db s)))))
        ((read_on ?s)\<lparr>db := commit_insert (keccak E) ?a (now_at E ?s) (db s)\<rparr>) = (Inr row, s')"
      using rule by (simp del: run_thenE split: if_splits option.splits)
    from run_audited [OF this] show thesis
      using inserted [of "now_at E ?s"] pre None unfolding stamp_time_def by simp
  next
    case (Some r)
    then have dead: "row_state r = Dead"
      and at: "run_state (gas_finish E ?a limit (cut_time E s) True) ?s = (Inr row, s')"
      using run pre by (auto simp: run_reserve_gas_only Let_def split: if_splits)
    have "find_row (db ?s) (r_chain_id ?a) (r_escrow ?a) (r_receipt_id ?a) = Some r" using Some by simp
    note rule = run_gas_revive [OF this, of E limit "cut_time E s", unfolded at]
    have fault: "revive_fault False ?a (db s) = None"
      using rule by (simp del: run_thenE split: if_splits option.splits)
    have "run_state (thenE (audit E (transition_audit ?a ''gas-only call reserved''))
        (ok (to_row (if revivable ?a r then revive_row False ?a (next_nonce (db s) (args_key ?a)) r else r))))
        ((read_on ?s)\<lparr>db := commit_revive False ?a (now_at E ?s) (db s)\<rparr>) = (Inr row, s')"
      using rule fault by (simp del: run_thenE split: if_splits)
    from run_audited [OF this] show thesis
      using revived [OF pre(2) Some dead fault, of "now_at E ?s"] by simp
  qed
qed

section \<open>Caps and refusals of a gas-only reservation\<close>

lemma gas_breach_None:
  assumes "gas_breach d c a limit now = None"
  shows "limit = - 1 \<or> gas_only_count d (r_chain_id a) (r_escrow a) (now - 86400) + 1 \<le> limit"
    "fee_wei_24h c = - 1 \<or> fee_wei_window d (r_chain_id a) (r_escrow a) (now - 86400)
       + r_max_fee_wei a * r_gas_limit a \<le> fee_wei_24h c"
  using assms by (auto simp: gas_breach_def Let_def split: if_splits)

lemma gas_guard_holds: "gas_breach d c a limit now = None \<Longrightarrow> gas_guard d a limit now"
  using gas_breach_None(1) by (simp add: gas_guard_def)

lemma gas_breach_name:
  "gas_breach d c a limit now = Some name \<Longrightarrow> name = ''cap_gas_only_24h'' \<or> name = ''cap_fee_wei_24h''"
  by (auto simp: gas_breach_def Let_def split: if_splits)

lemma gas_count_after_revive:
  assumes "length (filter (revivable a) (spend d)) = 1" "spend d' = revive_rows hint a n (spend d)"
  shows "gas_only_count d' c e since \<le> gas_only_count d c e since + 1"
  unfolding gas_only_count_def assms(2)
  by (rule count_after_revive [OF assms(1)]) (auto dest: in_window_counted)

lemma gas_failure:
  assumes run: "run_state (reserve_gas_only E c args limit) s = (Inl e, s')"
  shows "e = ClockRegression \<or> e = OverflowError \<or> e = LedgerUnavailable \<and> db s' = db s
    \<or> (\<exists>name. e = CapBreach name \<and> gas_breach (db s) c (gas_args args) limit (cut_time E s) = Some name
              \<and> db s' = db s)"
proof (cases "regressed E s \<or> gas_breach (db s) c (gas_args args) limit (cut_time E s) \<noteq> None")
  case True
  then show ?thesis using run by (auto simp: run_reserve_gas_only Let_def split: if_splits)
next
  case False
  note pre = False
  let ?a = "gas_args args" and ?s = "read_on (read_on s)"
  show ?thesis
  proof (cases "find_row (db s) (r_chain_id args) (r_escrow args) (r_receipt_id args)")
    case None
    then have "run_state (gas_finish E ?a limit (cut_time E s) False) ?s = (Inl e, s')"
      using run pre by (simp add: run_reserve_gas_only Let_def)
    moreover have "find_row (db ?s) (r_chain_id ?a) (r_escrow ?a) (r_receipt_id ?a) = None"
      using None by simp
    moreover have "gas_guard (db s) ?a limit (cut_time E s)" using pre gas_guard_holds by (metis (no_types))
    ultimately show ?thesis
      using insert_fault_guarded run_audited_fails
      by (fastforce simp: run_gas_insert simp del: run_thenE split: if_splits option.splits)
  next
    case (Some r)
    show ?thesis
    proof (cases "row_state r = Dead")
      case False
      then show ?thesis using run pre Some by (auto simp: run_reserve_gas_only Let_def)
    next
      case True
      then have "run_state (gas_finish E ?a limit (cut_time E s) True) ?s = (Inl e, s')"
        using run pre Some by (simp add: run_reserve_gas_only Let_def)
      moreover have "find_row (db ?s) (r_chain_id ?a) (r_escrow ?a) (r_receipt_id ?a) = Some r"
        using Some by simp
      ultimately show ?thesis
        using revive_fault_Some run_audited_fails
        by (fastforce simp: run_gas_revive simp del: run_thenE split: if_splits option.splits)
    qed
  qed
qed

section \<open>Giving up a row\<close>

lemma mark_dead_success:
  assumes "run_state (mark_dead E row reason) s = (Inr u, s')"
  shows "spend (db s') = update_rows row Dead (no_updates\<lparr>u_dead_reason := Some reason\<rparr>) (spend (db s))"
    "attempts (db s') = attempts (db s)"
    "nonce_alloc (db s') = (case unsigned_row (db s) row of None \<Rightarrow> nonce_alloc (db s)
       | Some held \<Rightarrow> nonce_alloc (return_nonce (chain_id row, from_addr held) (account_nonce held)
           ((db s)\<lparr>max_seq := max_seq (db s')\<rparr>)))"
proof -
  let ?u = "no_updates\<lparr>u_dead_reason := Some reason\<rparr>"
  obtain x t where set: "run_state (set_state E row Dead ?u) s = (Inr x, t)"
    using assms by (auto simp: run_mark_dead split: prod.splits sum.splits)
  note rows = run_set_state_spend [OF set]
  have s': "s' = (case unsigned_row (db s) row of None \<Rightarrow> t
      | Some held \<Rightarrow> t\<lparr>db := return_nonce (chain_id row, from_addr held) (account_nonce held) (db t)\<rparr>)"
    using assms set by (auto simp: run_mark_dead split: option.splits)
  show "spend (db s') = update_rows row Dead ?u (spend (db s))"
    using s' rows by (simp split: option.splits)
  show "attempts (db s') = attempts (db s)"
    using s' rows by (simp split: option.splits)
  show "nonce_alloc (db s') = (case unsigned_row (db s) row of None \<Rightarrow> nonce_alloc (db s)
       | Some held \<Rightarrow> nonce_alloc (return_nonce (chain_id row, from_addr held) (account_nonce held)
           ((db s)\<lparr>max_seq := max_seq (db s')\<rparr>)))"
    using s' rows by (auto simp: return_nonce_def split: option.splits)
qed

lemma unsigned_no_attempt:
  assumes "unsigned_row d row = Some held" "a \<in> set (attempts d)" "at_chain_id a = chain_id row"
  shows "at_account_nonce a \<noteq> account_nonce held"
  using assms by (auto simp: unsigned_row_def dest: find_None_mem split: option.splits if_splits)

end
