(* ===== verification/Ledger_Props.thy ===== *)
theory Ledger_Props
  imports Ledger_Gas
begin

text \<open>
  The properties of the books, with a small deployment on which each is exercised.
\<close>

section \<open>A deployment to exercise the properties on\<close>

definition sample_env :: ledger_env where
  "sample_env =
     \<lparr>keccak = (\<lambda>_. replicate 32 0), clock = (\<lambda>n. 1000000 + of_nat n), witness_path = [],
      witness_opens = (\<lambda>_. True)\<rparr>"

definition new_books :: books where
  "new_books = \<lparr>db = empty_db, clock_reads = 0, witness_lines = [], witness_tries = 0\<rparr>"

definition sample_caps :: caps where
  "sample_caps = spend_caps sample_settings"

definition sample_args :: reserve_args where
  "sample_args =
     \<lparr>r_chain_id = 8453, r_escrow = ''0xe5'', r_receipt_id = ''0x01'', r_channel_id = ''0xc1'',
      r_depositor = ''0xd0'', r_token = ''0x70'', r_amount = 10000, r_deadline = 2000000,
      r_channel_nonce = 0, r_calldata_keccak = ''0xca'', r_to_addr = ''0xe5'', r_gas_limit = 100000,
      r_hub_gas_hint = 100000, r_max_fee_wei = 1000, r_from_addr = ''0xad''\<rparr>"

definition reserved_books :: books where
  "reserved_books = snd (run_state (reserve sample_env sample_caps sample_args) new_books)"

lemma sample_reserve:
  "(case run_state (reserve sample_env sample_caps sample_args) new_books of
      (Inr row, s') \<Rightarrow> account_nonce row = 0 \<and> amount_units row = 10000 \<and> row_state row = Reserved
    | (Inl e, s') \<Rightarrow> False)"
  by code_simp

definition reserved_row :: spend_row where
  "reserved_row =
     \<lparr>chain_id = 8453, escrow = ''0xe5'', receipt_id = ''0x01'', seq = 1, ts = 1000002,
      channel_id = ''0xc1'', depositor = ''0xd0'', token = ''0x70'', amount_units = 10000,
      deadline = 2000000, channel_nonce = 0, calldata_keccak = ''0xca'', to_addr = ''0xe5'',
      gas_limit = 100000, hub_gas_hint = 100000, max_fee_wei = 1000, account_nonce = 0,
      from_addr = ''0xad'', row_state = Reserved, tx_hash = [], fee_wei_spent = 0, dead_reason = []\<rparr>"

lemma reserve_sample:
  "run_state (reserve sample_env sample_caps sample_args) new_books = (Inr reserved_row, reserved_books)"
proof -
  have "fst (run_state (reserve sample_env sample_caps sample_args) new_books) = Inr reserved_row"
    by code_simp
  then show ?thesis by (simp add: reserved_books_def prod_eq_iff)
qed

section \<open>Reservations\<close>

text \<open>What a reservation adds to each window, in the order of \<open>window_totals\<close>.\<close>

definition window_adds :: "reserve_args \<Rightarrow> int list" where
  "window_adds a = [r_amount a, r_amount a, r_amount a, r_amount a, 1, 1, 1]"

definition with_adds :: "(int \<times> int) list \<Rightarrow> int list \<Rightarrow> (int \<times> int) list" where
  "with_adds totals xs = map2 (\<lambda>(limit, total) x. (limit, total + x)) totals xs"

lemma room_before:
  assumes "first_breach d c a now = None"
  shows "list_all cap_holds (with_adds (window_totals d c a now) (window_adds a))"
  using no_breach_limits(2-8) [OF assms]
  by (simp add: with_adds_def window_totals_def window_adds_def cap_holds_def)

lemma totals_insert:
  assumes "spend d' = spend d @ [new_row H a w d]" "now - 600 < w"
  shows "window_totals d' c a now = with_adds (window_totals d c a now) (window_adds a)"
proof -
  have "in_window (r_chain_id a) (r_escrow a) since (new_row H a w d)" if "since \<le> now - 600" for since
    using that assms(2) by (simp add: in_window_def counted_def)
  then show ?thesis
    by (simp add: with_adds_def window_totals_def window_adds_def window_defs assms(1))
qed

text \<open>
  C7. When \<open>reserve\<close> succeeds, every rolling window had room for the new amount and is within its cap
  afterwards: tokens over 10 minutes, 1 hour and 24 hours, tokens per channel, transactions per hour,
  per day and per channel; the amount itself is positive and within the per-transaction cap. Of a
  receipt the books do not know, each window then counts exactly that amount and that transaction more
  (unless the clock went back ten minutes between the check and the row's time stamp).
\<close>

theorem reserve_within_caps:
  assumes "run_state (reserve E c a) s = (Inr row, s')"
  shows "list_all cap_holds (with_adds (window_totals (db s) c a (cut_time E s)) (window_adds a))
    \<and> list_all cap_holds (window_totals (db s') c a (cut_time E s))
    \<and> 0 < r_amount a \<and> (units_per_tx c = - 1 \<or> r_amount a \<le> units_per_tx c)
    \<and> (get_row (db s) (r_chain_id a) (r_escrow a) (r_receipt_id a) = None \<and> cut_time E s - 600 < stamp_time E s
       \<longrightarrow> window_totals (db s') c a (cut_time E s)
           = with_adds (window_totals (db s) c a (cut_time E s)) (window_adds a))"
  using assms
proof (cases rule: reserve_success)
  case (inserted w)
  have rows: "spend (db s') = spend (db s) @ [new_row (keccak E) a w (db s)]" by (simp add: inserted(5))
  show ?thesis
    using within_after [OF inserted(3), where d' = "db s'" and r = "new_row (keccak E) a w (db s)"] rows inserted(1,2)
      room_before [OF inserted(3)] no_breach_limits(1) [OF inserted(3)] totals_insert [OF rows] by simp
next
  case (revived w r)
  then show ?thesis
    using within_after [OF revived(2), where d' = "db s'" and hint = True and n = "next_nonce (db s) (args_key a)"]
      revive_fault_None [OF revived(5)] room_before [OF revived(2)] no_breach_limits(1) [OF revived(2)] by simp
qed

theorem reserve_within_caps_witness:
  "window_totals (db reserved_books) sample_caps sample_args (cut_time sample_env new_books)
     = with_adds (window_totals (db new_books) sample_caps sample_args (cut_time sample_env new_books))
         (window_adds sample_args)
   \<and> list_all cap_holds (window_totals (db reserved_books) sample_caps sample_args (cut_time sample_env new_books))"
proof -
  have "get_row (db new_books) 8453 ''0xe5'' ''0x01'' = None"
    by (simp add: new_books_def empty_db_def find_row_def)
  moreover have "cut_time sample_env new_books - 600 < stamp_time sample_env new_books"
    by (simp add: cut_time_def stamp_time_def now_at_def read_on_def sample_env_def new_books_def py_trunc_def)
  ultimately show ?thesis
    using reserve_within_caps [OF reserve_sample] by (simp add: sample_args_def)
qed

lemma distinct_channels_insert:
  assumes "spend d' = spend d @ [r]"
  shows "distinct_channels d' c e since =
     (if in_window c e since r \<and> channel_count d c e (channel_id r) since = 0
      then distinct_channels d c e since + 1 else distinct_channels d c e since)"
proof -
  let ?cs = "map channel_id (filter (in_window c e since) (spend d))"
  have "channel_count d c e (channel_id r) since = 0 \<longleftrightarrow> channel_id r \<notin> set ?cs"
    by (auto simp: channel_count_def filter_empty_conv image_iff)
  moreover have "length (remdups (xs @ [x])) = (if x \<in> set xs then length (remdups xs) else length (remdups xs) + 1)"
    for xs :: "string list" and x
    by (simp add: length_remdups_card_conv insert_absorb)
  ultimately show ?thesis using assms by (simp add: distinct_channels_def)
qed

text \<open>
  A reservation of a receipt the books do not know also leaves the 24 h fee window within its
  cap, counting its own worst case \<open>max_fee_wei * gas_limit\<close>, and never raises the number of
  distinct channels of the day above its cap.
\<close>

theorem reserve_fee_and_channels:
  assumes "run_state (reserve E c a) s = (Inr row, s')"
    and "get_row (db s) (r_chain_id a) (r_escrow a) (r_receipt_id a) = None"
    and "0 \<le> r_max_fee_wei a * r_gas_limit a"
  shows "cap_holds (fee_wei_24h c, fee_wei_window (db s') (r_chain_id a) (r_escrow a) (cut_time E s - 86400))
    \<and> (cap_holds (distinct_channels_24h c, distinct_channels (db s') (r_chain_id a) (r_escrow a) (cut_time E s - 86400))
       \<or> distinct_channels (db s') (r_chain_id a) (r_escrow a) (cut_time E s - 86400)
           = distinct_channels (db s) (r_chain_id a) (r_escrow a) (cut_time E s - 86400))"
  using assms(1)
proof (cases rule: reserve_success)
  case (inserted w)
  let ?c = "r_chain_id a" and ?e = "r_escrow a" and ?since = "cut_time E s - 86400"
  let ?r = "new_row (keccak E) a w (db s)"
  have rows: "spend (db s') = spend (db s) @ [?r]" by (simp add: inserted)
  have fee: "fee_wei_window (db s') ?c ?e ?since
      \<le> fee_wei_window (db s) ?c ?e ?since + r_max_fee_wei a * r_gas_limit a"
    using assms(3) by (simp add: fee_wei_window_def rows row_fee_def)
  have channels: "\<not> channels_breach (db s) c a (cut_time E s)" by (rule no_breach_limits(10) [OF inserted(3)])
  show ?thesis
    using fee no_breach_limits(9) [OF inserted(3)] channels distinct_channels_insert [OF rows]
    by (simp add: cap_holds_def channels_breach_def) linarith
next
  case (revived w r)
  then show ?thesis using assms(2) by simp
qed

theorem reserve_fee_and_channels_witness:
  "cap_holds (fee_wei_24h sample_caps,
     fee_wei_window (db reserved_books) 8453 ''0xe5'' (cut_time sample_env new_books - 86400))"
  using reserve_fee_and_channels [OF reserve_sample]
  by (simp add: sample_args_def new_books_def empty_db_def get_row_def find_row_def)

text \<open>
  C20. A refused \<open>reserve\<close> changes no table, whatever refused it: a cap, a live row, a constraint, an
  integer that does not fit in 64 bits. The tick, the nonce row and everything else of the attempt are
  rolled back. (A clock regression sets the halt flag; the wall clock and the recorded one are taken
  to fit in 64 bits themselves, or the record written after a revival may fail on its own time.)
\<close>

theorem reserve_refusal_unchanged:
  assumes "run_state (reserve E c a) s = (Inl e, s')" "e \<noteq> ClockRegression" "clock_fits E (db s)"
  shows "db s' = db s"
  using reserve_failure [OF assms(1)] assms(2,3) by auto

definition wide_args :: reserve_args where
  "wide_args = sample_args\<lparr>r_channel_nonce := 2 ^ 63\<rparr>"

lemma sql_int_between: "- (2 ^ 63) \<le> i \<Longrightarrow> i < 2 ^ 63 \<Longrightarrow> sql_int i"
  by (simp add: sql_int_def)

definition stopped_env :: ledger_env where
  "stopped_env = sample_env\<lparr>clock := \<lambda>_. 1000000\<rparr>"

theorem reserve_refusal_unchanged_witness:
  "\<exists>s'. run_state (reserve stopped_env sample_caps wide_args) new_books = (Inl OverflowError, s') \<and> db s' = empty_db"
proof -
  have "(case fst (run_state (reserve stopped_env sample_caps wide_args) new_books) of
      Inl e \<Rightarrow> e = OverflowError | Inr r \<Rightarrow> False)"
    by code_simp
  then obtain s' where run: "run_state (reserve stopped_env sample_caps wide_args) new_books = (Inl OverflowError, s')"
    by (cases "run_state (reserve stopped_env sample_caps wide_args) new_books") (auto split: sum.splits)
  have "clock_fits stopped_env (db new_books)"
    by (simp add: clock_fits_def stopped_env_def new_books_def empty_db_def py_trunc_def sql_int_def)
  from reserve_refusal_unchanged [OF run _ this] show ?thesis using run by (simp add: new_books_def)
qed

lemma full_insert_refused:
  assumes "find_row (db s) (r_chain_id a) (r_escrow a) (r_receipt_id a) = None" "\<not> insert_guard (db s) c a now"
    "\<not> regressed E s" "insert_ints_ok c a (next_nonce (db s) (args_key a)) now"
    "sql_int (max_seq (db s) + 1)" "sql_int (max (now_at E s) (max_ts (db s)))"
  shows "run_state (reserve_insert E c a now) s = (Inl (CapBreach ''cap_race''), read_on s)"
  using assms by (simp add: run_reserve_insert insert_fault_def)

lemma full_gas_refused:
  assumes "\<not> gas_guard (db s) a limit now"
    "\<not> regressed E s" "gas_ints_ok a (next_nonce (db s) (args_key a)) limit now"
    "sql_int (max_seq (db s) + 1)" "sql_int (max (now_at E s) (max_ts (db s)))"
  shows "run_state (gas_attempt E a limit now False) s = (Inl (CapBreach ''cap_race''), read_on s)"
  using assms by (simp add: gas_attempt_tx run_insert_tx insert_fault_def)

text \<open>
  C21. The guard in the \<open>WHERE\<close> clause of the \<open>INSERT\<close> repeats the checks made before it. As long as no other
  writer commits between the two (the ledger's lock, one process per file), no reservation of either
  kind is refused as \<open>cap_race\<close>: the cap a refusal names is one the books themselves breach. And if
  another writer has used up the room in between, so that the guard fails on the tables \<open>t\<close> the
  transaction finds, the transaction is refused as \<open>cap_race\<close> and leaves them as they are.
\<close>

theorem cap_race_unreachable:
  shows "fst (run_state (reserve E c a) s) \<noteq> Inl (CapBreach ''cap_race'')
   \<and> fst (run_state (reserve_gas_only E c a limit) s) \<noteq> Inl (CapBreach ''cap_race'')
   \<and> (\<not> regressed E t \<and> sql_int (max_seq (db t) + 1) \<and> sql_int (max (now_at E t) (max_ts (db t))) \<longrightarrow>
      (find_row (db t) (r_chain_id a) (r_escrow a) (r_receipt_id a) = None \<and> \<not> insert_guard (db t) c a now
         \<and> insert_ints_ok c a (next_nonce (db t) (args_key a)) now
         \<longrightarrow> run_state (reserve_insert E c a now) t = (Inl (CapBreach ''cap_race''), read_on t))
      \<and> (\<not> gas_guard (db t) a limit now \<and> gas_ints_ok a (next_nonce (db t) (args_key a)) limit now
         \<longrightarrow> run_state (gas_attempt E a limit now False) t = (Inl (CapBreach ''cap_race''), read_on t)))"
proof (intro conjI notI impI)
  assume "fst (run_state (reserve E c a) s) = Inl (CapBreach ''cap_race'')"
  then obtain s' where "run_state (reserve E c a) s = (Inl (CapBreach ''cap_race''), s')"
    by (metis prod.collapse)
  from reserve_failure [OF this] have "first_breach (db s) c a (cut_time E s) = Some ''cap_race''" by auto
  from breach_name [OF this] show False by (simp add: cap_checks_def Let_def)
next
  assume "fst (run_state (reserve_gas_only E c a limit) s) = Inl (CapBreach ''cap_race'')"
  then obtain s' where "run_state (reserve_gas_only E c a limit) s = (Inl (CapBreach ''cap_race''), s')"
    by (metis prod.collapse)
  from gas_failure [OF this] have
    "gas_breach (db s) c (gas_args a) limit (cut_time E s) = Some ''cap_race''" by auto
  from gas_breach_name [OF this] show False by simp
qed (use full_insert_refused full_gas_refused in blast)+

text \<open>Books filled by another writer after a check that found them empty.\<close>

theorem cap_race_unreachable_witness:
  "let a = sample_args\<lparr>r_receipt_id := ''0x02''\<rparr>; c = sample_caps\<lparr>tx_24h := 1\<rparr> in
   first_breach (db new_books) c a 1000001 = None
   \<and> run_state (reserve_insert sample_env c a 1000001) reserved_books = (Inl (CapBreach ''cap_race''), read_on reserved_books)"
proof -
  let ?a = "sample_args\<lparr>r_receipt_id := ''0x02''\<rparr>" and ?c = "sample_caps\<lparr>tx_24h := 1\<rparr>" and ?E = sample_env
  have "first_breach (db new_books) ?c ?a 1000001 = None" by code_simp
  moreover have "find_row (db reserved_books) 8453 ''0xe5'' ''0x02'' = None" by code_simp
  moreover have "\<not> insert_guard (db reserved_books) ?c ?a 1000001" by code_simp
  moreover have "insert_ints_ok ?c ?a (next_nonce (db reserved_books) (args_key ?a)) 1000001" by code_simp
  moreover have "\<not> regressed ?E reserved_books" by code_simp
  moreover have "sql_int (max_seq (db reserved_books) + 1)
      \<and> sql_int (max (now_at ?E reserved_books) (max_ts (db reserved_books)))" by code_simp
  ultimately show ?thesis
    using cap_race_unreachable [of ?E ?c ?a new_books 0 reserved_books 1000001]
    by (simp add: Let_def sample_args_def)
qed

text \<open>
  C34. A wall clock more than \<open>CLOCK_TOLERANCE_S\<close> behind the newest recorded time refuses both
  reservations, touches no row, and halts the books; only \<open>clear_halt\<close> lifts the halt.
\<close>

theorem clock_regression_halts:
  assumes "now_at E s < max_ts (db s) - CLOCK_TOLERANCE_S" "0 < r_amount a"
  shows "\<exists>s'. run_state (reserve E c a) s = (Inl ClockRegression, s')
    \<and> run_state (reserve_gas_only E c a limit) s = (Inl ClockRegression, s')
    \<and> halted (db s') = regression_reason (now_at E s) (max_ts (db s)) \<and> halted (db s') \<noteq> []
    \<and> spend (db s') = spend (db s) \<and> nonce_alloc (db s') = nonce_alloc (db s)
    \<and> max_ts (db s') = max_ts (db s)"
  using assms
  by (intro exI [of _ "halted_on E s"])
    (simp add: run_reserve run_reserve_gas_only regressed_def halted_on_def halt_db_def halted_def
      regression_reason_def)

theorem clock_regression_halts_witness:
  "\<exists>s'. run_state (reserve (sample_env\<lparr>clock := \<lambda>_. 5\<rparr>) sample_caps sample_args)
          (new_books\<lparr>db := empty_db\<lparr>max_ts := 100\<rparr>\<rparr>) = (Inl ClockRegression, s') \<and> halted (db s') \<noteq> []"
  using clock_regression_halts [of "sample_env\<lparr>clock := \<lambda>_. 5\<rparr>" "new_books\<lparr>db := empty_db\<lparr>max_ts := 100\<rparr>\<rparr>" sample_args sample_caps 0]
  by (auto simp: now_at_def CLOCK_TOLERANCE_S_def new_books_def py_trunc_def sample_args_def)

lemma revive_split:
  assumes "rows_ok d" "find_row d (r_chain_id a) (r_escrow a) (r_receipt_id a) = Some r" "revivable a r"
  obtains xs ys where "spend d = xs @ r # ys" "revive_rows hint a n (spend d) = xs @ revive_row hint a n r # ys"
proof -
  obtain xs ys where split: "spend d = xs @ r # ys"
    using find_row_Some(1) [OF assms(2)] by (meson split_list)
  have "\<not> revivable a x" if "x \<in> set (xs @ ys)" for x
  proof
    assume "revivable a x"
    then have "row_key x = row_key r" using assms(3) by (simp add: revivable_def keyed_def row_key_def)
    moreover have "distinct (map row_key (xs @ r # ys))" using assms(1) split by (simp add: rows_ok_def)
    ultimately show False using that by auto (metis image_eqI)+
  qed
  then have "revive_rows hint a n (spend d) = xs @ revive_row hint a n r # ys"
    using assms(3) by (simp add: revive_rows_def split map_idI)
  with split show thesis by (rule that)
qed

text \<open>
  C33. When \<open>reserve_gas_only\<close> succeeds, the last 24 hours as the ledger counts them had room for one more
  call without tokens and hold at most \<open>limit\<close> of them afterwards (\<open>-1\<close> switches the cap off). A call is
  counted at the time of its row: the reading of this reservation if the row is new, but the time of
  the first reservation if a dead row is revived, so a retry of an old row is not counted at all.
\<close>

theorem gas_only_within_limit:
  assumes "run_state (reserve_gas_only E c a limit) s = (Inr row, s')" "rows_ok (db s)"
  shows "cap_holds (limit, gas_only_count (db s) (r_chain_id a) (r_escrow a) (cut_time E s - 86400) + 1)
    \<and> cap_holds (limit, gas_only_count (db s') (r_chain_id a) (r_escrow a) (cut_time E s - 86400))
    \<and> gas_only_count (db s') (r_chain_id a) (r_escrow a) (cut_time E s - 86400)
        = gas_only_count (db s) (r_chain_id a) (r_escrow a) (cut_time E s - 86400)
          + (if cut_time E s - 86400 < ts row then 1 else 0)
    \<and> amount_units row = 0 \<and> row_state row = Reserved
    \<and> ts row = (case get_row (db s) (r_chain_id a) (r_escrow a) (r_receipt_id a) of
         None \<Rightarrow> max (stamp_time E s) (max_ts (db s)) | Some held \<Rightarrow> ts held)"
  using assms(1)
proof (cases rule: gas_success)
  case (inserted w)
  let ?r = "new_row (keccak E) (gas_args a) w (db s)" and ?since = "cut_time E s - 86400"
  have rows: "spend (db s') = spend (db s) @ [?r]" using inserted(4) by simp
  have "in_window (r_chain_id a) (r_escrow a) ?since ?r \<longleftrightarrow> ?since < ts ?r"
    by (simp add: in_window_def counted_def)
  then have count: "gas_only_count (db s') (r_chain_id a) (r_escrow a) ?since
      = gas_only_count (db s) (r_chain_id a) (r_escrow a) ?since + (if ?since < ts ?r then 1 else 0)"
    by (simp add: gas_only_count_def rows)
  show ?thesis
    using count inserted(1,3,6) gas_breach_None(1) [OF inserted(2)]
    by (auto simp: cap_holds_def get_row_def to_row_def spend_row.truncate_def)
next
  case (revived w r)
  let ?a = "gas_args a" and ?n = "next_nonce (db s) (args_key a)" and ?since = "cut_time E s - 86400"
  have able: "revivable ?a r" by (rule revivable_found [OF assms(2) _ revived(4)]) (simp add: revived(2))
  have found: "find_row (db s) (r_chain_id ?a) (r_escrow ?a) (r_receipt_id ?a) = Some r" using revived(2) by simp
  obtain xs ys where split: "spend (db s) = xs @ r # ys"
    "revive_rows False ?a (next_nonce (db s) (args_key ?a)) (spend (db s)) = xs @ revive_row False ?a (next_nonce (db s) (args_key ?a)) r # ys"
    by (rule revive_split [OF assms(2) found able])
  have rows: "spend (db s') = xs @ revive_row False ?a (next_nonce (db s) (args_key ?a)) r # ys"
    using revived(5) split(2) by simp
  have "in_window (r_chain_id a) (r_escrow a) ?since (revive_row False ?a n r) \<longleftrightarrow> ?since < ts r" for n
    using able by (simp add: in_window_def counted_def revive_row_def revivable_def keyed_def)
  moreover have "\<not> in_window (r_chain_id a) (r_escrow a) ?since r" "amount_units (revive_row False ?a n r) = 0" for n
    using able by (auto simp: in_window_def counted_def revive_row_def revivable_def)
  ultimately have count: "gas_only_count (db s') (r_chain_id a) (r_escrow a) ?since
      = gas_only_count (db s) (r_chain_id a) (r_escrow a) ?since + (if ?since < ts r then 1 else 0)"
    by (simp add: gas_only_count_def rows split(1))
  have row: "row = to_row (revive_row False ?a ?n r)" using revived(7) able by simp
  have "ts row = ts r" "amount_units row = 0" "row_state row = Reserved"
    using able by (simp_all add: row to_row_def spend_row.truncate_def revive_row_def revivable_def)
  then show ?thesis
    using count revived(2) gas_breach_None(1) [OF revived(1)]
    by (auto simp: cap_holds_def get_row_def to_row_def spend_row.truncate_def)
qed

definition gas_books :: books where
  "gas_books = snd (run_state (reserve_gas_only sample_env sample_caps sample_args 24) new_books)"

lemma gas_sample:
  "\<exists>row. run_state (reserve_gas_only sample_env sample_caps sample_args 24) new_books = (Inr row, gas_books)"
proof -
  have "(case fst (run_state (reserve_gas_only sample_env sample_caps sample_args 24) new_books) of
      Inr row \<Rightarrow> True | Inl e \<Rightarrow> False)"
    by code_simp
  then show ?thesis by (auto simp: gas_books_def prod_eq_iff split: sum.splits)
qed

lemma empty_rows_ok: "rows_ok empty_db"
  using empty_wf [of undefined undefined] by (simp add: book_wf_def)

theorem gas_only_within_limit_witness:
  "gas_only_count (db gas_books) 8453 ''0xe5'' (cut_time sample_env new_books - 86400) = 1"
proof -
  obtain row where run: "run_state (reserve_gas_only sample_env sample_caps sample_args 24) new_books = (Inr row, gas_books)"
    using gas_sample by blast
  have "rows_ok (db new_books)" by (simp add: new_books_def empty_rows_ok)
  moreover have "get_row (db new_books) 8453 ''0xe5'' ''0x01'' = None"
    by (simp add: new_books_def empty_db_def find_row_def)
  moreover have "cut_time sample_env new_books - 86400 < max (stamp_time sample_env new_books) (max_ts (db new_books))"
    by (simp add: cut_time_def stamp_time_def now_at_def read_on_def sample_env_def new_books_def py_trunc_def empty_db_def)
  moreover have "gas_only_count (db new_books) 8453 ''0xe5'' n = 0" for n
    by (simp add: gas_only_count_def new_books_def empty_db_def)
  ultimately show ?thesis
    using gas_only_within_limit [OF run] by (simp add: sample_args_def get_row_def)
qed

text \<open>
  C8. What a successful \<open>reserve\<close> hands out: the row the books now hold for that receipt, reserved
  for exactly the asked amount, with the allocator's next account nonce, which the allocator then
  steps past. A second reservation of a receipt that is not dead is refused.
\<close>

theorem reserve_hands_out_next_nonce:
  assumes "rows_ok (db s)" "run_state (reserve E c a) s = (Inr row, s')"
  shows "get_row (db s') (r_chain_id a) (r_escrow a) (r_receipt_id a) = Some row
    \<and> row_state row = Reserved \<and> amount_units row = r_amount a
    \<and> account_nonce row = next_nonce (db s) (args_key a)
    \<and> next_nonce (db s') (args_key a) = next_nonce (db s) (args_key a) + 1
    \<and> (\<forall>held. get_row (db s) (r_chain_id a) (r_escrow a) (r_receipt_id a) = Some held \<longrightarrow> row_state held = Dead)"
  using assms(2)
proof (cases rule: reserve_success)
  case (inserted w)
  then show ?thesis
    using find_row_insert [OF inserted(4), of "keccak E" w]
    by (simp add: get_row_def to_row_def spend_row.truncate_def)
next
  case (revived w r)
  have able: "revivable a r" by (rule revivable_found [OF assms(1) revived(3,5)])
  have "find_row (db s') (r_chain_id a) (r_escrow a) (r_receipt_id a)
      = find_row (commit_revive True a w (db s)) (r_chain_id a) (r_escrow a) (r_receipt_id a)"
    using revived(6) by (simp add: find_row_def)
  moreover have "next_nonce (db s') (args_key a) = next_nonce (commit_revive True a w (db s)) (args_key a)"
    using revived(7) by (simp add: next_nonce_def)
  ultimately show ?thesis
    using revived able find_row_revive [OF revived(3), of True w]
    by (simp add: get_row_def to_row_def spend_row.truncate_def revive_row_def revivable_def)
qed

theorem reserve_hands_out_next_nonce_witness:
  "next_nonce (db reserved_books) (8453, ''0xad'') = 1 \<and> get_row (db reserved_books) 8453 ''0xe5'' ''0x01'' = Some reserved_row"
proof -
  have "rows_ok (db new_books)" by (simp add: new_books_def empty_rows_ok)
  from reserve_hands_out_next_nonce [OF this reserve_sample] show ?thesis
    by (simp add: sample_args_def args_key_def new_books_def empty_db_def next_nonce_def)
qed

section \<open>Giving up a row\<close>

text \<open>
  C13. \<open>mark_dead\<close> leaves the stored row dead, so it holds no budget, and moves the allocator of at
  most one key, back by exactly one: only onto a nonce that no row still alive holds and no
  recorded attempt on that chain carried, so a nonce that was ever signed and recorded is not handed out
  again by it.
\<close>

theorem mark_dead_returns_unsigned_nonce:
  assumes "rows_ok (db s)" "run_state (mark_dead E row reason) s = (Inr u, s')"
  shows "(\<forall>r \<in> set (spend (db s')). keyed (chain_id row) (escrow row) (receipt_id row) r \<longrightarrow> row_state r = Dead)
    \<and> (next_nonce (db s') k = next_nonce (db s) k
       \<or> next_nonce (db s') k = next_nonce (db s) k - 1 \<and> nonce_free k (next_nonce (db s') k) (db s')
         \<and> (\<forall>a \<in> set (attempts (db s')). at_chain_id a = fst k \<longrightarrow> at_account_nonce a \<noteq> next_nonce (db s') k))"
proof (intro conjI)
  note dead = mark_dead_success [OF assms(2)]
  show "\<forall>r \<in> set (spend (db s')). keyed (chain_id row) (escrow row) (receipt_id row) r \<longrightarrow> row_state r = Dead"
    using dead(1) by (auto simp: update_rows_def apply_updates_def keyed_def)
  show "next_nonce (db s') k = next_nonce (db s) k
       \<or> next_nonce (db s') k = next_nonce (db s) k - 1 \<and> nonce_free k (next_nonce (db s') k) (db s')
         \<and> (\<forall>a \<in> set (attempts (db s')). at_chain_id a = fst k \<longrightarrow> at_account_nonce a \<noteq> next_nonce (db s') k)"
  proof (cases "unsigned_row (db s) row")
    case None
    then have "nonce_alloc (db s') = nonce_alloc (db s)" using dead(3) by simp
    then show ?thesis by (simp add: next_nonce_def)
  next
    case (Some held)
    let ?k = "(chain_id row, from_addr held)" and ?n = "account_nonce held"
    have alloc: "next_nonce (db s') k = next_nonce (return_nonce ?k ?n ((db s)\<lparr>max_seq := max_seq (db s')\<rparr>)) k"
      using dead(3) Some by (simp add: next_nonce_def)
    have same: "next_nonce ((db s)\<lparr>max_seq := max_seq (db s')\<rparr>) k' = next_nonce (db s) k'" for k'
      by (simp add: next_nonce_def)
    have "nonce_free ?k ?n (db s')"
      using assms(1) unsigned_row_Some [OF Some] dead(1)
      by (intro dead_frees [where d = "db s"]) (auto simp: rows_ok_def)
    moreover have "\<forall>a \<in> set (attempts (db s')). at_chain_id a = fst ?k \<longrightarrow> at_account_nonce a \<noteq> ?n"
      using unsigned_no_attempt [OF Some] dead(2) by simp
    ultimately show ?thesis using alloc by (auto simp: next_nonce_return same)
  qed
qed

definition dead_books :: books where
  "dead_books = snd (run_state (mark_dead sample_env reserved_row ''simulation unavailable'') reserved_books)"

lemma mark_dead_sample:
  "run_state (mark_dead sample_env reserved_row ''simulation unavailable'') reserved_books = (Inr (), dead_books)"
proof -
  have "fst (run_state (mark_dead sample_env reserved_row ''simulation unavailable'') reserved_books) = Inr ()"
    by code_simp
  then show ?thesis by (simp add: dead_books_def prod_eq_iff)
qed

section \<open>Every history of the books\<close>

lemma reserved_reachable: "reachable_books sample_env reserved_books"
proof -
  have "run_state (run_call sample_env (Reserve sample_caps sample_args)) new_books = (Inr (), reserved_books)"
    using reserve_sample by simp
  moreover have "reachable_books sample_env new_books" by (simp add: new_books_def reachable_books.new_file)
  ultimately show ?thesis by (rule reachable_books.calls [rotated])
qed

theorem mark_dead_returns_unsigned_nonce_witness:
  "find (\<lambda>r. keyed 8453 ''0xe5'' ''0x01'' r \<and> row_state r \<noteq> Dead) (spend (db dead_books)) = None"
proof -
  have "rows_ok (db reserved_books)" using reachable_wf [OF reserved_reachable] unfolding book_wf_def by blast
  from mark_dead_returns_unsigned_nonce [OF this mark_dead_sample, of undefined]
  have "\<forall>r \<in> set (spend (db dead_books)). keyed 8453 ''0xe5'' ''0x01'' r \<longrightarrow> row_state r = Dead"
    unfolding reserved_row_def by (elim conjE) (simp only: spend_row.simps)
  then show ?thesis by (auto simp: find_None_iff)
qed

lemma sort_key_sorted: "sorted_wrt (<) (map f xs) \<Longrightarrow> sort_key f xs = xs" for f :: "'a \<Rightarrow> int"
  by (intro sort_key_id_if_sorted) (rule strict_sorted_imp_sorted)

text \<open>
  C9. Whatever calls the service has made, in whatever order and with whatever outcome (refusals,
  clock regressions, failed statements), the integrity check of the next boot passes, and the hash
  chains end in the stored heads. The revival of a dead row, which rewrites a stored row, included.
\<close>

theorem reachable_books_verify:
  assumes "reachable_books E s"
  shows "run_state (verify_chains E) s = (Inr (), s)
    \<and> verify_spend (keccak E) (db s) = Inr (spend_head (db s))
    \<and> verify_audit (keccak E) (db s) = Inr (audit_head (db s))"
proof -
  have wf: "rows_ok (db s)" "chains_ok (keccak E) (db s)"
    using reachable_wf [OF assms] unfolding book_wf_def by blast+
  then have "verify_spend (keccak E) (db s) = Inr (spend_head (db s))"
    "verify_audit (keccak E) (db s) = Inr (audit_head (db s))"
    by (simp_all add: verify_spend_def verify_audit_def rows_ok_def chains_ok_def sort_key_sorted)
  then show ?thesis by (simp add: verify_chains_def)
qed

theorem reachable_books_verify_witness:
  "run_state (verify_chains sample_env) reserved_books = (Inr (), reserved_books)"
  using reachable_books_verify [OF reserved_reachable] by blast

text \<open>
  C14. The books only grow: no call edits or removes a hashed column of a stored reservation or a
  stored audit row, and the recorded clock and the sequence never go back. Every stored row lies at
  or before them, the keys and the nonces of the rows alive are unique.
\<close>

theorem books_append_only:
  assumes "reachable_books E s" "run_state (run_call E c) s = (r, s')"
  shows "prefix (map row_core (spend (db s))) (map row_core (spend (db s')))
    \<and> prefix (audits (db s)) (audits (db s'))
    \<and> max_ts (db s) \<le> max_ts (db s') \<and> max_seq (db s) \<le> max_seq (db s')
    \<and> (\<forall>x \<in> set (spend (db s')). seq x \<le> max_seq (db s') \<and> ts x \<le> max_ts (db s'))
    \<and> spend_ok (spend (db s'))"
proof -
  have "rows_ok (db s')"
    using reachable_wf [OF reachable_books.calls [OF assms]] unfolding book_wf_def by blast
  moreover have "distinct xs" if "sorted_wrt (<) xs" for xs :: "int list"
    using that strict_sorted_iff by blast
  ultimately show ?thesis
    using reachable_appends [OF assms] unfolding append_only_def rows_ok_def spend_ok_def by blast
qed

theorem books_append_only_witness:
  "prefix (map row_core (spend (db reserved_books))) (map row_core (spend (db dead_books)))"
proof -
  have "run_state (run_call sample_env (MarkDead reserved_row ''simulation unavailable'')) reserved_books = (Inr (), dead_books)"
    by (simp only: run_call.simps mark_dead_sample)
  from books_append_only [OF reserved_reachable this] show ?thesis by blast
qed

end
