(* ===== verification/Ledger_History.thy ===== *)
theory Ledger_History
  imports Ledger_Props "HOL-Library.Multiset"
begin

text \<open>
  What the hash chains say about the past of the books, and three places where the code promises
  more than it does: truncation at the end of a chain, a crash between the two statements of
  \<open>audit\<close>, and the time a revived reservation counts from.
\<close>

section \<open>The two chains as instances of \<open>hash_chain\<close>\<close>

definition spend_keys :: "string list" where
  "spend_keys =
     [''chain_id'', ''escrow'', ''receipt_id'', ''seq'', ''ts'', ''channel_id'', ''depositor'', ''token'',
      ''amount_units'', ''deadline'', ''channel_nonce'', ''calldata_keccak'', ''to_addr'', ''from_addr'']"

definition audit_keys :: "string list" where
  "audit_keys =
     [''ts'', ''kind'', ''decision'', ''http_status'', ''reason_code'', ''chain_id'', ''escrow'',
      ''receipt_id'', ''channel_id'', ''amount_units'', ''digest16'', ''tx_hash'']"

interpretation spend_chain: hash_chain "spend_payload :: db_row \<Rightarrow> payload" row_tag spend_keys
  by unfold_locales (simp_all add: spend_payload_def spend_keys_def)

interpretation audit_chain: hash_chain audit_payload au_row_hash audit_keys
  by unfold_locales (simp_all add: audit_payload_def audit_keys_def)

text \<open>
  C22. Tamper evidence of the spend table: two books that both verify with the same head hold the
  same chained fields (receipt, channel, depositor, amount, deadline, addresses, sequence, time) in
  the same order, unless \<open>keccak\<close> collides on the bytes hashed.
\<close>

theorem spend_head_determines_rows:
  assumes "verify_spend H d = Inr h" "verify_spend H d' = Inr h"
    and "inj_on H (set (chain_inputs H spend_payload genesis (sort_key seq (spend d)))
                   \<union> set (chain_inputs H spend_payload genesis (sort_key seq (spend d'))))"
    and "\<And>x. length (H x) = 32"
  shows "map spend_payload (sort_key seq (spend d)) = map spend_payload (sort_key seq (spend d'))"
  using assms unfolding verify_spend_def by (rule spend_chain.verified_determines)

text \<open>The same for the audit log, whose head every boot row and every witness line records.\<close>

theorem audit_head_determines_log:
  assumes "verify_audit H d = Inr h" "verify_audit H d' = Inr h"
    and "inj_on H (set (chain_inputs H audit_payload genesis (sort_key au_seq (audits d)))
                   \<union> set (chain_inputs H audit_payload genesis (sort_key au_seq (audits d'))))"
    and "\<And>x. length (H x) = 32"
  shows "map audit_payload (sort_key au_seq (audits d)) = map audit_payload (sort_key au_seq (audits d'))"
  using assms unfolding verify_audit_def by (rule audit_chain.verified_determines)

theorem audit_head_determines_log_witness:
  "map audit_payload (sort_key au_seq (audits empty_db)) = map audit_payload (sort_key au_seq (audits (empty_db\<lparr>max_seq := 7\<rparr>)))"
  by (rule audit_head_determines_log [where H = "\<lambda>_. replicate 32 0" and h = genesis])
    (simp_all add: verify_audit_def empty_db_def)

section \<open>What the integrity check does not see\<close>

lemma verify_chain_take:
  assumes "verify_chain H payload tag g rs = Inr h"
  shows "\<exists>h'. verify_chain H payload tag g (take n rs) = Inr h'"
  using assms by (induction rs arbitrary: g n) (auto simp: Let_def take_Cons' split: if_splits)

text \<open>
  The check recomputes each link but never compares the last one with the stored head: books
  from which the newest reservations and the newest audit rows were removed pass it.
\<close>

theorem truncated_books_verify:
  assumes "reachable_books E s"
    and "db t = (db s)\<lparr>spend := take n (spend (db s)), audits := take m (audits (db s))\<rparr>"
  shows "run_state (verify_chains E) t = (Inr (), t)"
proof -
  have wf: "rows_ok (db s)" "chains_ok (keccak E) (db s)"
    using reachable_wf [OF assms(1)] unfolding book_wf_def by blast+
  have "sorted_wrt (<) (map seq (take n (spend (db s))))"
    using wf(1) unfolding rows_ok_def by (simp add: take_map [symmetric] sorted_wrt_take)
  moreover have "sorted_wrt (<) (map au_seq (take m (audits (db s))))"
    using wf(2) unfolding chains_ok_def by (simp add: take_map [symmetric] sorted_wrt_take)
  moreover obtain h where "verify_chain (keccak E) spend_payload row_tag genesis (take n (spend (db s))) = Inr h"
    using wf(2) verify_chain_take unfolding chains_ok_def by blast
  moreover obtain h' where "verify_chain (keccak E) audit_payload au_row_hash genesis (take m (audits (db s))) = Inr h'"
    using wf(2) verify_chain_take unfolding chains_ok_def by blast
  ultimately show ?thesis
    by (simp add: verify_chains_def verify_spend_def verify_audit_def assms(2) sort_key_sorted)
qed

theorem truncated_books_verify_witness:
  "fst (run_state (verify_chains sample_env)
     (reserved_books\<lparr>db := (db reserved_books)\<lparr>spend := [], audits := []\<rparr>\<rparr>)) = Inr ()"
  using truncated_books_verify [OF reserved_reachable, where n = 0 and m = 0
      and t = "reserved_books\<lparr>db := (db reserved_books)\<lparr>spend := [], audits := []\<rparr>\<rparr>"]
  by simp

text \<open>The database a process killed between the two statements of \<open>audit\<close> leaves.\<close>

definition killed_in_audit :: "hashfn \<Rightarrow> int \<Rightarrow> audit_fields \<Rightarrow> ledger_db \<Rightarrow> ledger_db" where
  "killed_in_audit H t f d =
     (let a = audit_record t f d; h = row_hash H (audit_head d) (audit_payload a)
      in d\<lparr>audits := audits d @ [a\<lparr>au_row_hash := h\<rparr>]\<rparr>)"

text \<open>
  The row of an audit record and the head it moves are committed apart. After a kill between
  the two, the next record is linked to the old head, and from then on the audit chain does not
  verify, so no later boot serves (unless \<open>keccak\<close> collides on the two links).
\<close>

theorem killed_audit_breaks_chain:
  assumes "chains_ok H d" "f' = append_audit H t' g (killed_in_audit H t f d)"
    and "row_hash H (audit_head d) (audit_payload (audit_record t f d)) = h"
    and "row_hash H h (audit_payload (audit_record t' g (killed_in_audit H t f d)))
         \<noteq> row_hash H (audit_head d) (audit_payload (audit_record t' g (killed_in_audit H t f d)))"
  shows "verify_audit H f' = Inl LedgerUnavailable"
proof -
  let ?d1 = "killed_in_audit H t f d"
  let ?a = "audit_record t f d" and ?b = "audit_record t' g ?d1"
  have head: "audit_head ?d1 = audit_head d" by (simp add: killed_in_audit_def Let_def)
  have rows: "audits ?d1 = audits d @ [?a\<lparr>au_row_hash := h\<rparr>]"
    using assms(3) by (simp add: killed_in_audit_def Let_def)
  have all: "audits f' = (audits d @ [?a\<lparr>au_row_hash := h\<rparr>])
      @ [?b\<lparr>au_row_hash := row_hash H (audit_head d) (audit_payload ?b)\<rparr>]"
    by (simp add: assms(2) append_audit_def Let_def head rows)
  have "au_seq ?a = next_rowid (audits d)" "au_seq ?b = next_rowid (audits ?d1)"
    by (simp_all add: audit_record_def)
  moreover have "sorted_wrt (<) (map au_seq (audits d))" using assms(1) by (simp add: chains_ok_def)
  moreover have "next_rowid (audits d) < next_rowid (audits ?d1)"
    using rowid_above [of "?a\<lparr>au_row_hash := h\<rparr>" "audits ?d1"] calculation(1) by (simp add: rows)
  ultimately have "sorted_wrt (<) (map au_seq (audits f'))"
    using rowid_above [of _ "audits d"] rowid_above [of _ "audits ?d1"]
    unfolding all by (auto simp: sorted_wrt_append rows)
  moreover have "verify_chain H audit_payload au_row_hash genesis (audits f') = Inl LedgerUnavailable"
    using assms(1,3,4) unfolding all verify_chain_snoc by (simp add: chains_ok_def)
  ultimately show ?thesis by (simp add: verify_audit_def sort_key_sorted)
qed

definition head_hash :: hashfn where
  "head_hash bs = (if take 4 bs = [0x30, 0x78, 0x30, 0x30] then replicate 32 1 else replicate 32 0)"

definition boot_fields :: audit_fields where
  "boot_fields =
     \<lparr>f_kind = ''boot'', f_decision = ''ready'', f_http_status = 200, f_reason_code = [],
      f_chain_id = Some 8453, f_escrow = None, f_receipt_id = None, f_channel_id = None,
      f_amount_units = None, f_digest16 = [], f_tx_hash = []\<rparr>"

lemma head_hash_genesis: "row_hash head_hash genesis p = hex0x (replicate 32 1)"
proof -
  have "py_encode genesis = [0x30, 0x78, 0x30, 0x30]" by code_simp
  then show ?thesis by (simp add: row_hash_link link_input_def py_encode_append head_hash_def)
qed

lemma head_hash_next: "row_hash head_hash (hex0x (replicate 32 1)) p = hex0x (replicate 32 0)"
proof -
  let ?xs = "py_encode (hex0x (replicate 32 1))"
  have "take 4 ?xs = [0x30, 0x78, 0x30, 0x31] \<and> 4 \<le> length ?xs" by code_simp
  then have "take 4 (?xs @ ys) = [0x30, 0x78, 0x30, 0x31]" for ys by simp
  then show ?thesis unfolding row_hash_link link_input_def head_hash_def by (simp only:) simp
qed

text \<open>Two linked reservations, and the same table after one of them was mined and the rows were shuffled.\<close>

definition linked_rows :: "db_row list" where
  "linked_rows =
     [fresh_row head_hash genesis sample_args 1 1000002 0,
      fresh_row head_hash (hex0x (replicate 32 1)) (sample_args\<lparr>r_receipt_id := ''0x02''\<rparr>) 2 1000003 1]"

definition shuffled_rows :: "db_row list" where
  "shuffled_rows = [linked_rows ! 1, (linked_rows ! 0)\<lparr>row_state := Mined, tx_hash := ''0xaa'', fee_wei_spent := 7\<rparr>]"

lemma fresh_row_link:
  "row_tag (fresh_row H h a n t nonce) = row_hash H h (spend_payload (fresh_row H h a n t nonce))"
  "seq (fresh_row H h a n t nonce) = n" "prev_row_hash (fresh_row H h a n t nonce) = h"
  by (simp_all add: fresh_row_def Let_def spend_payload_def)

lemma payload_unhashed [simp]:
  "spend_payload (r\<lparr>row_state := st, tx_hash := h, fee_wei_spent := fee\<rparr>) = spend_payload r"
  by (simp add: spend_payload_def)

lemma linked_verify:
  "verify_spend head_hash (empty_db\<lparr>spend := linked_rows\<rparr>) = Inr (hex0x (replicate 32 0))"
  "verify_spend head_hash (empty_db\<lparr>spend := shuffled_rows\<rparr>) = Inr (hex0x (replicate 32 0))"
  by (simp_all add: verify_spend_def linked_rows_def shuffled_rows_def fresh_row_link head_hash_genesis head_hash_next)

lemma linked_inputs:
  "inj_on head_hash (set (chain_inputs head_hash spend_payload genesis (sort_key seq linked_rows))
     \<union> set (chain_inputs head_hash spend_payload genesis (sort_key seq shuffled_rows)))"
proof -
  let ?p = "spend_payload (linked_rows ! 0)" and ?q = "spend_payload (linked_rows ! 1)"
  let ?i = "link_input genesis ?p" and ?j = "link_input (hex0x (replicate 32 1)) ?q"
  have inputs: "chain_inputs head_hash spend_payload genesis (sort_key seq linked_rows) = [?i, ?j]"
    "chain_inputs head_hash spend_payload genesis (sort_key seq shuffled_rows) = [?i, ?j]"
    by (simp_all add: linked_rows_def shuffled_rows_def fresh_row_link head_hash_genesis)
  have "hex0x (replicate 32 0) \<noteq> hex0x (replicate 32 1)" by code_simp
  then have "head_hash ?i \<noteq> head_hash ?j"
    using head_hash_genesis [of ?p] head_hash_next [of ?q] unfolding row_hash_link by metis
  then show ?thesis unfolding inputs by (auto simp: inj_on_def)
qed

theorem spend_head_determines_rows_witness:
  "map spend_payload (sort_key seq linked_rows) = map spend_payload (sort_key seq shuffled_rows)
   \<and> length linked_rows = 2 \<and> mset linked_rows \<noteq> mset shuffled_rows"
proof -
  have "mset linked_rows \<noteq> mset shuffled_rows"
  proof
    assume "mset linked_rows = mset shuffled_rows"
    then have "row_state ` set linked_rows = row_state ` set shuffled_rows" by (metis set_mset_mset)
    then show False by (auto simp: linked_rows_def shuffled_rows_def fresh_row_def Let_def)
  qed
  moreover have "length (head_hash x) = 32" for x by (simp add: head_hash_def)
  ultimately show ?thesis
    using spend_head_determines_rows [OF linked_verify] linked_inputs by (simp add: linked_rows_def)
qed

theorem killed_audit_breaks_chain_witness:
  "verify_audit head_hash (append_audit head_hash 2 boot_fields (killed_in_audit head_hash 1 boot_fields empty_db))
     = Inl LedgerUnavailable"
proof (rule killed_audit_breaks_chain [OF _ refl refl])
  show "chains_ok head_hash empty_db"
    using empty_wf [of head_hash undefined] by (simp add: book_wf_def)
  have "hex0x (replicate 32 0) \<noteq> hex0x (replicate 32 1)" by code_simp
  then show "row_hash head_hash (row_hash head_hash (audit_head empty_db) (audit_payload (audit_record 1 boot_fields empty_db)))
      (audit_payload (audit_record 2 boot_fields (killed_in_audit head_hash 1 boot_fields empty_db)))
    \<noteq> row_hash head_hash (audit_head empty_db)
      (audit_payload (audit_record 2 boot_fields (killed_in_audit head_hash 1 boot_fields empty_db)))"
    by (simp add: empty_db_def head_hash_genesis head_hash_next)
qed

text \<open>
  A request whose amount does not fit in 64 bits cannot be written to the audit log: binding it
  raises \<open>OverflowError\<close> before the \<open>INSERT\<close>. The amount comes from the caller's calldata and is
  refused as out of band before this point, so the refusal itself goes unrecorded.
\<close>

theorem wide_amount_not_audited:
  assumes "f_amount_units f = Some n" "2 ^ 63 \<le> n" "max_ts (db s) - CLOCK_TOLERANCE_S \<le> now_at E s"
  shows "\<exists>s'. run_state (audit E f) s = (Inl OverflowError, s') \<and> audits (db s') = audits (db s)
    \<and> audit_head (db s') = audit_head (db s) \<and> witness_lines s' = witness_lines s"
proof -
  have "\<not> sql_opt (f_amount_units f)" using assms(1,2) by (simp add: sql_opt_def sql_int_def)
  moreover have "\<not> regressed E s" using assms(3) by (simp add: regressed_def)
  ultimately show ?thesis by (simp add: run_audit Let_def read_on_def)
qed

theorem wide_amount_not_audited_witness:
  "\<exists>s'. run_state (audit sample_env (boot_fields\<lparr>f_amount_units := Some (2 ^ 63)\<rparr>)) new_books = (Inl OverflowError, s')
     \<and> audits (db s') = audits empty_db"
proof -
  have "max_ts (db new_books) - CLOCK_TOLERANCE_S \<le> now_at sample_env new_books"
    by (simp add: new_books_def empty_db_def CLOCK_TOLERANCE_S_def now_at_def sample_env_def py_trunc_def)
  from wide_amount_not_audited [OF _ _ this, of "boot_fields\<lparr>f_amount_units := Some (2 ^ 63)\<rparr>" "2 ^ 63"]
  show ?thesis by (auto simp: new_books_def)
qed

section \<open>When a revived reservation counts\<close>

lemma filter_revive_old:
  assumes "\<And>r. revivable a r \<Longrightarrow> r \<in> set rows \<Longrightarrow> \<not> P (revive_row hint a n r) \<and> \<not> P r"
  shows "filter P (revive_rows hint a n rows) = filter P rows"
  using assms by (induction rows) (auto simp: revive_rows_def)

text \<open>
  C38. A reservation that revives a dead row keeps the time of the first attempt: a window that opens
  at or after that time does not see the new reservation at all, although its amount has just been
  handed out again. "Budget is counted from the moment of reservation" fails for retries: the
  windows of 10 minutes and 1 hour can be spent again through receipts that died before them.
\<close>

theorem revived_reservation_escapes_window:
  assumes "rows_ok (db s)" "run_state (reserve E c a) s = (Inr row, s')"
    and "get_row (db s) (r_chain_id a) (r_escrow a) (r_receipt_id a) = Some held" "ts held \<le> since"
  shows "row_state row = Reserved \<and> amount_units row = r_amount a \<and> ts row = ts held
    \<and> window_units (db s') ch e tok since = window_units (db s) ch e tok since
    \<and> channel_units (db s') ch e chan since = channel_units (db s) ch e chan since
    \<and> window_count (db s') ch e since = window_count (db s) ch e since"
  using assms(2)
proof (cases rule: reserve_success)
  case (inserted w)
  then show ?thesis using assms(3) by (simp add: get_row_def)
next
  case (revived w r)
  have able: "revivable a r" by (rule revivable_found [OF assms(1) revived(3,5)])
  have held: "held = to_row r" using revived(3) assms(3) by (simp add: get_row_def)
  have old: "ts x \<le> since" if "revivable a x" "x \<in> set (spend (db s))" for x
  proof -
    have "row_key x = row_key r"
      using that(1) find_row_Some [OF revived(3)] by (simp add: revivable_def keyed_def row_key_def)
    then have "x = r"
      using assms(1) that(2) find_row_Some(1) [OF revived(3)] unfolding rows_ok_def by (metis distinct_map_inj)
    then show ?thesis using assms(4) held by (simp add: to_row_def spend_row.truncate_def)
  qed
  have "filter P (spend (db s')) = filter P (spend (db s))" if "\<And>x. P x \<Longrightarrow> since < ts x" for P
    unfolding revived(6) commit_revive_frame
    using old that by (intro filter_revive_old) (fastforce simp: revive_row_def)
  note same = this
  have "window_units (db s') ch e tok since = window_units (db s) ch e tok since"
    "channel_units (db s') ch e chan since = channel_units (db s) ch e chan since"
    "window_count (db s') ch e since = window_count (db s) ch e since"
    unfolding window_defs by (subst same; simp add: in_window_def)+
  moreover have "row_state row = Reserved \<and> amount_units row = r_amount a \<and> ts row = ts held"
    using revived(8) able held by (simp add: to_row_def spend_row.truncate_def revive_row_def revivable_def)
  ultimately show ?thesis by blast
qed

definition later_env :: ledger_env where
  "later_env = sample_env\<lparr>clock := \<lambda>n. 1000700 + of_nat n\<rparr>"

theorem revived_reservation_escapes_window_witness:
  "\<exists>row s'. run_state (reserve later_env sample_caps sample_args) dead_books = (Inr row, s')
     \<and> row_state row = Reserved \<and> amount_units row = 10000
     \<and> window_units (db s') 8453 ''0xe5'' ''0x70'' (1000700 - 600) = window_units (db dead_books) 8453 ''0xe5'' ''0x70'' (1000700 - 600)"
proof -
  have run: "run_state (run_call sample_env (MarkDead reserved_row ''simulation unavailable'')) reserved_books = (Inr (), dead_books)"
    by (simp only: run_call.simps mark_dead_sample)
  have ok: "rows_ok (db dead_books)"
    using reachable_wf [OF reachable_books.calls [OF reserved_reachable run]] unfolding book_wf_def by blast
  have succeeds: "(case fst (run_state (reserve later_env sample_caps sample_args) dead_books) of
      Inr row \<Rightarrow> True | Inl e \<Rightarrow> False)"
    by code_simp
  then obtain row s' where res: "run_state (reserve later_env sample_caps sample_args) dead_books = (Inr row, s')"
    by (cases "run_state (reserve later_env sample_caps sample_args) dead_books") (auto split: sum.splits)
  have "(case get_row (db dead_books) 8453 ''0xe5'' ''0x01'' of Some r \<Rightarrow> ts r \<le> 1000100 | None \<Rightarrow> False)"
    by code_simp
  then obtain held where "get_row (db dead_books) 8453 ''0xe5'' ''0x01'' = Some held" "ts held \<le> 1000100"
    by (auto split: option.splits)
  then show ?thesis
    using revived_reservation_escapes_window [OF ok res, of held 1000100] res by (auto simp: sample_args_def)
qed

end
