(* ===== verification/Threads.thy ===== *)
theory Threads
  imports Prelude "HOL-Library.Multiset"
begin

text \<open>
  Threads that share one object behind one re-entrant mutex: the discipline of \<open>_serialized\<close> and
  \<open>threading.RLock\<close> in \<open>escrow_signer/ledger.py\<close>, without the ledger. A method is a tree of
  statements (\<open>task\<close>), a machine interleaves the statements of any number of threads, and the theorems
  of the locale \<open>locked_object\<close> say that methods which run under the mutex behave as if each were one
  step, and that no thread waits forever.
\<close>

section \<open>Statements of a method\<close>

text \<open>
  \<open>Step u k\<close> is one statement: it changes the shared state by \<open>u\<close> and goes on with what it saw of it.
  \<open>Lock\<close> and \<open>Unlock\<close> enter and leave \<open>with self._lock\<close>.
\<close>

datatype ('s, 'r) task =
    Return 'r
  | Step "'s \<Rightarrow> 's" "'s \<Rightarrow> ('s, 'r) task"
  | Lock "('s, 'r) task"
  | Unlock "('s, 'r) task"

text \<open>What a task does when nothing else runs.\<close>

primrec run_task :: "('s, 'r) task \<Rightarrow> 's \<Rightarrow> 'r \<times> 's" where
  "run_task (Return r) = (\<lambda>s. (r, s))"
| "run_task (Step u k) = (\<lambda>s. run_task (k s) (u s))"
| "run_task (Lock t) = run_task t"
| "run_task (Unlock t) = run_task t"

primrec seq_task :: "('s, 'a) task \<Rightarrow> ('a \<Rightarrow> ('s, 'b) task) \<Rightarrow> ('s, 'b) task" where
  "seq_task (Return r) f = f r"
| "seq_task (Step u k) f = Step u (\<lambda>s. seq_task (k s) f)"
| "seq_task (Lock t) f = Lock (seq_task t f)"
| "seq_task (Unlock t) f = Unlock (seq_task t f)"

lemma run_seq_task [simp]:
  "run_task (seq_task t f) s = (case run_task t s of (r, s') \<Rightarrow> run_task (f r) s')"
  by (induction t arbitrary: s) auto

lemma seq_task_assoc: "seq_task (seq_task t f) g = seq_task t (\<lambda>x. seq_task (f x) g)"
  by (induction t) simp_all

text \<open>
  \<open>with self._lock: return method(...)\<close>. The lock is given back whether the body returned or raised:
  both are values of its result.
\<close>

type_synonym ('s, 'a) stmts = "('s, exn + 'a) task"

definition serialized :: "('s, 'a) stmts \<Rightarrow> ('s, 'a) stmts" where
  "serialized body = Lock (seq_task body (\<lambda>r. Unlock (Return r)))"

lemma run_serialized [simp]: "run_task (serialized t) s = run_task t s"
  by (simp add: serialized_def split: prod.splits)

section \<open>States a task passes through\<close>

text \<open>Every state between two statements of the task, the first and the last included: what a kill can leave.\<close>

primrec visits :: "('s, 'r) task \<Rightarrow> 's \<Rightarrow> 's set" where
  "visits (Return r) = (\<lambda>s. {s})"
| "visits (Step u k) = (\<lambda>s. insert s (visits (k s) (u s)))"
| "visits (Lock t) = visits t"
| "visits (Unlock t) = visits t"

lemma visits_start: "s \<in> visits t s"
  by (induction t arbitrary: s) auto

lemma visits_end: "snd (run_task t s) \<in> visits t s"
  by (induction t arbitrary: s) auto

lemma visits_seq: "visits (seq_task t f) s = visits t s \<union> visits (f (fst (run_task t s))) (snd (run_task t s))"
  using visits_start by (induction t arbitrary: s) (auto simp: insert_absorb)

lemma visits_serialized [simp]: "visits (serialized t) s = visits t s"
  using visits_end by (auto simp: serialized_def visits_seq)

text \<open>\<open>passes R t\<close>: the relation holds from the start to any state on the way, and from there to the end.\<close>

definition passes :: "('s \<Rightarrow> 's \<Rightarrow> bool) \<Rightarrow> ('s, 'r) task \<Rightarrow> bool" where
  "passes R t \<longleftrightarrow> (\<forall>s. \<forall>u \<in> visits t s. R s u \<and> R u (snd (run_task t s)))"

lemma passesD: "passes R t \<Longrightarrow> u \<in> visits t s \<Longrightarrow> R s u \<and> R u (snd (run_task t s))"
  by (simp add: passes_def)

lemma passes_serialized: "passes R t \<Longrightarrow> passes R (serialized t)"
  by (simp add: passes_def)

context effect_preorder
begin

lemma passes_return: "passes R (Return r)"
  by (simp add: passes_def effect_refl)

lemma passes_seq:
  assumes "passes R t" "\<And>r. passes R (f r)"
  shows "passes R (seq_task t f)"
  unfolding passes_def
proof (intro allI ballI)
  fix s u
  assume u: "u \<in> visits (seq_task t f) s"
  obtain r v where run: "run_task t s = (r, v)" by fastforce
  obtain w where w: "snd (run_task (f r) v) = w" by blast
  have "R s v" "R v w"
    using passesD [OF assms(1) visits_end [of t s]] passesD [OF assms(2) visits_end [of "f r" v]] run w by simp_all
  moreover have "R s u \<and> R u v \<or> R v u \<and> R u w"
    using u run w passesD [OF assms(1), of u s] passesD [OF assms(2) [of r], of u v] by (auto simp: visits_seq)
  ultimately show "R s u \<and> R u (snd (run_task (seq_task t f) s))"
    using run w by (auto intro: effect_trans)
qed

end

section \<open>The lock discipline\<close>

text \<open>
  \<open>balanced t d\<close>: entered at depth \<open>d\<close> below its own locks, the task releases what it took, no more.
  \<open>critical t d\<close>: with the lock held \<open>d\<close> times, it never gives the lock up before its last statement.
\<close>

primrec balanced :: "('s, 'r) task \<Rightarrow> nat \<Rightarrow> bool" where
  "balanced (Return r) = (\<lambda>d. d = 0)"
| "balanced (Step u k) = (\<lambda>d. \<forall>s. balanced (k s) d)"
| "balanced (Lock t) = (\<lambda>d. balanced t (Suc d))"
| "balanced (Unlock t) = (\<lambda>d. 0 < d \<and> balanced t (d - 1))"

fun is_return :: "('s, 'r) task \<Rightarrow> bool" where
  "is_return (Return r) = True"
| "is_return _ = False"

lemma is_return_iff: "is_return t \<longleftrightarrow> (\<exists>r. t = Return r)"
  by (cases t) auto

primrec critical :: "('s, 'r) task \<Rightarrow> nat \<Rightarrow> bool" where
  "critical (Return r) = (\<lambda>d. False)"
| "critical (Step u k) = (\<lambda>d. \<forall>s. critical (k s) d)"
| "critical (Lock t) = (\<lambda>d. critical t (Suc d))"
| "critical (Unlock t) = (\<lambda>d. if d = 1 then is_return t else critical t (d - 1))"

fun well_locked :: "('s, 'r) task \<Rightarrow> bool" where
  "well_locked (Lock t) = critical t 1"
| "well_locked _ = False"

lemma balanced_under:
  "balanced t d \<Longrightarrow> (\<And>r. balanced (f r) n) \<Longrightarrow> balanced (seq_task t f) (d + n)"
proof (induction t arbitrary: d)
  case (Lock t)
  then show ?case using Lock.IH [of "Suc d"] by simp
next
  case (Unlock t)
  then show ?case using Unlock.IH [of "d - 1"] by simp
qed simp_all

lemma balanced_seq: "balanced t 0 \<Longrightarrow> (\<And>r. balanced (f r) 0) \<Longrightarrow> balanced (seq_task t f) 0"
  using balanced_under [of t 0 f 0] by simp

lemma balanced_serialized: "balanced t 0 \<Longrightarrow> balanced (serialized t) 0"
  unfolding serialized_def by (simp add: balanced_under [of t 0 _ "Suc 0", simplified])

lemma balanced_critical:
  "balanced t d \<Longrightarrow> critical (seq_task t (\<lambda>r. Unlock (Return r))) (Suc d)"
proof (induction t arbitrary: d)
  case (Unlock t)
  then show ?case by (cases d) auto
qed simp_all

text \<open>What is done with the answer after the lock is released does not matter if it is no statement.\<close>

lemma critical_then_return:
  "critical t d \<Longrightarrow> (\<And>r. is_return (f r)) \<Longrightarrow> critical (seq_task t f) d"
proof (induction t arbitrary: d)
  case (Unlock t)
  then show ?case by (cases "d = 1") (auto simp: is_return_iff)
qed simp_all

lemma well_locked_serialized:
  "balanced t 0 \<Longrightarrow> (\<And>r. is_return (f r)) \<Longrightarrow> well_locked (seq_task (serialized t) f)"
  unfolding serialized_def by (simp add: critical_then_return balanced_critical [of t 0, simplified])

section \<open>The machine\<close>

text \<open>
  A thread has calls still to make, the first of which may be under way, and the answers so far. The
  mutex is its owner and how often the owner has entered it.
\<close>

record ('s, 'r) thread =
  todo :: "('s, 'r) task list"
  answers :: "'r list"

record ('s, 'r) machine =
  shared :: 's
  owner :: "nat option"
  depth :: nat
  threads :: "('s, 'r) thread list"

text \<open>\<open>RLock.acquire\<close>: free, or already mine. A thread that finds it taken has no step.\<close>

definition may_acquire :: "nat \<Rightarrow> ('s, 'r) machine \<Rightarrow> bool" where
  "may_acquire i m \<longleftrightarrow> owner m = None \<or> owner m = Some i"

definition set_thread :: "nat \<Rightarrow> ('s, 'r) task list \<Rightarrow> 'r list \<Rightarrow> ('s, 'r) machine \<Rightarrow> ('s, 'r) machine" where
  "set_thread i ps xs m = m\<lparr>threads := (threads m)[i := \<lparr>todo = ps, answers = xs\<rparr>]\<rparr>"

definition acquired :: "nat \<Rightarrow> ('s, 'r) machine \<Rightarrow> ('s, 'r) machine" where
  "acquired i m = m\<lparr>owner := Some i, depth := Suc (depth m)\<rparr>"

definition released :: "('s, 'r) machine \<Rightarrow> ('s, 'r) machine" where
  "released m = m\<lparr>owner := (if depth m = 1 then None else owner m), depth := depth m - 1\<rparr>"

inductive thread_step :: "('s, 'r) machine \<Rightarrow> ('s, 'r) machine \<Rightarrow> bool" where
  executes: "\<lbrakk>i < length (threads m); threads m ! i = \<lparr>todo = Step u k # ps, answers = xs\<rparr>\<rbrakk>
    \<Longrightarrow> thread_step m (set_thread i (k (shared m) # ps) xs (m\<lparr>shared := u (shared m)\<rparr>))"
| acquires: "\<lbrakk>i < length (threads m); threads m ! i = \<lparr>todo = Lock t # ps, answers = xs\<rparr>; may_acquire i m\<rbrakk>
    \<Longrightarrow> thread_step m (set_thread i (t # ps) xs (acquired i m))"
| releases: "\<lbrakk>i < length (threads m); threads m ! i = \<lparr>todo = Unlock t # ps, answers = xs\<rparr>; owner m = Some i\<rbrakk>
    \<Longrightarrow> thread_step m (set_thread i (t # ps) xs (released m))"
| returns: "\<lbrakk>i < length (threads m); threads m ! i = \<lparr>todo = Return r # ps, answers = xs\<rparr>\<rbrakk>
    \<Longrightarrow> thread_step m (set_thread i ps (xs @ [r]) m)"

inductive_cases thread_stepE: "thread_step m m'"

definition idle_thread :: "('s, 'r) task list \<Rightarrow> ('s, 'r) thread" where
  "idle_thread ps = \<lparr>todo = ps, answers = []\<rparr>"

definition machine_of :: "'s \<Rightarrow> ('s, 'r) task list list \<Rightarrow> ('s, 'r) machine" where
  "machine_of s calls = \<lparr>shared = s, owner = None, depth = 0, threads = map idle_thread calls\<rparr>"

section \<open>One step per method\<close>

text \<open>The specification: a thread's next call runs from beginning to end before anything else does.\<close>

inductive serial_step :: "'s \<times> ('s, 'r) thread list \<Rightarrow> 's \<times> ('s, 'r) thread list \<Rightarrow> bool" where
  call: "\<lbrakk>i < length ts; ts ! i = \<lparr>todo = t # ps, answers = xs\<rparr>; run_task t s = (r, s')\<rbrakk>
    \<Longrightarrow> serial_step (s, ts) (s', ts[i := \<lparr>todo = ps, answers = xs @ [r]\<rparr>])"

inductive_cases serial_stepE: "serial_step (s, ts) c"

text \<open>
  A call counts as made from the moment its thread has the lock: what is left of it cannot be
  disturbed any more.
\<close>

definition under_way :: "('s, 'r) machine \<Rightarrow> nat \<Rightarrow> bool" where
  "under_way m i \<longleftrightarrow> owner m = Some i \<or> (\<exists>r ps. todo (threads m ! i) = Return r # ps)"

definition abs_thread :: "('s, 'r) machine \<Rightarrow> nat \<Rightarrow> ('s, 'r) thread" where
  "abs_thread m i =
     (let th = threads m ! i in
      if under_way m i
      then \<lparr>todo = tl (todo th), answers = answers th @ [fst (run_task (hd (todo th)) (shared m))]\<rparr>
      else th)"

definition abs_shared :: "('s, 'r) machine \<Rightarrow> 's" where
  "abs_shared m =
     (case owner m of None \<Rightarrow> shared m | Some i \<Rightarrow> snd (run_task (hd (todo (threads m ! i))) (shared m)))"

definition abs_machine :: "('s, 'r) machine \<Rightarrow> 's \<times> ('s, 'r) thread list" where
  "abs_machine m = (abs_shared m, map (abs_thread m) [0..<length (threads m)])"

text \<open>The invariant: only the owner is inside a method, and it keeps the lock to the end.\<close>

definition waiting :: "('s, 'r) task list \<Rightarrow> bool" where
  "waiting ps \<longleftrightarrow> (case ps of [] \<Rightarrow> True | t # qs \<Rightarrow> (is_return t \<or> well_locked t) \<and> list_all well_locked qs)"

definition inside :: "nat \<Rightarrow> ('s, 'r) task list \<Rightarrow> bool" where
  "inside d ps \<longleftrightarrow> (\<exists>t qs. ps = t # qs \<and> critical t d \<and> list_all well_locked qs)"

definition disciplined :: "('s, 'r) machine \<Rightarrow> bool" where
  "disciplined m \<longleftrightarrow>
     (\<forall>i < length (threads m). if owner m = Some i then inside (depth m) (todo (threads m ! i))
                              else waiting (todo (threads m ! i)))
     \<and> (case owner m of None \<Rightarrow> depth m = 0 | Some i \<Rightarrow> i < length (threads m) \<and> 0 < depth m)"

lemma waiting_next: "list_all well_locked ps \<Longrightarrow> waiting ps"
  by (cases ps) (auto simp: waiting_def)

lemma disciplined_start:
  assumes "\<And>ps. ps \<in> set calls \<Longrightarrow> list_all well_locked ps"
  shows "disciplined (machine_of s calls)"
  using assms by (auto simp: disciplined_def machine_of_def idle_thread_def waiting_next)

lemma disciplined_at:
  assumes "disciplined m" "i < length (threads m)"
  shows "owner m = Some i \<Longrightarrow> inside (depth m) (todo (threads m ! i))"
    and "owner m \<noteq> Some i \<Longrightarrow> waiting (todo (threads m ! i))"
  using assms by (auto simp: disciplined_def)

text \<open>The four steps, seen from the thread that takes them.\<close>

lemma step_mine:
  assumes "disciplined m" "i < length (threads m)" "todo (threads m ! i) = Step u k # ps"
  shows "owner m = Some i" "inside (depth m) (k (shared m) # ps)"
proof -
  show own: "owner m = Some i"
    using disciplined_at(2) [OF assms(1,2)] assms(3) by (auto simp: waiting_def)
  show "inside (depth m) (k (shared m) # ps)"
    using disciplined_at(1) [OF assms(1,2) own] assms(3) by (auto simp: inside_def)
qed

lemma lock_mine:
  assumes "disciplined m" "i < length (threads m)" "todo (threads m ! i) = Lock t # ps" "may_acquire i m"
  shows "inside (Suc (depth m)) (t # ps)"
proof (cases "owner m = Some i")
  case True
  then show ?thesis using disciplined_at(1) [OF assms(1,2)] assms(3) by (auto simp: inside_def)
next
  case False
  then have "depth m = 0" using assms(1,4) by (auto simp: disciplined_def may_acquire_def)
  then show ?thesis using disciplined_at(2) [OF assms(1,2) False] assms(3) by (auto simp: inside_def waiting_def)
qed

lemma unlock_mine:
  assumes "disciplined m" "i < length (threads m)" "todo (threads m ! i) = Unlock t # ps" "owner m = Some i"
  shows "depth m = 1 \<Longrightarrow> is_return t \<and> list_all well_locked ps"
    and "depth m \<noteq> 1 \<Longrightarrow> inside (depth m - 1) (t # ps) \<and> 1 < depth m"
proof -
  have "inside (depth m) (Unlock t # ps)" "0 < depth m"
    using disciplined_at(1) [OF assms(1,2,4)] assms(1,3,4) by (auto simp: disciplined_def)
  then show "depth m = 1 \<Longrightarrow> is_return t \<and> list_all well_locked ps"
    "depth m \<noteq> 1 \<Longrightarrow> inside (depth m - 1) (t # ps) \<and> 1 < depth m"
    by (auto simp: inside_def split: if_splits)
qed

lemma return_not_mine:
  assumes "disciplined m" "i < length (threads m)" "todo (threads m ! i) = Return r # ps"
  shows "owner m \<noteq> Some i" "list_all well_locked ps"
  using disciplined_at [OF assms(1,2)] assms(3) by (auto simp: inside_def waiting_def)

lemma disciplined_set_thread:
  assumes "disciplined m" "i < length (threads m)" "threads m' = threads m"
    and "if owner m' = Some i then inside (depth m') ps else waiting ps"
    and "case owner m' of None \<Rightarrow> depth m' = 0 | Some j \<Rightarrow> 0 < depth m' \<and> (j = i \<or> owner m = Some j \<and> depth m' = depth m)"
    and "owner m \<in> {None, Some i, owner m'}"
  shows "disciplined (set_thread i ps xs m')"
proof -
  let ?m = "set_thread i ps xs m'"
  have frame: "owner ?m = owner m'" "depth ?m = depth m'" "length (threads ?m) = length (threads m)"
    "\<And>j. j < length (threads m) \<Longrightarrow> threads ?m ! j = (if j = i then \<lparr>todo = ps, answers = xs\<rparr> else threads m ! j)"
    using assms(3) by (simp_all add: set_thread_def)
  have "if owner m' = Some j then inside (depth m') (todo (threads ?m ! j)) else waiting (todo (threads ?m ! j))"
    if j: "j < length (threads m)" for j
  proof (cases "j = i")
    case True
    then show ?thesis using assms(2,4) by (simp add: frame)
  next
    case False
    then show ?thesis using disciplined_at [OF assms(1) j] j assms(5,6) by (auto simp: frame split: option.splits)
  qed
  moreover have "case owner m' of None \<Rightarrow> depth m' = 0 | Some j \<Rightarrow> j < length (threads m) \<and> 0 < depth m'"
    using assms(1,2,5) by (auto simp: disciplined_def split: option.splits)
  ultimately show ?thesis unfolding disciplined_def frame(1-3) by blast
qed

lemma disciplined_step:
  assumes "thread_step m m'" "disciplined m"
  shows "disciplined m'"
  using assms(1)
proof cases
  case (executes i u k ps xs)
  have "owner m = Some i" "inside (depth m) (k (shared m) # ps)" "0 < depth m"
    using step_mine [OF assms(2) executes(2)] executes(3) assms(2) by (auto simp: disciplined_def)
  then show ?thesis unfolding executes(1)
    by (intro disciplined_set_thread [OF assms(2) executes(2)]) simp_all
next
  case (acquires i t ps xs)
  have "inside (Suc (depth m)) (t # ps)" using lock_mine [OF assms(2) acquires(2)] acquires(3,4) by simp
  then show ?thesis unfolding acquires(1) using acquires(4)
    by (intro disciplined_set_thread [OF assms(2) acquires(2)]) (auto simp: acquired_def may_acquire_def)
next
  case (releases i t ps xs)
  note u = unlock_mine [OF assms(2) releases(2) _ releases(4), of t ps]
  show ?thesis unfolding releases(1)
  proof (rule disciplined_set_thread [OF assms(2) releases(2)])
    show "if owner (released m) = Some i then inside (depth (released m)) (t # ps) else waiting (t # ps)"
      using u releases(3,4) by (auto simp: released_def waiting_def)
    show "case owner (released m) of None \<Rightarrow> depth (released m) = 0
      | Some j \<Rightarrow> 0 < depth (released m) \<and> (j = i \<or> owner m = Some j \<and> depth (released m) = depth m)"
      using u(2) releases(3,4) by (auto simp: released_def)
  qed (use releases(4) in \<open>simp_all add: released_def\<close>)
next
  case (returns i r ps xs)
  have "owner m \<noteq> Some i" "waiting ps"
    using return_not_mine [OF assms(2) returns(2)] returns(3) waiting_next by auto
  then show ?thesis unfolding returns(1) using assms(2)
    by (intro disciplined_set_thread [OF assms(2) returns(2)]) (auto simp: disciplined_def split: option.splits)
qed

section \<open>The machine refines the specification\<close>

lemma abs_list_update:
  assumes "\<And>j. j < n \<Longrightarrow> j \<noteq> i \<Longrightarrow> f j = g j"
  shows "map f [0..<n] = (map g [0..<n])[i := f i]"
proof (rule nth_equalityI)
  fix j assume "j < length (map f [0..<n])"
  then show "map f [0..<n] ! j = (map g [0..<n])[i := f i] ! j"
    using assms by (cases "j = i") simp_all
qed simp

lemma thread_at [simp]:
  assumes "i < length (threads m)"
  shows "threads (set_thread i ps xs m) ! i = \<lparr>todo = ps, answers = xs\<rparr>"
    and "j \<noteq> i \<Longrightarrow> threads (set_thread i ps xs m) ! j = threads m ! j"
  using assms by (simp_all add: set_thread_def)

lemma set_thread_frame [simp]:
  "shared (set_thread i ps xs m) = shared m" "owner (set_thread i ps xs m) = owner m"
  "depth (set_thread i ps xs m) = depth m" "length (threads (set_thread i ps xs m)) = length (threads m)"
  by (simp_all add: set_thread_def)

lemma lock_frame [simp]:
  "threads (acquired i m) = threads m" "shared (acquired i m) = shared m" "owner (acquired i m) = Some i"
  "threads (released m) = threads m" "shared (released m) = shared m"
  "owner (released m) = (if depth m = 1 then None else owner m)"
  by (simp_all add: acquired_def released_def)

text \<open>A step of thread \<open>i\<close> leaves what the other threads stand for alone.\<close>

lemma abs_others:
  assumes "j \<noteq> i" "i < length (threads m)" "threads m' = threads m"
    and "owner m = Some j \<longleftrightarrow> owner m' = Some j" "owner m = Some j \<Longrightarrow> shared m' = shared m"
  shows "abs_thread (set_thread i ps xs m') j = abs_thread m j"
proof (cases "under_way m j")
  case True
  have "under_way (set_thread i ps xs m') j" using assms True by (auto simp: under_way_def)
  moreover have "fst (run_task (hd (todo (threads m ! j))) (shared m'))
      = fst (run_task (hd (todo (threads m ! j))) (shared m))"
    using True assms(5) by (auto simp: under_way_def)
  ultimately show ?thesis using True assms(1-3) by (simp add: abs_thread_def Let_def)
next
  case False
  moreover have "\<not> under_way (set_thread i ps xs m') j" using assms False by (auto simp: under_way_def)
  ultimately show ?thesis using assms(1-3) by (simp add: abs_thread_def Let_def)
qed

lemma abs_same:
  assumes "i < length (threads m)" "threads m' = threads m"
    and "\<And>j. j \<noteq> i \<Longrightarrow> (owner m = Some j \<longleftrightarrow> owner m' = Some j) \<and> (owner m = Some j \<longrightarrow> shared m' = shared m)"
    and "abs_thread (set_thread i ps xs m') i = abs_thread m i"
    and "abs_shared (set_thread i ps xs m') = abs_shared m"
  shows "abs_machine (set_thread i ps xs m') = abs_machine m"
proof -
  have "abs_thread (set_thread i ps xs m') j = abs_thread m j" for j
    using abs_others [of j i m m'] assms(1-4) by (cases "j = i") auto
  then show ?thesis using assms(1,2,5) by (simp add: abs_machine_def)
qed

lemma machine_simulates:
  assumes "thread_step m m'" "disciplined m"
  shows "abs_machine m' = abs_machine m \<or> serial_step (abs_machine m) (abs_machine m')"
  using assms(1)
proof cases
  case (executes i u k ps xs)
  have "owner m = Some i" using step_mine [OF assms(2) executes(2)] executes(3) by auto
  then have "abs_machine m' = abs_machine m" unfolding executes(1)
    using executes(2,3) by (intro abs_same) (auto simp: abs_thread_def abs_shared_def under_way_def)
  then show ?thesis ..
next
  case (acquires i t ps xs)
  show ?thesis
  proof (cases "owner m = Some i")
    case True
    then have "abs_machine m' = abs_machine m" unfolding acquires(1)
      using acquires(2,3) by (intro abs_same) (auto simp: abs_thread_def abs_shared_def under_way_def)
    then show ?thesis ..
  next
    case False
    then have free: "owner m = None" using acquires(4) by (simp add: may_acquire_def)
    obtain r s where run: "run_task (Lock t) (shared m) = (r, s)" by fastforce
    let ?ts = "map (abs_thread m) [0..<length (threads m)]"
    have "?ts ! i = \<lparr>todo = Lock t # ps, answers = xs\<rparr>"
      using acquires(2,3) free by (simp add: abs_thread_def under_way_def)
    then have "serial_step (shared m, ?ts) (s, ?ts[i := \<lparr>todo = ps, answers = xs @ [r]\<rparr>])"
      using acquires(2) run by (intro serial_step.call [where t = "Lock t"]) simp_all
    moreover have "abs_thread m' i = \<lparr>todo = ps, answers = xs @ [r]\<rparr>" "abs_shared m' = s"
      unfolding acquires(1) using acquires(2) run by (simp_all add: abs_thread_def abs_shared_def under_way_def)
    moreover have "map (abs_thread m') [0..<length (threads m)] = ?ts[i := abs_thread m' i]"
      unfolding acquires(1) using acquires(2) free by (intro abs_list_update abs_others) auto
    ultimately have "serial_step (abs_machine m) (abs_machine m')"
      using free acquires(1) by (simp add: abs_machine_def abs_shared_def [of m])
    then show ?thesis ..
  qed
next
  case (releases i t ps xs)
  note u = unlock_mine [OF assms(2) releases(2) _ releases(4), of t ps]
  have "abs_machine m' = abs_machine m" unfolding releases(1)
    using releases(2-4) u by (intro abs_same) (auto simp: abs_thread_def abs_shared_def under_way_def is_return_iff)
  then show ?thesis ..
next
  case (returns i r ps xs)
  have mine: "owner m \<noteq> Some i" and rest: "list_all well_locked ps"
    using return_not_mine [OF assms(2) returns(2)] returns(3) by auto
  then have "\<not> under_way m' i" unfolding returns(1) using returns(2) by (auto simp: under_way_def)
  then have "abs_machine m' = abs_machine m" unfolding returns(1)
    using returns(2,3) mine by (intro abs_same) (auto simp: abs_thread_def abs_shared_def under_way_def split: option.split)
  then show ?thesis ..
qed

lemma machine_refines:
  assumes "thread_step\<^sup>*\<^sup>* m m'" "disciplined m"
  shows "disciplined m' \<and> serial_step\<^sup>*\<^sup>* (abs_machine m) (abs_machine m')"
  using assms
proof induction
  case (step m1 m2)
  then have "disciplined m1" "serial_step\<^sup>*\<^sup>* (abs_machine m) (abs_machine m1)" by simp_all
  then show ?case using machine_simulates [OF step.hyps(2)] disciplined_step [OF step.hyps(2)]
    by (metis rtranclp.rtrancl_into_rtrancl)
qed simp

section \<open>No thread waits forever\<close>

lemma thread_eta: "todo th = ps \<Longrightarrow> th = \<lparr>todo = ps, answers = answers th\<rparr>"
  by (cases th) simp

lemma disciplined_progress:
  assumes "disciplined m" "\<nexists>m'. thread_step m m'"
  shows "owner m = None \<and> (\<forall>th \<in> set (threads m). todo th = [])"
proof -
  have stuck: "\<not> thread_step m m'" for m' using assms(2) by blast
  have free: "owner m = None"
  proof (rule ccontr)
    assume "owner m \<noteq> None"
    then obtain i where own: "owner m = Some i" "i < length (threads m)"
      using assms(1) by (auto simp: disciplined_def)
    obtain t ps where th: "threads m ! i = \<lparr>todo = t # ps, answers = answers (threads m ! i)\<rparr>"
      and crit: "critical t (depth m)"
      using disciplined_at(1) [OF assms(1) own(2,1)] by (auto simp: inside_def dest: thread_eta)
    show False
    proof (cases t)
      case (Return r)
      then show ?thesis using crit by simp
    next
      case (Step u k)
      then show ?thesis using stuck thread_step.executes [OF own(2)] th by blast
    next
      case (Lock t')
      then show ?thesis using stuck thread_step.acquires [OF own(2)] th own(1) unfolding may_acquire_def by blast
    next
      case (Unlock t')
      then show ?thesis using stuck thread_step.releases [OF own(2)] th own(1) by blast
    qed
  qed
  moreover have "todo th = []" if mem: "th \<in> set (threads m)" for th
  proof (rule ccontr)
    assume "todo th \<noteq> []"
    then obtain i t ps where i: "i < length (threads m)" and th: "threads m ! i = \<lparr>todo = t # ps, answers = answers th\<rparr>"
      using mem by (auto simp: in_set_conv_nth neq_Nil_conv dest: thread_eta)
    have "waiting (t # ps)" using disciplined_at(2) [OF assms(1) i] free th by simp
    then consider r where "t = Return r" | t' where "t = Lock t'"
      by (cases t) (auto simp: waiting_def)
    then show False
    proof cases
      case (1 r)
      then show ?thesis using stuck thread_step.returns [OF i] th by blast
    next
      case (2 t')
      then show ?thesis using stuck thread_step.acquires [OF i] th free unfolding may_acquire_def by blast
    qed
  qed
  ultimately show ?thesis by blast
qed

text \<open>Every statement leaves less to do: a task's continuations are below it.\<close>

inductive_set rest_of :: "(('s, 'r) task \<times> ('s, 'r) task) set" where
  "(k s, Step u k) \<in> rest_of"
| "(t, Lock t) \<in> rest_of"
| "(t, Unlock t) \<in> rest_of"

inductive_simps rest_of_simps [simp]:
  "(t, Return r) \<in> rest_of" "(t, Step u k) \<in> rest_of" "(t, Lock t') \<in> rest_of" "(t, Unlock t') \<in> rest_of"

lemma wf_rest_of: "wf (rest_of :: (('s, 'r) task \<times> ('s, 'r) task) set)"
proof (rule wfUNIVI)
  fix P :: "('s, 'r) task \<Rightarrow> bool" and t :: "('s, 'r) task"
  assume ind: "\<forall>x. (\<forall>y. (y, x) \<in> rest_of \<longrightarrow> P y) \<longrightarrow> P x"
  have step: "P x" if "\<And>y. (y, x) \<in> rest_of \<Longrightarrow> P y" for x using ind that by blast
  show "P t" by (induction t) (rule step, auto)+
qed

definition remaining :: "('s, 'r) machine \<Rightarrow> ('s, 'r) task multiset" where
  "remaining m = mset (concat (map todo (threads m)))"

lemma remaining_set_thread:
  assumes "i < length (threads m)" "threads m ! i = \<lparr>todo = t # ps, answers = xs\<rparr>" "threads m' = threads m"
    and "\<And>q. q \<in> set qs \<Longrightarrow> (q, t) \<in> rest_of"
  shows "(remaining (set_thread i (qs @ ps) ys m'), remaining m) \<in> mult1 rest_of"
proof -
  let ?M = "mset (concat (map todo (take i (threads m)))) + mset ps + mset (concat (map todo (drop (Suc i) (threads m))))"
  have "threads m = take i (threads m) @ threads m ! i # drop (Suc i) (threads m)"
    using assms(1) by (rule id_take_nth_drop)
  then have "remaining m = mset (concat (map todo (take i (threads m) @ threads m ! i # drop (Suc i) (threads m))))"
    unfolding remaining_def by simp
  then have "remaining m = ?M + {#t#}" using assms(2) by simp
  moreover have "remaining (set_thread i (qs @ ps) ys m') = ?M + mset qs"
    using assms(1,3) by (simp add: remaining_def set_thread_def upd_conv_take_nth_drop)
  ultimately show ?thesis using assms(4) by (intro mult1I [of _ t ?M _ "mset qs"]) simp_all
qed

lemma step_decreases: "thread_step m m' \<Longrightarrow> (remaining m', remaining m) \<in> mult1 rest_of"
proof (erule thread_stepE, goal_cases)
  case (1 i u k ps xs)
  then show ?case
    using remaining_set_thread [of i m "Step u k" ps xs "m\<lparr>shared := u (shared m)\<rparr>" "[k (shared m)]"]
    by auto
next
  case (2 i t ps xs)
  then show ?case using remaining_set_thread [of i m "Lock t" ps xs "acquired i m" "[t]"] by simp
next
  case (3 i t ps xs)
  then show ?case using remaining_set_thread [of i m "Unlock t" ps xs "released m" "[t]"] by simp
next
  case (4 i r ps xs)
  then show ?case using remaining_set_thread [of i m "Return r" ps xs m "[]"] by simp
qed

lemma wf_thread_step: "wf {(m', m). thread_step m m'}"
  by (rule wf_subset [OF wf_inv_image [OF wf_mult1 [OF wf_rest_of]], of _ remaining])
     (auto simp: inv_image_def step_decreases)

lemma no_endless_run: "\<nexists>f. \<forall>n. thread_step (f n) (f (Suc n))"
  using wf_thread_step by (simp add: wf_iff_no_infinite_down_chain)

text \<open>So every run can be finished, whatever it has done.\<close>

lemma disciplined_finishes:
  assumes "disciplined m"
  shows "\<exists>m'. thread_step\<^sup>*\<^sup>* m m' \<and> owner m' = None \<and> (\<forall>th \<in> set (threads m'). todo th = [])"
  using assms
proof (induction m rule: wf_induct_rule [OF wf_thread_step])
  case (1 m)
  show ?case
  proof (cases "\<exists>m1. thread_step m m1")
    case True
    then obtain m1 where m1: "thread_step m m1" ..
    then show ?thesis using 1 disciplined_step [OF m1] by (metis (mono_tags) converse_rtranclp_into_rtranclp mem_Collect_eq case_prodI)
  next
    case False
    then show ?thesis using disciplined_progress [OF 1(2)] by blast
  qed
qed

section \<open>Objects all of whose methods run under the mutex\<close>

text \<open>
  The specification in terms of the calls: \<open>sem c\<close> is what the method does on its own. A thread is the
  calls it has still to make and the answers it got.
\<close>

inductive call_step :: "('c \<Rightarrow> 's \<Rightarrow> 'r \<times> 's) \<Rightarrow> 's \<times> ('c list \<times> 'r list) list \<Rightarrow> 's \<times> ('c list \<times> 'r list) list \<Rightarrow> bool"
  for sem :: "'c \<Rightarrow> 's \<Rightarrow> 'r \<times> 's" where
  call: "\<lbrakk>i < length ts; ts ! i = (c # cs, xs); sem c s = (r, s')\<rbrakk>
    \<Longrightarrow> call_step sem (s, ts) (s', ts[i := (cs, xs @ [r])])"

text \<open>
  What a thread of the machine has to do with its entry in the specification: it may still have to
  hand over the answer of its last call.
\<close>

definition matches :: "('s, 'r) thread \<Rightarrow> 'c list \<times> 'r list \<Rightarrow> bool" where
  "matches th e \<longleftrightarrow>
     length (answers th) \<le> length (snd e) \<and> take (length (answers th)) (snd e) = answers th
     \<and> length (snd e) \<le> length (answers th) + 1 \<and> (todo th = [] \<longrightarrow> e = ([], answers th))"

definition answered :: "('s, 'r) machine \<Rightarrow> bool" where
  "answered m \<longleftrightarrow> owner m = None \<and> (\<forall>th \<in> set (threads m). todo th = [])"

locale locked_object =
  fixes impl :: "'c \<Rightarrow> ('s, 'r) task" and sem :: "'c \<Rightarrow> 's \<Rightarrow> 'r \<times> 's"
  assumes impl_locked: "well_locked (impl c)"
    and impl_runs: "run_task (impl c) s = sem c s"
begin

definition entry_thread :: "'c list \<times> 'r list \<Rightarrow> ('s, 'r) thread" where
  "entry_thread e = \<lparr>todo = map impl (fst e), answers = snd e\<rparr>"

lemma serial_call:
  assumes "serial_step (s, map entry_thread ts) y"
  shows "\<exists>s' ts'. y = (s', map entry_thread ts') \<and> call_step sem (s, ts) (s', ts')"
  using assms
proof cases
  case (call i t ps xs r s')
  then obtain c cs where c: "ts ! i = (c # cs, xs)" "t = impl c" "ps = map impl cs"
    by (cases "ts ! i") (auto simp: entry_thread_def map_eq_Cons_conv)
  then have "call_step sem (s, ts) (s', ts[i := (cs, xs @ [r])])"
    using call by (intro call_step.call) (simp_all add: impl_runs)
  moreover have "y = (s', map entry_thread (ts[i := (cs, xs @ [r])]))"
    using call c by (simp add: map_update entry_thread_def)
  ultimately show ?thesis by blast
qed

lemma serial_calls:
  assumes "serial_step\<^sup>*\<^sup>* (s, map entry_thread ts) y"
  shows "\<exists>s' ts'. y = (s', map entry_thread ts') \<and> (call_step sem)\<^sup>*\<^sup>* (s, ts) (s', ts')"
  using assms
proof induction
  case base
  then show ?case by blast
next
  case (step y z)
  then show ?case using serial_call by (metis rtranclp.rtrancl_into_rtrancl)
qed

abbreviation object :: "'s \<Rightarrow> 'c list list \<Rightarrow> ('s, 'r) machine" where
  "object s calls \<equiv> machine_of s (map (map impl) calls)"

lemma start_disciplined: "disciplined (object s calls)"
  by (rule disciplined_start) (auto simp: list_all_iff impl_locked)

lemma object_disciplined: "thread_step\<^sup>*\<^sup>* (object s calls) m \<Longrightarrow> disciplined m"
  using machine_refines start_disciplined by blast

lemma impl_not_return: "impl c \<noteq> Return r"
  using impl_locked [of c] by auto

lemma abs_start: "abs_machine (object s calls) = (s, map entry_thread (map (\<lambda>cs. (cs, [])) calls))"
proof -
  have "abs_thread (object s calls) i = entry_thread (calls ! i, [])" if "i < length calls" for i
    using that impl_not_return
    by (auto simp: abs_thread_def under_way_def machine_of_def idle_thread_def entry_thread_def map_eq_Cons_conv)
  then show ?thesis
    by (auto simp: abs_machine_def abs_shared_def machine_of_def intro!: nth_equalityI)
qed

lemma abs_matches:
  assumes "disciplined m" "owner m = None" "i < length (threads m)" "abs_thread m i = entry_thread e"
  shows "matches (threads m ! i) e"
  using assms disciplined_at(2) [OF assms(1,3)]
  by (cases e) (auto simp: matches_def abs_thread_def under_way_def entry_thread_def Let_def split: if_splits)

theorem atomic:
  assumes "thread_step\<^sup>*\<^sup>* (object s calls) m" "owner m = None"
  shows "\<exists>ts. (call_step sem)\<^sup>*\<^sup>* (s, map (\<lambda>cs. (cs, [])) calls) (shared m, ts) \<and> list_all2 matches (threads m) ts"
proof -
  note dis = object_disciplined [OF assms(1)]
  have "serial_step\<^sup>*\<^sup>* (s, map entry_thread (map (\<lambda>cs. (cs, [])) calls)) (abs_machine m)"
    using machine_refines [OF assms(1) start_disciplined] unfolding abs_start by blast
  then obtain s' ts where ts: "abs_machine m = (s', map entry_thread ts)"
    and run: "(call_step sem)\<^sup>*\<^sup>* (s, map (\<lambda>cs. (cs, [])) calls) (s', ts)"
    using serial_calls by blast
  have s': "s' = shared m" using ts assms(2) by (simp add: abs_machine_def abs_shared_def)
  have eq: "map (abs_thread m) [0..<length (threads m)] = map entry_thread ts"
    using ts by (simp add: abs_machine_def)
  from arg_cong [OF eq, where f = length] have len: "length ts = length (threads m)" by simp
  have "matches (threads m ! i) (ts ! i)" if i: "i < length (threads m)" for i
    using arg_cong [OF eq, where f = "\<lambda>l. l ! i"] i len by (intro abs_matches [OF dis assms(2) i]) simp
  then have "list_all2 matches (threads m) ts"
    using len by (simp add: list_all2_conv_all_nth)
  then show ?thesis using run s' by blast
qed

theorem never_stuck:
  assumes "thread_step\<^sup>*\<^sup>* (object s calls) m"
  shows "answered m \<or> (\<exists>m'. thread_step m m')" "\<exists>m'. thread_step\<^sup>*\<^sup>* m m' \<and> answered m'"
  using disciplined_progress disciplined_finishes object_disciplined [OF assms]
  unfolding answered_def by blast+

end

section \<open>Schedules\<close>

text \<open>The steps as a function, and a run in which the threads take turns as listed.\<close>

definition step_thread :: "nat \<Rightarrow> ('s, 'r) machine \<Rightarrow> ('s, 'r) machine option" where
  "step_thread i m =
     (if length (threads m) \<le> i then None
      else let xs = answers (threads m ! i) in
        (case todo (threads m ! i) of
           [] \<Rightarrow> None
         | t # ps \<Rightarrow>
             (case t of
                Return r \<Rightarrow> Some (set_thread i ps (xs @ [r]) m)
              | Step u k \<Rightarrow> Some (set_thread i (k (shared m) # ps) xs (m\<lparr>shared := u (shared m)\<rparr>))
              | Lock t' \<Rightarrow> if may_acquire i m then Some (set_thread i (t' # ps) xs (acquired i m)) else None
              | Unlock t' \<Rightarrow> if owner m = Some i then Some (set_thread i (t' # ps) xs (released m)) else None)))"

lemma step_thread_sound:
  assumes "step_thread i m = Some m'"
  shows "thread_step m m'"
proof -
  obtain t ps xs where th: "i < length (threads m)" "threads m ! i = \<lparr>todo = t # ps, answers = xs\<rparr>"
    using assms by (auto simp: step_thread_def Let_def split: if_splits list.splits dest: thread_eta)
  then show ?thesis
    using assms by (cases t) (auto simp: step_thread_def Let_def intro: thread_step.intros split: if_splits)
qed

primrec run_schedule :: "nat list \<Rightarrow> ('s, 'r) machine \<Rightarrow> ('s, 'r) machine option" where
  "run_schedule [] m = Some m"
| "run_schedule (i # is) m = Option.bind (step_thread i m) (run_schedule is)"

lemma run_schedule_sound: "run_schedule is m = Some m' \<Longrightarrow> thread_step\<^sup>*\<^sup>* m m'"
proof (induction "is" arbitrary: m)
  case (Cons i "is")
  then show ?case
    by (auto simp: bind_eq_Some_conv dest!: step_thread_sound intro: converse_rtranclp_into_rtranclp)
qed simp

end
