(* ===== verification/Locks.thy ===== *)
theory Locks
  imports Ledger_History Threads
begin

text \<open>
  The mutex of the ledger: every public method of \<open>Ledger\<close> as the statements it executes between
  taking and releasing \<open>self._lock\<close>, one SQL statement, clock reading or commit at a time (a query is
  read to its end in one step, and so is a line appended to the witness file), and the proof that any number of threads calling them get what they would get if each call were one step.
  The step each call is compared with is the program of the same name in \<open>Ledger\<close> and \<open>Ledger_Ops\<close>.

  \<open>Ledger.now\<close> takes no lock and only reads the clock; it is no call of this machine.
\<close>

section \<open>Statements with exceptions\<close>

definition stmt :: "('s, 'a) py \<Rightarrow> ('s, 'a) stmts" where
  "stmt m = Step (\<lambda>s. snd (run_state m s)) (\<lambda>s. Return (fst (run_state m s)))"

definition gives :: "'a \<Rightarrow> ('s, 'a) stmts" where
  "gives x = Return (Inr x)"

definition fail :: "exn \<Rightarrow> ('s, 'a) stmts" where
  "fail e = Return (Inl e)"

definition catch :: "('s, 'a) stmts \<Rightarrow> (exn \<Rightarrow> ('s, 'b) stmts) \<Rightarrow> ('a \<Rightarrow> ('s, 'b) stmts) \<Rightarrow> ('s, 'b) stmts" where
  "catch t h k = seq_task t (\<lambda>r. case r of Inl e \<Rightarrow> h e | Inr x \<Rightarrow> k x)"

definition bindC :: "('s, 'a) stmts \<Rightarrow> ('a \<Rightarrow> ('s, 'b) stmts) \<Rightarrow> ('s, 'b) stmts" where
  "bindC t f = catch t fail f"

definition thenC :: "('s, 'a) stmts \<Rightarrow> ('s, 'b) stmts \<Rightarrow> ('s, 'b) stmts" where
  "thenC t u = bindC t (\<lambda>_. u)"

lemma run_code [simp]:
  "run_task (stmt m) s = run_state m s"
  "run_task (gives x) s = (Inr x, s)"
  "run_task (fail e) s = (Inl e, s)"
  "run_task (catch t h k) s =
     (case run_task t s of (Inl e, s') \<Rightarrow> run_task (h e) s' | (Inr x, s') \<Rightarrow> run_task (k x) s')"
  "run_task (bindC t f) s =
     (case run_task t s of (Inl e, s') \<Rightarrow> (Inl e, s') | (Inr x, s') \<Rightarrow> run_task (f x) s')"
  "run_task (thenC t u) s =
     (case run_task t s of (Inl e, s') \<Rightarrow> (Inl e, s') | (Inr x, s') \<Rightarrow> run_task u s')"
  by (simp_all add: stmt_def gives_def fail_def catch_def bindC_def thenC_def split: prod.splits sum.splits)

text \<open>\<open>carries t m\<close>: undisturbed, the statements \<open>t\<close> are the program \<open>m\<close>, and their locks are nested.\<close>

definition carries :: "('s, 'a) stmts \<Rightarrow> ('s, 'a) py \<Rightarrow> bool" where
  "carries t m \<longleftrightarrow> balanced t 0 \<and> (\<forall>s. run_task t s = run_state m s)"

named_theorems carries_intros \<open>rules that take a method's statements apart\<close>

lemma carries_run: "carries t m \<Longrightarrow> run_task t s = run_state m s"
  by (simp add: carries_def)

lemma carries_balanced: "carries t m \<Longrightarrow> balanced t 0"
  by (simp add: carries_def)

lemma balanced_code [intro]:
  "balanced (stmt m) 0" "balanced (gives x) 0" "balanced (fail e) 0"
  "balanced t 0 \<Longrightarrow> (\<And>e. balanced (h e) 0) \<Longrightarrow> (\<And>x. balanced (k x) 0) \<Longrightarrow> balanced (catch t h k) 0"
  "balanced t 0 \<Longrightarrow> (\<And>x. balanced (f x) 0) \<Longrightarrow> balanced (bindC t f) 0"
  "balanced t 0 \<Longrightarrow> balanced u 0 \<Longrightarrow> balanced (thenC t u) 0"
  by (auto simp: stmt_def gives_def fail_def catch_def bindC_def thenC_def intro!: balanced_seq split: sum.split)

lemma carries_stmt [carries_intros]: "carries (stmt m) m"
  by (simp add: carries_def balanced_code)

lemma carries_gives [carries_intros]: "carries (gives x) (ok x)"
  by (simp add: carries_def balanced_code)

lemma carries_fail [carries_intros]: "carries (fail e) (raise e)"
  by (simp add: carries_def balanced_code)

lemma carries_catch [carries_intros]:
  "carries t m \<Longrightarrow> (\<And>e. carries (h e) (h' e)) \<Longrightarrow> (\<And>x. carries (k x) (k' x)) \<Longrightarrow> carries (catch t h k) (tryE m h' k')"
  by (auto simp: carries_def split: prod.split sum.split)

lemma carries_bind [carries_intros]:
  "carries t m \<Longrightarrow> (\<And>x. carries (f x) (g x)) \<Longrightarrow> carries (bindC t f) (bindE m g)"
  by (auto simp: carries_def split: prod.split sum.split)

lemma carries_then [carries_intros]:
  "carries t m \<Longrightarrow> carries u n \<Longrightarrow> carries (thenC t u) (thenE m n)"
  by (auto simp: carries_def split: prod.split sum.split)

lemma carries_serialized [carries_intros]: "carries t m \<Longrightarrow> carries (serialized t) m"
  by (simp add: carries_def balanced_serialized)

lemma carries_if [carries_intros]:
  "(b \<Longrightarrow> carries t m) \<Longrightarrow> (\<not> b \<Longrightarrow> carries u n) \<Longrightarrow> carries (if b then t else u) (if b then m else n)"
  by simp

lemma carries_option [carries_intros]:
  "carries t m \<Longrightarrow> (\<And>x. carries (f x) (g x)) \<Longrightarrow>
     carries (case v of None \<Rightarrow> t | Some x \<Rightarrow> f x) (case v of None \<Rightarrow> m | Some x \<Rightarrow> g x)"
  by (cases v) simp_all

text \<open>The remaining methods read the same row twice where the program reads it once.\<close>

lemma carriesI: "balanced t 0 \<Longrightarrow> (\<And>s. run_task t s = run_state m s) \<Longrightarrow> carries t m"
  by (simp add: carries_def)

section \<open>Clock, halt and audit\<close>

definition query :: "(ledger_db \<Rightarrow> 'a) \<Rightarrow> ('z books_scheme, 'a) stmts" where
  "query f = stmt (bindE get_db (\<lambda>d. ok (f d)))"

definition locked_guard :: "('z books_scheme, ledger_db) stmts" where
  "locked_guard = serialized (query (\<lambda>d. d))"

definition locked_halted :: "('z books_scheme, string) stmts" where
  "locked_halted = serialized (bindC locked_guard (\<lambda>d. gives (halted d)))"

definition locked_halt :: "string \<Rightarrow> ('z books_scheme, unit) stmts" where
  "locked_halt reason = serialized (stmt (halt reason))"

definition locked_assert_clock_sane :: "'e ledger_env_scheme \<Rightarrow> ('z books_scheme, unit) stmts" where
  "locked_assert_clock_sane E =
     serialized (bindC locked_guard (\<lambda>d. bindC (stmt (wall E)) (\<lambda>w.
       if w < max_ts d - CLOCK_TOLERANCE_S
       then thenC (locked_halt (regression_reason w (max_ts d))) (fail ClockRegression)
       else gives ())))"

definition locked_tick :: "'e ledger_env_scheme \<Rightarrow> ('z books_scheme, int \<times> int) stmts" where
  "locked_tick E =
     serialized (bindC locked_guard (\<lambda>d. bindC (stmt (wall E)) (\<lambda>w.
       if w < max_ts d - CLOCK_TOLERANCE_S
       then thenC (locked_halt (regression_reason w (max_ts d))) (fail ClockRegression)
       else
         let t = max w (max_ts d); n = max_seq d + 1 in
         thenC (stmt (upd_db (\<lambda>d. d\<lparr>max_ts := t, max_seq := n\<rparr>))) (gives (n, t)))))"

text \<open>
  The body of \<open>audit\<close>, outside its lock: the sequence, the head, the row, the new head and the
  witness are separate statements. The row's \<open>seq\<close> is given out by the \<open>INSERT\<close>.
\<close>

definition audit_insert :: "audit_row \<Rightarrow> ledger_db \<Rightarrow> ledger_db" where
  "audit_insert a d = d\<lparr>audits := audits d @ [a\<lparr>au_seq := next_rowid (audits d)\<rparr>]\<rparr>"

definition audit_body :: "'e ledger_env_scheme \<Rightarrow> audit_fields \<Rightarrow> ('z books_scheme, unit) stmts" where
  "audit_body E f =
     bindC (locked_tick E) (\<lambda>(n, t). bindC (query (\<lambda>d. d)) (\<lambda>d.
       let a = audit_record t f d;
           h = row_hash (keccak E) (audit_head d) (audit_payload a)
       in if \<not> (sql_int t \<and> sql_int (f_http_status f) \<and> sql_opt (f_chain_id f) \<and> sql_opt (f_amount_units f))
          then fail OverflowError
          else thenC (stmt (upd_db (audit_insert (a\<lparr>au_row_hash := h\<rparr>))))
                 (thenC (stmt (upd_db (\<lambda>d. d\<lparr>audit_head := h\<rparr>))) (stmt (write_witness E ''audit'' h)))))"

definition locked_audit :: "'e ledger_env_scheme \<Rightarrow> audit_fields \<Rightarrow> ('z books_scheme, unit) stmts" where
  "locked_audit E f = serialized (audit_body E f)"

lemma carries_query [carries_intros]: "carries (query f) (bindE get_db (\<lambda>d. ok (f d)))"
  unfolding query_def by (rule carries_stmt)

lemma carries_guard: "carries locked_guard get_db"
  unfolding locked_guard_def
  by (rule carries_serialized, rule carriesI) (auto simp: query_def)

lemma carries_halt: "carries (locked_halt r) (halt r)"
  unfolding locked_halt_def by (intro carries_intros)

lemma carries_assert_clock_sane: "carries (locked_assert_clock_sane E) (assert_clock_sane E)"
  unfolding locked_assert_clock_sane_def assert_clock_sane_def
  by (intro carries_intros carries_guard carries_halt)

lemma carries_tick: "carries (locked_tick E) (tick E)"
  unfolding locked_tick_def tick_def Let_def
  by (intro carries_intros carries_guard carries_halt)

lemma audit_insert_record:
  "audit_insert ((audit_record t f d)\<lparr>au_row_hash := h\<rparr>) d = d\<lparr>audits := audits d @ [(audit_record t f d)\<lparr>au_row_hash := h\<rparr>]\<rparr>"
  by (simp add: audit_insert_def audit_record_def)

lemma carries_audit_body: "carries (audit_body E f) (audit E f)"
proof (rule carriesI)
  show "balanced (audit_body E f) 0"
    unfolding audit_body_def Let_def split_def query_def
    by (intro balanced_code carries_balanced [OF carries_tick]) (auto intro: balanced_code)
  show "run_task (audit_body E f) s = run_state (audit E f) s" for s
    by (auto simp: audit_body_def audit_def Let_def query_def carries_run [OF carries_tick] audit_insert_record
        simp del: run_tick split: prod.split sum.split)
qed

lemma carries_audit: "carries (locked_audit E f) (audit E f)"
  unfolding locked_audit_def by (intro carries_intros carries_audit_body)

section \<open>The two reservations\<close>

text \<open>The windows are read one after the other, each under the lock the method already holds.\<close>

definition locked_read :: "(ledger_db \<Rightarrow> 'a) \<Rightarrow> ('z books_scheme, 'a) stmts" where
  "locked_read f = serialized (query f)"

definition locked_cap_checks :: "caps \<Rightarrow> reserve_args \<Rightarrow> int \<Rightarrow> ('z books_scheme, (string \<times> int \<times> int \<times> int) list) stmts" where
  "locked_cap_checks c a now =
     (let ch = r_chain_id a; e = r_escrow a; tok = r_token a; chan = r_channel_id a;
          cut_10m = now - 600; cut_1h = now - 3600; cut_24h = now - 86400; amount = r_amount a
      in bindC (locked_read (\<lambda>d. window_units d ch e tok cut_10m)) (\<lambda>u10.
         bindC (locked_read (\<lambda>d. window_units d ch e tok cut_1h)) (\<lambda>u1.
         bindC (locked_read (\<lambda>d. window_units d ch e tok cut_24h)) (\<lambda>u24.
         bindC (locked_read (\<lambda>d. channel_units d ch e chan cut_24h)) (\<lambda>uc.
         bindC (locked_read (\<lambda>d. window_count d ch e cut_1h)) (\<lambda>n1.
         bindC (locked_read (\<lambda>d. window_count d ch e cut_24h)) (\<lambda>n24.
         bindC (locked_read (\<lambda>d. channel_count d ch e chan cut_24h)) (\<lambda>nc.
         bindC (locked_read (\<lambda>d. fee_wei_window d ch e cut_24h)) (\<lambda>fee.
           gives
             [(''cap_units_per_tx'', units_per_tx c, amount, 0),
              (''cap_units_10m'', units_10m c, amount, u10),
              (''cap_units_1h'', units_1h c, amount, u1),
              (''cap_units_24h'', units_24h c, amount, u24),
              (''cap_units_channel_24h'', units_channel_24h c, amount, uc),
              (''cap_tx_1h'', tx_1h c, 1, n1),
              (''cap_tx_24h'', tx_24h c, 1, n24),
              (''cap_tx_per_channel_24h'', tx_per_channel_24h c, 1, nc),
              (''cap_fee_wei_24h'', fee_wei_24h c, r_max_fee_wei a * r_gas_limit a, fee)])))))))))"

definition locked_first_breach :: "caps \<Rightarrow> reserve_args \<Rightarrow> int \<Rightarrow> ('z books_scheme, string option) stmts" where
  "locked_first_breach c a now =
     bindC (locked_cap_checks c a now) (\<lambda>checks.
       case find breaches checks of
         Some (name, _) \<Rightarrow> gives (Some name)
       | None \<Rightarrow>
           if distinct_channels_24h c = - 1 then gives None
           else bindC (locked_read (\<lambda>d. distinct_channels d (r_chain_id a) (r_escrow a) (now - 86400))) (\<lambda>seen.
                bindC (locked_read (\<lambda>d. channel_count d (r_chain_id a) (r_escrow a) (r_channel_id a) (now - 86400))) (\<lambda>n.
                  gives (if n = 0 \<and> distinct_channels_24h c < seen + 1
                          then Some ''cap_distinct_channels_24h'' else None))))"

text \<open>\<open>BEGIN IMMEDIATE\<close>, the statements, and \<open>ROLLBACK\<close> when one of them raises.\<close>

definition locked_transaction :: "('z books_scheme, 'a) stmts \<Rightarrow> ('z books_scheme, 'a) stmts" where
  "locked_transaction t =
     bindC (stmt get_db) (\<lambda>d. catch t (\<lambda>e. thenC (stmt (upd_db (\<lambda>_. d))) (fail e)) gives)"

definition sqlite_unavailable :: "('z books_scheme, 'a) stmts \<Rightarrow> ('z books_scheme, 'a) stmts" where
  "sqlite_unavailable t =
     catch t (\<lambda>e. if e = SqliteError then fail LedgerUnavailable else fail e) gives"

definition locked_open_attempt :: "'e ledger_env_scheme \<Rightarrow> nonce_key \<Rightarrow> ('z books_scheme, int \<times> int \<times> int) stmts" where
  "locked_open_attempt E k =
     bindC (locked_tick E) (\<lambda>(n, t).
       thenC (stmt (upd_db (ensure_nonce k n))) (bindC (stmt get_db) (\<lambda>d. gives (n, t, next_nonce d k))))"

definition locked_fetch_row :: "reserve_args \<Rightarrow> ('z books_scheme, spend_row) stmts" where
  "locked_fetch_row a =
     bindC (locked_read (\<lambda>d. get_row d (r_chain_id a) (r_escrow a) (r_receipt_id a))) (\<lambda>r.
       case r of None \<Rightarrow> fail LedgerUnavailable | Some r \<Rightarrow> gives r)"

definition locked_revive :: "'e ledger_env_scheme \<Rightarrow> reserve_args \<Rightarrow> ('z books_scheme, spend_row) stmts" where
  "locked_revive E a =
     sqlite_unavailable
       (thenC (locked_transaction (bindC (locked_open_attempt E (args_key a)) (\<lambda>(n, t, nonce).
                 thenC (stmt (revive_stmt True a nonce)) (stmt (upd_db (bump_nonce (args_key a) n))))))
         (bindC (locked_fetch_row a) (\<lambda>row.
           thenC (locked_audit E (transition_audit a ''revived after a released attempt'')) (gives row))))"

text \<open>
  The guarded \<open>INSERT\<close>, and the statements after \<open>SELECT head\<close>: the row, the allocator, the head (the
  gas-only reservation moves the head before the allocator).
\<close>

definition insert_row_stmt :: "bool \<Rightarrow> (ledger_db \<Rightarrow> bool) \<Rightarrow> db_row \<Rightarrow> ('z books_scheme, unit) py" where
  "insert_row_stmt ints guard r =
     bindE get_db (\<lambda>d.
       if \<not> (ints \<and> sql_int (seq r) \<and> sql_int (ts r)) then raise OverflowError
       else if \<not> guard d then raise (CapBreach ''cap_race'')
       else if \<not> spend_ok (spend d @ [r]) then raise SqliteError
       else upd_db (\<lambda>d. d\<lparr>spend := spend d @ [r]\<rparr>))"

definition locked_insert :: "'e ledger_env_scheme \<Rightarrow> caps \<Rightarrow> reserve_args \<Rightarrow> int \<Rightarrow> ('z books_scheme, spend_row) stmts" where
  "locked_insert E c a now =
     thenC (sqlite_unavailable (locked_transaction (bindC (locked_open_attempt E (args_key a)) (\<lambda>(n, t, nonce).
              bindC (query spend_head) (\<lambda>head.
                let r = fresh_row (keccak E) head a n t nonce in
                thenC (stmt (insert_row_stmt (insert_ints_ok c a nonce now) (\<lambda>d. insert_guard d c a now) r))
                  (thenC (stmt (upd_db (bump_nonce (args_key a) n)))
                    (stmt (upd_db (\<lambda>d. d\<lparr>spend_head := row_tag r\<rparr>)))))))))
       (locked_fetch_row a)"

definition locked_reserve :: "'e ledger_env_scheme \<Rightarrow> caps \<Rightarrow> reserve_args \<Rightarrow> ('z books_scheme, spend_row) stmts" where
  "locked_reserve E c a =
     serialized (if r_amount a \<le> 0 then fail ValueError
       else thenC (locked_assert_clock_sane E) (bindC (stmt (wall E)) (\<lambda>now.
         bindC (locked_first_breach c a now) (\<lambda>breach. case breach of
           Some name \<Rightarrow> fail (CapBreach name)
         | None \<Rightarrow>
             bindC (locked_read (\<lambda>d. get_row d (r_chain_id a) (r_escrow a) (r_receipt_id a))) (\<lambda>existing.
               case existing of
                 None \<Rightarrow> locked_insert E c a now
               | Some r \<Rightarrow> if row_state r \<noteq> Dead then fail LedgerUnavailable else locked_revive E a)))))"

definition locked_gas_breach :: "caps \<Rightarrow> reserve_args \<Rightarrow> int \<Rightarrow> int \<Rightarrow> ('z books_scheme, string option) stmts" where
  "locked_gas_breach c a limit now =
     bindC (if limit = - 1 then gives False
            else bindC (locked_read (\<lambda>d. gas_only_count d (r_chain_id a) (r_escrow a) (now - 86400)))
                   (\<lambda>used. gives (limit < used + 1))) (\<lambda>over.
       if over then gives (Some ''cap_gas_only_24h'')
       else if fee_wei_24h c = - 1 then gives None
       else bindC (locked_read (\<lambda>d. fee_wei_window d (r_chain_id a) (r_escrow a) (now - 86400))) (\<lambda>spent.
              gives (if fee_wei_24h c < spent + r_max_fee_wei a * r_gas_limit a
                      then Some ''cap_fee_wei_24h'' else None)))"

definition locked_gas_attempt :: "'e ledger_env_scheme \<Rightarrow> reserve_args \<Rightarrow> int \<Rightarrow> int \<Rightarrow> bool \<Rightarrow> ('z books_scheme, unit) stmts" where
  "locked_gas_attempt E a limit now revive =
     locked_transaction (bindC (locked_open_attempt E (args_key a)) (\<lambda>(n, t, nonce).
       thenC (if revive then stmt (revive_stmt False a nonce)
              else bindC (query spend_head) (\<lambda>head.
                let r = fresh_row (keccak E) head a n t nonce in
                thenC (stmt (insert_row_stmt (gas_ints_ok a nonce limit now) (\<lambda>d. gas_guard d a limit now) r))
                  (stmt (upd_db (\<lambda>d. d\<lparr>spend_head := row_tag r\<rparr>)))))
         (stmt (upd_db (bump_nonce (args_key a) n)))))"

definition locked_reserve_gas_only :: "'e ledger_env_scheme \<Rightarrow> caps \<Rightarrow> reserve_args \<Rightarrow> int \<Rightarrow> ('z books_scheme, spend_row) stmts" where
  "locked_reserve_gas_only E c args limit =
     (let a = gas_args args in
      serialized (thenC (locked_assert_clock_sane E) (bindC (stmt (wall E)) (\<lambda>now.
        bindC (locked_gas_breach c a limit now) (\<lambda>breach. case breach of
          Some name \<Rightarrow> fail (CapBreach name)
        | None \<Rightarrow>
            bindC (locked_read (\<lambda>d. get_row d (r_chain_id a) (r_escrow a) (r_receipt_id a))) (\<lambda>existing.
              let revive = (case existing of None \<Rightarrow> False | Some r \<Rightarrow> row_state r = Dead) in
              if existing \<noteq> None \<and> \<not> revive then fail LedgerUnavailable
              else thenC (sqlite_unavailable (locked_gas_attempt E a limit now revive))
                (bindC (locked_fetch_row a) (\<lambda>row.
                  thenC (locked_audit E (transition_audit a ''gas-only call reserved'')) (gives row)))))))))"

lemma balanced_read [intro]: "balanced (locked_read f) 0"
  unfolding locked_read_def query_def by (intro balanced_serialized balanced_code)

lemma run_read [simp]: "run_task (locked_read f) s = (Inr (f (db s)), s)"
  by (simp add: locked_read_def query_def)

lemma carries_transaction [carries_intros]: "carries t m \<Longrightarrow> carries (locked_transaction t) (transaction m)"
  unfolding locked_transaction_def transaction_def by (intro carries_intros)

lemma carries_unavailable [carries_intros]: "carries t m \<Longrightarrow> carries (sqlite_unavailable t) (as_unavailable m)"
  unfolding sqlite_unavailable_def as_unavailable_def by (intro carries_intros)

lemma carries_open_attempt: "carries (locked_open_attempt E k) (open_attempt E k)"
  unfolding locked_open_attempt_def open_attempt_def split_def by (intro carries_intros carries_tick)

lemma carries_fetch_row: "carries (locked_fetch_row a) (fetch_row a)"
proof (rule carriesI)
  show "balanced (locked_fetch_row a) 0"
    unfolding locked_fetch_row_def by (intro balanced_code balanced_read) (auto intro: balanced_code split: option.split)
qed (auto simp: locked_fetch_row_def fetch_row_def get_row_def split: option.split)

lemmas carries_parts = carries_tick carries_audit carries_assert_clock_sane carries_open_attempt carries_fetch_row

lemma carries_revive: "carries (locked_revive E a) (reserve_revive E a)"
  unfolding locked_revive_def reserve_revive_def split_def by (intro carries_intros carries_parts)

lemma fresh_row_stamp [simp]: "seq (fresh_row H h a n t nonce) = n" "ts (fresh_row H h a n t nonce) = t"
  by (simp_all add: fresh_row_def Let_def)

lemma carries_insert_stmts:
  fixes a :: reserve_args
  shows "carries (bindC (query spend_head) (\<lambda>head.
      let r = fresh_row H head a n t nonce in
      thenC (stmt (insert_row_stmt ints guard r))
        (thenC (stmt (upd_db (bump_nonce k n))) (stmt (upd_db (\<lambda>d. d\<lparr>spend_head := row_tag r\<rparr>))))))
    (bindE get_db (\<lambda>d. thenE (insert_stmt H ints (guard d) a n t nonce) (upd_db (bump_nonce k n))))"
proof (rule carriesI)
  show "balanced (bindC (query spend_head) (\<lambda>head.
      let r = fresh_row H head a n t nonce in
      thenC (stmt (insert_row_stmt ints guard r))
        (thenC (stmt (upd_db (bump_nonce k n))) (stmt (upd_db (\<lambda>d. d\<lparr>spend_head := row_tag r\<rparr>)))))) 0"
    unfolding Let_def query_def by (intro balanced_code)
qed (simp add: query_def Let_def insert_row_stmt_def insert_stmt_def bump_nonce_def next_nonce_def)

lemma carries_gas_insert_stmts:
  fixes a :: reserve_args
  shows "carries (bindC (query spend_head) (\<lambda>head.
      let r = fresh_row H head a n t nonce in
      thenC (stmt (insert_row_stmt ints guard r)) (stmt (upd_db (\<lambda>d. d\<lparr>spend_head := row_tag r\<rparr>)))))
    (bindE get_db (\<lambda>d. insert_stmt H ints (guard d) a n t nonce))"
proof (rule carriesI)
  show "balanced (bindC (query spend_head) (\<lambda>head.
      let r = fresh_row H head a n t nonce in
      thenC (stmt (insert_row_stmt ints guard r)) (stmt (upd_db (\<lambda>d. d\<lparr>spend_head := row_tag r\<rparr>))))) 0"
    unfolding Let_def query_def by (intro balanced_code)
qed (simp add: query_def Let_def insert_row_stmt_def insert_stmt_def)

lemma carries_insert: "carries (locked_insert E c a now) (reserve_insert E c a now)"
  unfolding locked_insert_def reserve_insert_def split_def
  by (intro carries_intros carries_parts carries_insert_stmts)

lemma carries_gas_attempt: "carries (locked_gas_attempt E a limit now revive) (gas_attempt E a limit now revive)"
  unfolding locked_gas_attempt_def gas_attempt_def split_def
  by (intro carries_intros carries_parts carries_gas_insert_stmts)

lemma balanced_cases [intro]:
  "balanced t 0 \<Longrightarrow> balanced u 0 \<Longrightarrow> balanced (if b then t else u) 0"
  "balanced t 0 \<Longrightarrow> (\<And>x. balanced (f x) 0) \<Longrightarrow> balanced (case v of None \<Rightarrow> t | Some x \<Rightarrow> f x) 0"
  by (auto split: option.split)

lemma run_first_breach [simp]:
  "run_task (locked_first_breach c a now) s = (Inr (first_breach (db s) c a now), s)"
  by (auto simp: locked_first_breach_def locked_cap_checks_def first_breach_def cap_checks_def channels_breach_def Let_def
      split: option.split)

lemma balanced_first_breach [intro]: "balanced (locked_first_breach c a now) 0"
  unfolding locked_first_breach_def locked_cap_checks_def Let_def split_def
  by (intro balanced_code balanced_read balanced_cases)

lemma run_gas_breach [simp]:
  "run_task (locked_gas_breach c a limit now) s = (Inr (gas_breach (db s) c a limit now), s)"
  by (simp add: locked_gas_breach_def gas_breach_def Let_def)

lemma balanced_gas_breach [intro]: "balanced (locked_gas_breach c a limit now) 0"
  unfolding locked_gas_breach_def by (intro balanced_code balanced_read balanced_cases)

lemma carries_reserve: "carries (locked_reserve E c a) (reserve E c a)"
proof (rule carriesI)
  show "balanced (locked_reserve E c a) 0"
    unfolding locked_reserve_def
    by (intro balanced_serialized balanced_code balanced_read balanced_cases balanced_first_breach
        carries_balanced [OF carries_insert] carries_balanced [OF carries_revive]
        carries_balanced [OF carries_assert_clock_sane])
  show "run_task (locked_reserve E c a) s = run_state (reserve E c a) s" for s
    by (cases "find_row (db s) (r_chain_id a) (r_escrow a) (r_receipt_id a)")
       (simp_all add: get_row_def locked_reserve_def reserve_def carries_run [OF carries_insert] carries_run [OF carries_revive]
        carries_run [OF carries_assert_clock_sane] split: prod.split sum.split option.split)
qed

lemma carries_reserve_gas_only: "carries (locked_reserve_gas_only E c a limit) (reserve_gas_only E c a limit)"
proof (rule carriesI)
  show "balanced (locked_reserve_gas_only E c a limit) 0"
    unfolding locked_reserve_gas_only_def Let_def
    by (intro balanced_serialized balanced_code balanced_read balanced_cases balanced_gas_breach
        carries_balanced [OF carries_unavailable [OF carries_gas_attempt]] carries_balanced [OF carries_fetch_row]
        carries_balanced [OF carries_audit] carries_balanced [OF carries_assert_clock_sane])
  show "run_task (locked_reserve_gas_only E c a limit) s = run_state (reserve_gas_only E c a limit) s" for s
    by (cases "find_row (db s) (r_chain_id (gas_args a)) (r_escrow (gas_args a)) (r_receipt_id (gas_args a))")
       (simp_all add: get_row_def locked_reserve_gas_only_def reserve_gas_only_def Let_def carries_run [OF carries_assert_clock_sane]
        carries_run [OF carries_unavailable [OF carries_gas_attempt]] carries_run [OF carries_fetch_row]
        carries_run [OF carries_audit] del: run_as_unavailable run_audit split: prod.split sum.split option.split)
qed

section \<open>State transitions\<close>

text \<open>The \<open>UPDATE\<close> of \<open>_set_state\<close>, one statement.\<close>

definition update_stmt :: "spend_row \<Rightarrow> row_state \<Rightarrow> row_updates \<Rightarrow> ('z books_scheme, unit) py" where
  "update_stmt row st u =
     bindE get_db (\<lambda>d.
       let rows = update_rows row st u (spend d) in
       if \<not> sql_opt (u_fee_wei u) then raise OverflowError
       else if \<not> nonce_index_ok rows then raise SqliteError
       else upd_db (\<lambda>d. d\<lparr>spend := rows\<rparr>))"

definition locked_set_state :: "'e ledger_env_scheme \<Rightarrow> spend_row \<Rightarrow> row_state \<Rightarrow> row_updates \<Rightarrow> ('z books_scheme, unit) stmts" where
  "locked_set_state E row st u =
     serialized (thenC (stmt (update_stmt row st u))
       (locked_audit E \<lparr>f_kind = ''transition'', f_decision = state_str st, f_http_status = 0,
          f_reason_code = given (u_dead_reason u) [], f_chain_id = Some (chain_id row),
          f_escrow = Some (escrow row), f_receipt_id = Some (receipt_id row),
          f_channel_id = Some (channel_id row), f_amount_units = Some (amount_units row),
          f_digest16 = [], f_tx_hash = given (u_tx_hash u) (tx_hash row)\<rparr>))"

definition locked_mark_signed :: "'e ledger_env_scheme \<Rightarrow> spend_row \<Rightarrow> string \<Rightarrow> string \<Rightarrow> ('z books_scheme, unit) stmts" where
  "locked_mark_signed E row h raw_keccak =
     serialized (thenC (locked_set_state E row Signed (no_updates\<lparr>u_tx_hash := Some h\<rparr>))
       (bindC (locked_tick E) (\<lambda>(n, t).
         stmt (upd_db (record_attempt
           \<lparr>at_tx_hash = h, at_chain_id = chain_id row, at_escrow = escrow row,
            at_receipt_id = receipt_id row, at_account_nonce = account_nonce row,
            at_raw_keccak = raw_keccak, at_max_fee_wei = max_fee_wei row, at_sent_at = t,
            at_receipt_status = [], at_seq = n\<rparr>)))))"

definition locked_mark_broadcast :: "'e ledger_env_scheme \<Rightarrow> spend_row \<Rightarrow> string \<Rightarrow> ('z books_scheme, unit) stmts" where
  "locked_mark_broadcast E row h =
     serialized (locked_set_state E row Broadcast (no_updates\<lparr>u_tx_hash := Some h\<rparr>))"

definition locked_mark_mined :: "'e ledger_env_scheme \<Rightarrow> spend_row \<Rightarrow> string \<Rightarrow> int \<Rightarrow> ('z books_scheme, unit) stmts" where
  "locked_mark_mined E row h fee =
     serialized (locked_set_state E row Mined
       (no_updates\<lparr>u_tx_hash := (if h \<noteq> [] then Some h else None),
                   u_fee_wei := (if fee \<noteq> 0 then Some fee else None)\<rparr>))"

text \<open>The two queries before \<open>mark_dead\<close> releases the row: the stored row, then an attempt with its nonce.\<close>

definition locked_unsigned_row :: "spend_row \<Rightarrow> ('z books_scheme, db_row option) stmts" where
  "locked_unsigned_row row =
     bindC (query (\<lambda>d. find_row d (chain_id row) (escrow row) (receipt_id row))) (\<lambda>held.
       case held of
         None \<Rightarrow> gives None
       | Some held \<Rightarrow>
           if row_state held \<noteq> Reserved then gives None
           else bindC (query (\<lambda>d. find (\<lambda>a. at_chain_id a = chain_id row \<and> at_account_nonce a = account_nonce held) (attempts d)))
                  (\<lambda>signed. gives (if signed = None then Some held else None)))"

definition locked_mark_dead :: "'e ledger_env_scheme \<Rightarrow> spend_row \<Rightarrow> string \<Rightarrow> ('z books_scheme, unit) stmts" where
  "locked_mark_dead E row reason =
     serialized (bindC (locked_unsigned_row row) (\<lambda>unsigned.
       thenC (locked_set_state E row Dead (no_updates\<lparr>u_dead_reason := Some reason\<rparr>))
         (case unsigned of
            None \<Rightarrow> gives ()
          | Some held \<Rightarrow>
              thenC locked_guard
                (stmt (upd_db (return_nonce (chain_id row, from_addr held) (account_nonce held)))))))"

definition locked_attempt_status :: "string \<Rightarrow> string \<Rightarrow> ('z books_scheme, unit) stmts" where
  "locked_attempt_status h status = serialized (stmt (record_attempt_status h status))"

definition locked_set_next_nonce :: "'e ledger_env_scheme \<Rightarrow> int \<Rightarrow> string \<Rightarrow> int \<Rightarrow> ('z books_scheme, unit) stmts" where
  "locked_set_next_nonce E c addr nonce =
     serialized (bindC (locked_tick E) (\<lambda>(n, t).
       if \<not> sql_int nonce then fail OverflowError
       else stmt (upd_db (\<lambda>d. d\<lparr>nonce_alloc := (nonce_alloc d)((c, addr) \<mapsto> (nonce, n))\<rparr>))))"

section \<open>Integrity and figures\<close>

definition locked_verify_chains :: "'e ledger_env_scheme \<Rightarrow> ('z books_scheme, unit) stmts" where
  "locked_verify_chains E =
     serialized (bindC (query (verify_spend (keccak E))) (\<lambda>r.
       thenC (Return r) (bindC (query (verify_audit (keccak E))) (\<lambda>r'. thenC (Return r') (gives ())))))"

definition locked_record_boot :: "'e ledger_env_scheme \<Rightarrow> string \<Rightarrow> int \<Rightarrow> string \<Rightarrow> string \<Rightarrow> bool \<Rightarrow> ('z books_scheme, unit) stmts" where
  "locked_record_boot E address c e caps_text reconciled =
     serialized (bindC (locked_tick E) (\<lambda>(n, t). bindC (query audit_head) (\<lambda>head.
       stmt (upd_db (\<lambda>d. d\<lparr>boots := boots d @
         [\<lparr>bo_ts = t, bo_address = address, bo_chain_id = c, bo_escrow = e, bo_caps_json = caps_text,
           bo_audit_head = head, bo_reconciled = reconciled\<rparr>]\<rparr>)))))"

definition locked_stats :: "'e ledger_env_scheme \<Rightarrow> ('z books_scheme, ledger_stats) stmts" where
  "locked_stats E =
     serialized (bindC (stmt (wall E)) (\<lambda>now.
       bindC (query (\<lambda>d. int (length (spend d)))) (\<lambda>rows.
       bindC (locked_read unresolved) (\<lambda>live.
       bindC (query (\<lambda>d. int (length (audits d)))) (\<lambda>audit_rows.
       bindC (query audit_head) (\<lambda>head.
       bindC locked_halted (\<lambda>halted.
       bindC locked_guard (\<lambda>guard.
         gives \<lparr>st_rows = rows, st_live = int (length live), st_audit_rows = audit_rows, st_audit_head = head,
                 st_halted = halted, st_max_ts = max_ts guard, st_now = now\<rparr>))))))))"

lemma carries_set_state: "carries (locked_set_state E row st u) (set_state E row st u)"
proof (rule carriesI)
  show "balanced (locked_set_state E row st u) 0"
    unfolding locked_set_state_def
    by (intro balanced_serialized balanced_code carries_balanced [OF carries_audit])
  show "run_task (locked_set_state E row st u) s = run_state (set_state E row st u) s" for s
    by (simp add: locked_set_state_def set_state_def update_stmt_def Let_def carries_run [OF carries_audit]
        del: run_audit)
qed

lemma carries_mark_signed: "carries (locked_mark_signed E row h raw) (mark_signed E row h raw)"
  unfolding locked_mark_signed_def mark_signed_def split_def
  by (intro carries_intros carries_tick carries_set_state)

lemma carries_mark_broadcast: "carries (locked_mark_broadcast E row h) (mark_broadcast E row h)"
  unfolding locked_mark_broadcast_def mark_broadcast_def by (intro carries_intros carries_set_state)

lemma carries_mark_mined: "carries (locked_mark_mined E row h fee) (mark_mined E row h fee)"
  unfolding locked_mark_mined_def mark_mined_def by (intro carries_intros carries_set_state)

lemma balanced_query [intro]: "balanced (query f) 0"
  unfolding query_def by (rule balanced_code)

lemma run_query [simp]: "run_task (query f) s = (Inr (f (db s)), s)"
  by (simp add: query_def)

lemma run_unsigned_row [simp]:
  "run_task (locked_unsigned_row row) s = (Inr (unsigned_row (db s) row), s)"
  by (auto simp: locked_unsigned_row_def unsigned_row_def split: option.split)

lemma balanced_unsigned_row [intro]: "balanced (locked_unsigned_row row) 0"
  unfolding locked_unsigned_row_def by (intro balanced_code balanced_cases balanced_query)

lemma carries_mark_dead: "carries (locked_mark_dead E row reason) (mark_dead E row reason)"
proof (rule carriesI)
  show "balanced (locked_mark_dead E row reason) 0"
    unfolding locked_mark_dead_def
    by (intro balanced_serialized balanced_code balanced_cases balanced_unsigned_row
        carries_balanced [OF carries_set_state] carries_balanced [OF carries_guard])
  show "run_task (locked_mark_dead E row reason) s = run_state (mark_dead E row reason) s" for s
    by (cases "unsigned_row (db s) row")
       (simp_all add: locked_mark_dead_def mark_dead_def carries_run [OF carries_set_state] carries_run [OF carries_guard]
        split: prod.split sum.split)
qed

lemma carries_attempt_status: "carries (locked_attempt_status h status) (record_attempt_status h status)"
  unfolding locked_attempt_status_def by (intro carries_intros)

lemma carries_set_next_nonce: "carries (locked_set_next_nonce E c addr nonce) (set_next_nonce E c addr nonce)"
  unfolding locked_set_next_nonce_def set_next_nonce_def split_def by (intro carries_intros carries_tick)

lemma carries_verify_chains: "carries (locked_verify_chains E) (verify_chains E)"
proof (rule carriesI)
  show "balanced (locked_verify_chains E) 0"
    unfolding locked_verify_chains_def query_def
    by (intro balanced_serialized balanced_code) simp_all
  show "run_task (locked_verify_chains E) s = run_state (verify_chains E) s" for s
    by (simp add: locked_verify_chains_def verify_chains_def query_def bindR_def split: sum.split)
qed

lemma carries_record_boot: "carries (locked_record_boot E a c e text b) (record_boot E a c e text b)"
proof (rule carriesI)
  show "balanced (locked_record_boot E a c e text b) 0"
    unfolding locked_record_boot_def split_def
    by (intro balanced_serialized balanced_code balanced_query carries_balanced [OF carries_tick])
  show "run_task (locked_record_boot E a c e text b) s = run_state (record_boot E a c e text b) s" for s
    by (auto simp: locked_record_boot_def record_boot_def carries_run [OF carries_tick])
qed

lemma locked_halted_runs:
  "balanced locked_halted 0" "run_task locked_halted s = (Inr (halted (db s)), s)"
  unfolding locked_halted_def
  by (intro balanced_serialized balanced_code carries_balanced [OF carries_guard])
     (simp add: carries_run [OF carries_guard])

lemma carries_stats: "carries (locked_stats E) (stats E)"
proof (rule carriesI)
  show "balanced (locked_stats E) 0"
    unfolding locked_stats_def
    by (intro balanced_serialized balanced_code balanced_query balanced_read locked_halted_runs
        carries_balanced [OF carries_guard])
  show "run_task (locked_stats E) s = run_state (stats E) s" for s
    by (simp add: locked_stats_def stats_def locked_halted_runs carries_run [OF carries_guard])
qed

section \<open>The public methods\<close>

text \<open>The methods other objects call, and what one of them returns.\<close>

datatype method_call =
    Write ledger_call
  | Halted
  | Get int string string
  | Unresolved
  | AttemptsFor int string string
  | Stats
  | VerifyChains

datatype method_answer =
    Nothing
  | Row "spend_row option"
  | Rows "spend_row list"
  | Tries "tx_attempt list"
  | Reason string
  | Figures ledger_stats

definition readings :: "(ledger_db \<Rightarrow> method_answer) \<Rightarrow> ('z books_scheme, method_answer) py" where
  "readings f = bindE get_db (\<lambda>d. ok (f d))"

text \<open>What the call does in one step, and the statements it executes.\<close>

fun run_method :: "'e ledger_env_scheme \<Rightarrow> method_call \<Rightarrow> ('z books_scheme, method_answer) py" where
  "run_method E (Write (Reserve c a)) = bindE (reserve E c a) (\<lambda>r. ok (Row (Some r)))"
| "run_method E (Write (ReserveGasOnly c a n)) = bindE (reserve_gas_only E c a n) (\<lambda>r. ok (Row (Some r)))"
| "run_method E (Write w) = bindE (run_call E w) (\<lambda>_. ok Nothing)"
| "run_method E Halted = readings (\<lambda>d. Reason (halted d))"
| "run_method E (Get c e i) = readings (\<lambda>d. Row (get_row d c e i))"
| "run_method E Unresolved = readings (\<lambda>d. Rows (unresolved d))"
| "run_method E (AttemptsFor c e i) = readings (\<lambda>d. Tries (attempts_for d c e i))"
| "run_method E Stats = bindE (stats E) (\<lambda>x. ok (Figures x))"
| "run_method E VerifyChains = bindE (verify_chains E) (\<lambda>_. ok Nothing)"

definition answering :: "('a \<Rightarrow> 'b) \<Rightarrow> ('s, 'a) stmts \<Rightarrow> ('s, 'b) stmts" where
  "answering f t = bindC t (\<lambda>x. gives (f x))"

fun method_code :: "'e ledger_env_scheme \<Rightarrow> method_call \<Rightarrow> ('z books_scheme, method_answer) stmts" where
  "method_code E (Write AssertClock) = answering (\<lambda>_. Nothing) (locked_assert_clock_sane E)"
| "method_code E (Write (Audit f)) = answering (\<lambda>_. Nothing) (locked_audit E f)"
| "method_code E (Write (Reserve c a)) = answering (\<lambda>r. Row (Some r)) (locked_reserve E c a)"
| "method_code E (Write (ReserveGasOnly c a n)) = answering (\<lambda>r. Row (Some r)) (locked_reserve_gas_only E c a n)"
| "method_code E (Write (MarkSigned r h raw)) = answering (\<lambda>_. Nothing) (locked_mark_signed E r h raw)"
| "method_code E (Write (MarkBroadcast r h)) = answering (\<lambda>_. Nothing) (locked_mark_broadcast E r h)"
| "method_code E (Write (MarkMined r h fee)) = answering (\<lambda>_. Nothing) (locked_mark_mined E r h fee)"
| "method_code E (Write (MarkDead r reason)) = answering (\<lambda>_. Nothing) (locked_mark_dead E r reason)"
| "method_code E (Write (AttemptStatus h status)) = answering (\<lambda>_. Nothing) (locked_attempt_status h status)"
| "method_code E (Write (SetNextNonce c addr n)) = answering (\<lambda>_. Nothing) (locked_set_next_nonce E c addr n)"
| "method_code E (Write (RecordBoot addr c e text b)) = answering (\<lambda>_. Nothing) (locked_record_boot E addr c e text b)"
| "method_code E Halted = answering Reason locked_halted"
| "method_code E (Get c e i) = answering Row (locked_read (\<lambda>d. get_row d c e i))"
| "method_code E Unresolved = answering Rows (locked_read unresolved)"
| "method_code E (AttemptsFor c e i) = answering Tries (locked_read (\<lambda>d. attempts_for d c e i))"
| "method_code E Stats = answering Figures (locked_stats E)"
| "method_code E VerifyChains = answering (\<lambda>_. Nothing) (locked_verify_chains E)"

lemmas carries_methods =
  carries_assert_clock_sane carries_audit carries_reserve carries_reserve_gas_only carries_mark_signed
  carries_mark_broadcast carries_mark_mined carries_mark_dead carries_attempt_status carries_set_next_nonce
  carries_record_boot carries_stats carries_verify_chains

lemma run_answering [simp]: "run_task (answering f t) s = (case run_task t s of (r, s') \<Rightarrow> (map_sum id f r, s'))"
  by (auto simp: answering_def split: prod.split sum.split)

lemma method_runs: "run_task (method_code E c) s = run_state (run_method E c) s"
proof (cases c)
  case (Write w)
  then show ?thesis
    by (cases w) (simp_all add: carries_methods [THEN carries_run] readings_def split: prod.split sum.split)
qed (simp_all add: carries_methods [THEN carries_run] readings_def locked_halted_runs split: prod.split sum.split)

lemma well_locked_answering: "balanced t 0 \<Longrightarrow> well_locked (answering f (serialized t))"
  unfolding answering_def bindC_def catch_def
  by (rule well_locked_serialized) (simp_all add: fail_def gives_def split: sum.split)

lemmas balanced_parts =
  balanced_code balanced_serialized balanced_cases balanced_query balanced_unsigned_row balanced_read balanced_first_breach balanced_gas_breach locked_halted_runs(1)
  carries_methods [THEN carries_balanced] carries_tick [THEN carries_balanced] carries_guard [THEN carries_balanced]
  carries_halt [THEN carries_balanced] carries_audit_body [THEN carries_balanced]
  carries_set_state [THEN carries_balanced] carries_insert [THEN carries_balanced]
  carries_revive [THEN carries_balanced] carries_fetch_row [THEN carries_balanced]
  carries_gas_attempt [THEN carries_unavailable, THEN carries_balanced]

lemmas locked_methods =
  locked_assert_clock_sane_def locked_audit_def locked_reserve_def locked_reserve_gas_only_def locked_mark_signed_def
  locked_mark_broadcast_def locked_mark_mined_def locked_mark_dead_def locked_attempt_status_def
  locked_set_next_nonce_def locked_record_boot_def locked_halted_def locked_read_def locked_stats_def
  locked_verify_chains_def

lemma balanced_return: "balanced (Return r) 0"
  by simp

lemma method_locked: "well_locked (method_code E c)"
proof (cases c)
  case (Write w)
  then show ?thesis
    by (cases w)
       (simp_all only: method_code.simps locked_methods Let_def split_def,
         (intro well_locked_answering balanced_parts)+)
qed (simp_all only: method_code.simps locked_methods Let_def split_def,
       (intro well_locked_answering balanced_parts balanced_return)+)

section \<open>The ledger behind its mutex\<close>

interpretation mutex: locked_object "method_code E" "\<lambda>c. run_state (run_method E c)" for E :: "'e ledger_env_scheme"
  by unfold_locales (rule method_locked, rule method_runs)

definition ledger_machine :: "'e ledger_env_scheme \<Rightarrow> 'z books_scheme \<Rightarrow> method_call list list \<Rightarrow> ('z books_scheme, exn + method_answer) machine" where
  "ledger_machine E s calls = machine_of s (map (map (method_code E)) calls)"

definition one_at_a_time :: "'e ledger_env_scheme \<Rightarrow> 'z books_scheme \<times> (method_call list \<times> (exn + method_answer) list) list
    \<Rightarrow> 'z books_scheme \<times> (method_call list \<times> (exn + method_answer) list) list \<Rightarrow> bool" where
  "one_at_a_time E = call_step (\<lambda>c. run_state (run_method E c))"

lemma io_readings: "state_io_rel (evolves H k B) (readings f)"
  unfolding readings_def by (intro io_intros io_get_db)

lemma io_run_method:
  assumes "\<And>w. c = Write w \<Longrightarrow> call_key w \<in> {None, Some k}"
  shows "state_io_rel (evolves (keccak E) k {}) (run_method E c :: ('z books_scheme, method_answer) py)"
proof (cases c)
  case (Write w)
  then have key: "call_key w \<in> {None, Some k}" using assms by blast
  show ?thesis
  proof (cases "call_key w")
    case None
    then have "(run_method E c :: ('z books_scheme, method_answer) py) = bindE (run_call E w) (\<lambda>_. ok Nothing)"
      using Write by (cases w) simp_all
    then show ?thesis using key by (auto intro: evolves.io_bindE evolves.io_ok io_run_call)
  next
    case (Some k')
    then show ?thesis using Write key
      by (cases w) (auto intro!: evolves.io_bindE evolves.io_ok io_reserve io_reserve_gas_only)
  qed
qed (auto simp: stats_def intro!: evolves.io_bindE evolves.io_ok io_readings io_verify_chains io_wall io_get_db)

definition books_hold :: "'e ledger_env_scheme \<Rightarrow> 'z books_scheme \<Rightarrow> bool" where
  "books_hold E s \<longleftrightarrow> (\<forall>k. book_wf (keccak E) k {} (db s))"

lemma method_keeps_books:
  assumes "run_state (run_method E c) s = (r, s')" "books_hold E s"
  shows "books_hold E s'"
proof -
  obtain k where "\<And>w. c = Write w \<Longrightarrow> call_key w \<in> {None, Some k}"
    by (cases c; cases "call_key (case c of Write w \<Rightarrow> w | _ \<Rightarrow> AssertClock)") auto
  then have "evolves (keccak E) k {} s s'" using io_run_method assms(1) by (metis state_io_relD)
  then have "book_wf (keccak E) k {} (db s')" using assms(2) evolves_wf unfolding books_hold_def by blast
  then show ?thesis by (simp add: books_hold_def book_wf_def nonces_ok_none)
qed

lemma calls_keep_books:
  assumes "(one_at_a_time E)\<^sup>*\<^sup>* (s, qs) (s', qs')" "books_hold E s"
  shows "books_hold E s'"
  using assms
proof (induction rule: rtranclp_induct2)
  case (step t us t' us')
  from step.hyps(2) show ?case
    unfolding one_at_a_time_def by cases (use method_keeps_books step in blast)
qed

lemma calls_are_kept:
  assumes "(one_at_a_time E)\<^sup>*\<^sup>* (s, qs) (s', qs')"
  shows "map (\<lambda>e. length (fst e) + length (snd e)) qs' = map (\<lambda>e. length (fst e) + length (snd e)) qs"
  using assms
proof (induction rule: rtranclp_induct2)
  case (step t us t' us')
  from step.hyps(2) show ?case
    unfolding one_at_a_time_def
  proof cases
    case (call i c cs xs r)
    then show ?thesis using step.IH
      by (auto simp: list_eq_iff_nth_eq nth_list_update)
  qed
qed simp

lemma serial_order:
  assumes "thread_step\<^sup>*\<^sup>* (ledger_machine E s calls) m" "owner m = None"
  shows "\<exists>ts. (one_at_a_time E)\<^sup>*\<^sup>* (s, map (\<lambda>cs. (cs, [])) calls) (shared m, ts) \<and> list_all2 matches (threads m) ts"
  using mutex.atomic [OF assms(1) [unfolded ledger_machine_def] assms(2)] unfolding one_at_a_time_def .

lemma wf_verifies: "book_wf (keccak E) k B (db s) \<Longrightarrow> run_state (verify_chains E) s = (Inr (), s)"
  by (simp add: verify_chains_def verify_spend_def verify_audit_def book_wf_def rows_ok_def chains_ok_def sort_key_sorted)

text \<open>
  C10. The mutex makes every call of the ledger one step. Any number of threads call its methods, and
  their statements, nested calls and clock readings are interleaved in any way the lock allows: when
  it is free, the books and the answers are those of the calls made one at a time, each from
  beginning to end, in some order; and books that were reachable before pass the integrity check.
\<close>

theorem ledger_calls_atomic:
  assumes "thread_step\<^sup>*\<^sup>* (ledger_machine E s calls) m" "owner m = None"
  shows "(\<exists>ts. (one_at_a_time E)\<^sup>*\<^sup>* (s, map (\<lambda>cs. (cs, [])) calls) (shared m, ts) \<and> list_all2 matches (threads m) ts)
    \<and> (reachable_books E s \<longrightarrow> run_state (verify_chains E) (shared m) = (Inr (), shared m))"
proof -
  obtain ts where run: "(one_at_a_time E)\<^sup>*\<^sup>* (s, map (\<lambda>cs. (cs, [])) calls) (shared m, ts)"
    and ts: "list_all2 matches (threads m) ts"
    using serial_order [OF assms] by blast
  have "run_state (verify_chains E) (shared m) = (Inr (), shared m)" if "reachable_books E s"
  proof -
    have "books_hold E s" using reachable_wf that by (auto simp: books_hold_def)
    then have "books_hold E (shared m)" using calls_keep_books [OF run] by blast
    then show ?thesis using wf_verifies unfolding books_hold_def by blast
  qed
  then show ?thesis using run ts by blast
qed

theorem ledger_calls_atomic_witness:
  "\<exists>m. thread_step\<^sup>*\<^sup>* (ledger_machine sample_env new_books
          [[Write (Reserve sample_caps sample_args), Stats], [Write (Audit boot_fields)], [Halted]]) m
     \<and> answered m \<and> run_state (verify_chains sample_env) (shared m) = (Inr (), shared m)"
proof -
  let ?calls = "[[Write (Reserve sample_caps sample_args), Stats], [Write (Audit boot_fields)], [Halted]]"
  obtain m where m: "thread_step\<^sup>*\<^sup>* (ledger_machine sample_env new_books ?calls) m" "answered m"
    using mutex.never_stuck(2) unfolding ledger_machine_def by blast
  have "reachable_books sample_env new_books" by (simp add: new_books_def reachable_books.new_file)
  moreover have "owner m = None" using m(2) by (simp add: answered_def)
  ultimately show ?thesis using ledger_calls_atomic [OF m(1)] m by blast
qed

text \<open>
  C11. No thread waits forever: from every state the threads can reach, each of their calls is
  answered. A state in which some call is open has a next step, whatever exceptions left the methods
  before and however deeply they call each other under the lock; no run is endless; so every run
  ends, with the lock free and one answer for each call.
\<close>

theorem ledger_never_stuck:
  assumes "thread_step\<^sup>*\<^sup>* (ledger_machine E s calls) m"
  shows "(answered m \<or> (\<exists>m'. thread_step m m'))
    \<and> (\<nexists>f. f 0 = m \<and> (\<forall>n. thread_step (f n) (f (Suc n))))
    \<and> (\<exists>m'. thread_step\<^sup>*\<^sup>* m m' \<and> answered m')
    \<and> (answered m \<longrightarrow> map (\<lambda>th. length (answers th)) (threads m) = map length calls)"
proof -
  have "map (\<lambda>th. length (answers th)) (threads m) = map length calls" if ans: "answered m"
  proof -
    obtain ts where run: "(one_at_a_time E)\<^sup>*\<^sup>* (s, map (\<lambda>cs. (cs, [])) calls) (shared m, ts)"
      and ts: "list_all2 matches (threads m) ts"
      using serial_order assms ans unfolding answered_def by blast
    have "map (\<lambda>th. length (answers th)) (threads m) = map (\<lambda>e. length (fst e) + length (snd e)) ts"
    proof (rule nth_equalityI)
      fix i assume "i < length (map (\<lambda>th. length (answers th)) (threads m))"
      then have i: "i < length (threads m)" by simp
      then have "matches (threads m ! i) (ts ! i)" "todo (threads m ! i) = []"
        using list_all2_nthD [OF ts] ans by (auto simp: answered_def)
      then show "map (\<lambda>th. length (answers th)) (threads m) ! i = map (\<lambda>e. length (fst e) + length (snd e)) ts ! i"
        using i list_all2_lengthD [OF ts] by (simp add: matches_def)
    qed (use list_all2_lengthD [OF ts] in simp)
    then show ?thesis using calls_are_kept [OF run] by (simp add: comp_def)
  qed
  then show ?thesis
    using mutex.never_stuck [OF assms [unfolded ledger_machine_def]] no_endless_run by blast
qed

theorem ledger_never_stuck_witness:
  "\<exists>m. thread_step\<^sup>*\<^sup>* (ledger_machine sample_env new_books [[Write (Reserve sample_caps sample_args)], [Stats, Halted]]) m
     \<and> answered m"
  using ledger_never_stuck [OF rtranclp.rtrancl_refl] by blast

section \<open>What the mutex is for\<close>

text \<open>
  Two threads that record a decision without the lock, as the comment on \<open>_serialized\<close> describes:
  both read the head before either writes, so the second row links to the first one's predecessor.
\<close>

definition link_env :: ledger_env where
  "link_env = sample_env\<lparr>keccak := head_hash\<rparr>"

definition unlocked_audits :: "(books, exn + unit) machine" where
  "unlocked_audits = machine_of new_books [[audit_body link_env boot_fields], [audit_body link_env boot_fields]]"

definition race :: "nat list" where
  "race = replicate 8 0 @ replicate 8 1 @ replicate 4 0 @ replicate 4 1"

lemma race_breaks:
  "(case run_schedule race unlocked_audits of None \<Rightarrow> False
    | Some m \<Rightarrow> verify_audit head_hash (db (shared m)) = Inl LedgerUnavailable)"
  by code_simp

theorem unlocked_audits_break_chain:
  "\<exists>m. thread_step\<^sup>*\<^sup>* unlocked_audits m \<and> verify_audit (keccak link_env) (db (shared m)) = Inl LedgerUnavailable"
  using race_breaks run_schedule_sound by (fastforce simp: link_env_def split: option.splits)

end
