(* ===== verification/Eip712.thy ===== *)
theory Eip712
  imports Calldata
begin

text \<open>
  \<open>escrow_signer/eip712.py\<close>: the digest the depositor signs, rebuilt from the request's fields, the
  channel read from chain and this service's own address. \<open>H\<close> is \<open>keccak\<close> of \<open>eth_utils\<close>;
  recovering a signer from a digest is \<open>eth_account\<close>'s and stays a parameter of the policy.
\<close>

definition DEBIT_TYPE_STRING :: string where
  "DEBIT_TYPE_STRING =
     ''DebitAuthorization(bytes32 channelId,address hub,address token,uint256 amount,'' @
     ''bytes32 receiptId,uint256 nonce,uint256 deadline)''"

definition DOMAIN_TYPE_STRING :: string where
  "DOMAIN_TYPE_STRING =
     ''EIP712Domain(string name,string version,uint256 chainId,address verifyingContract)''"

definition DOMAIN_NAME :: string where "DOMAIN_NAME = ''AIMarketEscrow''"
definition DOMAIN_VERSION :: string where "DOMAIN_VERSION = ''1''"

definition DEBIT_TYPEHASH :: "hashfn \<Rightarrow> bytes" where
  "DEBIT_TYPEHASH H = H (py_encode DEBIT_TYPE_STRING)"

definition address_word :: "string \<Rightarrow> exn + bytes" where
  "address_word address =
     (case fromhex (if starts_with ''0x'' address then drop 2 address else address) of
        None \<Rightarrow> Inl ValueError
      | Some raw \<Rightarrow> if length raw \<noteq> 20 then Inl ValueError else Inr (zero_bytes 12 @ raw))"

definition domain_separator :: "hashfn \<Rightarrow> int \<Rightarrow> string \<Rightarrow> exn + bytes" where
  "domain_separator H chain_id verifying_contract =
     (case to_bytes chain_id 32 of Inl e \<Rightarrow> Inl e
      | Inr chain \<Rightarrow> (case address_word verifying_contract of Inl e \<Rightarrow> Inl e
      | Inr contract \<Rightarrow>
          Inr (H (H (py_encode DOMAIN_TYPE_STRING) @ H (py_encode DOMAIN_NAME)
                  @ H (py_encode DOMAIN_VERSION) @ chain @ contract))))"

text \<open>The fields of a debit authorization, in the order of the type string.\<close>

record debit_auth =
  auth_channel :: bytes
  auth_hub :: string
  auth_token :: string
  auth_amount :: int
  auth_receipt :: bytes
  auth_nonce :: int
  auth_deadline :: int

text \<open>The bytes under the struct hash.\<close>

definition debit_struct :: "hashfn \<Rightarrow> debit_auth \<Rightarrow> exn + bytes" where
  "debit_struct H a =
     (case address_word (auth_hub a) of Inl e \<Rightarrow> Inl e
      | Inr hub \<Rightarrow> (case address_word (auth_token a) of Inl e \<Rightarrow> Inl e
      | Inr token \<Rightarrow> (case to_bytes (auth_amount a) 32 of Inl e \<Rightarrow> Inl e
      | Inr amount \<Rightarrow> (case to_bytes (auth_nonce a) 32 of Inl e \<Rightarrow> Inl e
      | Inr nonce \<Rightarrow> (case to_bytes (auth_deadline a) 32 of Inl e \<Rightarrow> Inl e
      | Inr deadline \<Rightarrow>
          Inr (DEBIT_TYPEHASH H @ auth_channel a @ hub @ token @ amount @ auth_receipt a
               @ nonce @ deadline))))))"

definition debit_digest :: "hashfn \<Rightarrow> bytes \<Rightarrow> debit_auth \<Rightarrow> exn + bytes" where
  "debit_digest H separator a =
     (case debit_struct H a of
        Inl e \<Rightarrow> Inl e
      | Inr p \<Rightarrow> Inr (H ([0x19, 0x01] @ separator @ H p)))"

section \<open>What a digest binds\<close>

text \<open>The 20 bytes an address names, whatever the case of its hexadecimal digits.\<close>

definition address_bytes :: "string \<Rightarrow> bytes option" where
  "address_bytes address =
     (case address_word address of Inl e \<Rightarrow> None | Inr w \<Rightarrow> Some (drop 12 w))"

lemma address_word_Inr:
  "address_word x = Inr w \<Longrightarrow> length w = 32 \<and> take 12 w = zero_bytes 12 \<and> address_bytes x = Some (drop 12 w)"
  by (auto simp: address_word_def address_bytes_def zero_bytes_def split: option.splits if_splits)

lemma address_word_eq:
  "address_word x = Inr w \<Longrightarrow> address_word y = Inr w \<Longrightarrow> address_bytes x = address_bytes y"
  by (simp add: address_bytes_def)

lemma debit_struct_Inr:
  assumes "debit_struct H a = Inr p"
  obtains hub token amount nonce deadline where
    "address_word (auth_hub a) = Inr hub" "address_word (auth_token a) = Inr token"
    "to_bytes (auth_amount a) 32 = Inr amount" "to_bytes (auth_nonce a) 32 = Inr nonce"
    "to_bytes (auth_deadline a) 32 = Inr deadline"
    "p = DEBIT_TYPEHASH H @ auth_channel a @ hub @ token @ amount @ auth_receipt a @ nonce @ deadline"
  using assms by (auto simp: debit_struct_def split: sum.splits)

definition auth_wf :: "debit_auth \<Rightarrow> bool" where
  "auth_wf a \<longleftrightarrow> length (auth_channel a) = 32 \<and> length (auth_receipt a) = 32"

text \<open>Two authorizations that the contract could not tell apart.\<close>

definition same_auth :: "debit_auth \<Rightarrow> debit_auth \<Rightarrow> bool" where
  "same_auth a b \<longleftrightarrow>
     auth_channel a = auth_channel b \<and> address_bytes (auth_hub a) = address_bytes (auth_hub b)
     \<and> address_bytes (auth_token a) = address_bytes (auth_token b)
     \<and> auth_amount a = auth_amount b \<and> auth_receipt a = auth_receipt b
     \<and> auth_nonce a = auth_nonce b \<and> auth_deadline a = auth_deadline b"

lemma debit_struct_inject:
  assumes a: "debit_struct H a = Inr p" and b: "debit_struct H b = Inr p"
    and wf: "auth_wf a" "auth_wf b"
  shows "same_auth a b"
proof -
  obtain hub token amount nonce deadline where A:
    "address_word (auth_hub a) = Inr hub" "address_word (auth_token a) = Inr token"
    "to_bytes (auth_amount a) 32 = Inr amount" "to_bytes (auth_nonce a) 32 = Inr nonce"
    "to_bytes (auth_deadline a) 32 = Inr deadline"
    "p = DEBIT_TYPEHASH H @ auth_channel a @ hub @ token @ amount @ auth_receipt a @ nonce @ deadline"
    using a by (rule debit_struct_Inr)
  obtain hub' token' amount' nonce' deadline' where B:
    "address_word (auth_hub b) = Inr hub'" "address_word (auth_token b) = Inr token'"
    "to_bytes (auth_amount b) 32 = Inr amount'" "to_bytes (auth_nonce b) 32 = Inr nonce'"
    "to_bytes (auth_deadline b) 32 = Inr deadline'"
    "p = DEBIT_TYPEHASH H @ auth_channel b @ hub' @ token' @ amount' @ auth_receipt b @ nonce' @ deadline'"
    using b by (rule debit_struct_Inr)
  have len: "length hub = 32" "length hub' = 32" "length token = 32" "length token' = 32"
    using A B address_word_Inr by auto
  have ints: "length amount = 32" "length nonce = 32" "length deadline = 32"
    "from_bytes amount = auth_amount a" "from_bytes nonce = auth_nonce a"
    "from_bytes deadline = auth_deadline a" "length amount' = 32" "length nonce' = 32"
    "length deadline' = 32" "from_bytes amount' = auth_amount b"
    "from_bytes nonce' = auth_nonce b" "from_bytes deadline' = auth_deadline b"
    using A B by (auto simp: to_bytes_Inr)
  have "auth_channel a = auth_channel b \<and> hub = hub' \<and> token = token' \<and> amount = amount'
      \<and> auth_receipt a = auth_receipt b \<and> nonce = nonce' \<and> deadline = deadline'"
    using A(6) B(6) wf len ints(1,2,3,7,8,9) by (auto simp: auth_wf_def)
  then show ?thesis
    using A B ints by (auto simp: same_auth_def dest: address_word_eq)
qed

text \<open>The bytes under the domain separator: the three constant hashes, the chain and the contract.\<close>

definition domain_struct :: "hashfn \<Rightarrow> int \<Rightarrow> string \<Rightarrow> exn + bytes" where
  "domain_struct H c e =
     (case to_bytes c 32 of Inl x \<Rightarrow> Inl x
      | Inr chain \<Rightarrow> (case address_word e of Inl x \<Rightarrow> Inl x
      | Inr contract \<Rightarrow>
          Inr (H (py_encode DOMAIN_TYPE_STRING) @ H (py_encode DOMAIN_NAME) @ H (py_encode DOMAIN_VERSION)
               @ chain @ contract)))"

lemma domain_separator_hashes: "domain_struct H c e = Inr m \<Longrightarrow> domain_separator H c e = Inr (H m)"
  by (auto simp: domain_struct_def domain_separator_def split: sum.splits)

lemma domain_struct_inject:
  assumes "domain_struct H c e = Inr m" "domain_struct H c' e' = Inr m"
  shows "c = c' \<and> address_bytes e = address_bytes e'"
proof -
  obtain chain chain' contract contract' where
    w: "to_bytes c 32 = Inr chain" "to_bytes c' 32 = Inr chain'" "address_word e = Inr contract"
      "address_word e' = Inr contract'" and "chain @ contract = chain' @ contract'"
    using assms by (auto simp: domain_struct_def split: sum.splits)
  then have same: "chain = chain'" "contract = contract'" by (simp_all add: to_bytes_Inr)
  have "c = from_bytes chain" "c' = from_bytes chain'" using w(1,2) by (simp_all only: to_bytes_Inr)
  moreover have "address_bytes e = address_bytes e'" using w(3,4) unfolding same(2) by (rule address_word_eq)
  ultimately show ?thesis using same(1) by simp
qed

text \<open>
  C27. The digest binds the domain and every field. For a hash of 32 bytes without a collision among the
  bytes hashed here (the two domains, the two authorisations, the two digests), two well-formed
  authorisations, each under the separator of its own chain and escrow, have the same digest only if
  chain id, escrow address, channel, hub address, token address, amount, receipt id, nonce and deadline
  all agree: a signature minted for another deployment, hub, nonce or amount authorises nothing here.
\<close>

theorem debit_digest_binds:
  assumes "domain_separator H c e = Inr s" "domain_separator H c' e' = Inr s'"
    and "debit_digest H s a = Inr d" "debit_digest H s' b = Inr d"
    and "auth_wf a" "auth_wf b"
    and "domain_struct H c e = Inr m" "domain_struct H c' e' = Inr m'"
    and "debit_struct H a = Inr p" "debit_struct H b = Inr q"
    and "inj_on H {m, m', p, q, [0x19, 0x01] @ s @ H p, [0x19, 0x01] @ s' @ H q}"
    and "\<And>x. length (H x) = 32"
  shows "c = c' \<and> address_bytes e = address_bytes e' \<and> same_auth a b"
proof -
  have sep: "s = H m" "s' = H m'"
    using assms(1,2) domain_separator_hashes [OF assms(7)] domain_separator_hashes [OF assms(8)] by simp_all
  have "H ([0x19, 0x01] @ s @ H p) = H ([0x19, 0x01] @ s' @ H q)"
    using assms(3,4,9,10) by (simp add: debit_digest_def)
  then have "[0x19, 0x01] @ s @ H p = [0x19, 0x01] @ s' @ H q"
    by (rule inj_onD [OF assms(11)]) simp_all
  then have eqs: "H m = H m'" "H p = H q" using assms(12) by (simp_all add: sep)
  have "m = m'" "p = q" by (rule inj_onD [OF assms(11)]; simp add: eqs)+
  then show ?thesis
    using assms(5-10) debit_struct_inject domain_struct_inject by blast
qed

definition sample_auth :: "string \<Rightarrow> debit_auth" where
  "sample_auth hub =
     \<lparr>auth_channel = replicate 32 1, auth_hub = hub,
      auth_token = ''0x833589fCD6eDb6E08f4c7C32D4f71b54bdA02913'', auth_amount = 20000,
      auth_receipt = replicate 32 2, auth_nonce = 7, auth_deadline = 1700000000\<rparr>"

text \<open>A hash of 32 bytes that tells the domain, the authorisation and the digest apart, by their lengths.\<close>

definition length_hash :: hashfn where
  "length_hash x = replicate 31 0 @ [of_nat (length x)]"

theorem debit_digest_binds_witness:
  "let x = ''0xBE0bBE44cceCfEb048dd53f601C37525a3D6C5f1''; y = ''0xbe0bbe44ccecfeb048dd53f601c37525a3d6c5f1'';
       a = sample_auth x; b = sample_auth y
   in same_auth a b \<and> a \<noteq> b \<and> address_bytes x = address_bytes y"
proof -
  let ?x = "''0xBE0bBE44cceCfEb048dd53f601C37525a3D6C5f1''"
  let ?y = "''0xbe0bbe44ccecfeb048dd53f601c37525a3d6c5f1''"
  let ?H = length_hash and ?a = "sample_auth ?x" and ?b = "sample_auth ?y"
  have eval: "debit_struct ?H ?a = debit_struct ?H ?b" "(case debit_struct ?H ?a of Inr p \<Rightarrow> length p = 256 | Inl e \<Rightarrow> False)"
    "domain_struct ?H 8453 ?x = domain_struct ?H 8453 ?y" "(case domain_struct ?H 8453 ?x of Inr m \<Rightarrow> length m = 160 | Inl e \<Rightarrow> False)"
    "?a \<noteq> ?b"
    by code_simp+
  then obtain p m where p: "debit_struct ?H ?a = Inr p" "debit_struct ?H ?b = Inr p" "length p = 256"
    and m: "domain_struct ?H 8453 ?x = Inr m" "domain_struct ?H 8453 ?y = Inr m" "length m = 160"
    by (auto split: sum.splits)
  have s: "domain_separator ?H 8453 ?x = Inr (?H m)" "domain_separator ?H 8453 ?y = Inr (?H m)"
    using m domain_separator_hashes by blast+
  let ?o = "[0x19, 0x01] @ ?H m @ ?H p"
  have len: "length (?H x) = 32" for x by (simp add: length_hash_def)
  have d: "debit_digest ?H (?H m) ?a = Inr (?H ?o)" "debit_digest ?H (?H m) ?b = Inr (?H ?o)"
    using p by (simp_all add: debit_digest_def)
  have "inj_on ?H {m, m, p, p, ?o, ?o}"
    using p(3) m(3) len by (auto simp: inj_on_def length_hash_def)
  from debit_digest_binds [OF s d _ _ m(1,2) p(1,2) this len]
  have "same_auth ?a ?b \<and> address_bytes ?x = address_bytes ?y" by (simp add: auth_wf_def sample_auth_def)
  with eval(5) show ?thesis unfolding Let_def by blast
qed

end
