(* ===== verification/Chainio.thy ===== *)
theory Chainio
  imports Ledger_Methods
begin

text \<open>
  \<open>escrow_signer/chainio.py\<close>: the signer's own view of the chain over JSON-RPC. The HTTP exchange
  of \<open>_post\<close> is a parameter: which reply, or failure, the n-th exchange of the process brings, for
  any endpoint, method and arguments. Everything after it is modelled: the rotation over the
  endpoints, the classification of errors and reverts, and every typed read with its parsing.
  \<open>last_errors\<close> and the log lines are left out.
\<close>

section \<open>JSON values\<close>

text \<open>What \<open>json.loads\<close> returns: a float carries its \<open>repr\<close>, a dictionary holds each key once.\<close>

datatype json =
    JNull
  | JBool bool
  | JInt int
  | JFloat string
  | JStr string
  | JList "json list"
  | JObj "(string \<times> json) list"

text \<open>\<open>bool(x)\<close>.\<close>

fun truthy :: "json \<Rightarrow> bool" where
  "truthy JNull = False"
| "truthy (JBool b) = b"
| "truthy (JInt i) = (i \<noteq> 0)"
| "truthy (JFloat t) = (t \<noteq> ''0.0'' \<and> t \<noteq> ''-0.0'')"
| "truthy (JStr s) = (s \<noteq> [])"
| "truthy (JList xs) = (xs \<noteq> [])"
| "truthy (JObj kvs) = (kvs \<noteq> [])"

text \<open>\<open>d.get(k)\<close> of a dictionary.\<close>

definition obj_get :: "(string \<times> json) list \<Rightarrow> string \<Rightarrow> json" where
  "obj_get kvs k = (case map_of kvs k of None \<Rightarrow> JNull | Some v \<Rightarrow> v)"

text \<open>\<open>x.get(k)\<close> of any value: only a dictionary has the method.\<close>

definition get_attr :: "json \<Rightarrow> string \<Rightarrow> exn + json" where
  "get_attr j k = (case j of JObj kvs \<Rightarrow> Inr (obj_get kvs k) | _ \<Rightarrow> Inl AttributeError)"

text \<open>\<open>repr\<close> of a string, and of the containers, as \<open>str(list)\<close> prints them.\<close>

definition repr_char :: "char \<Rightarrow> char \<Rightarrow> string" where
  "repr_char q c =
     (let n = code c in
      if c = q \<or> n = 92 then [CHR 0x5C, c]
      else if n = 10 then [CHR 0x5C, CHR ''n'']
      else if n = 13 then [CHR 0x5C, CHR ''r'']
      else if n = 9 then [CHR 0x5C, CHR ''t'']
      else if n < 32 \<or> 127 \<le> n \<and> n \<le> 160 \<or> n = 173
        then [CHR 0x5C, CHR ''x'', digit_char (n div 16), digit_char (n mod 16)]
      else [c])"

definition repr_str :: "string \<Rightarrow> string" where
  "repr_str s =
     (let q = (if CHR 0x27 \<in> set s \<and> CHR 0x22 \<notin> set s then CHR 0x22 else CHR 0x27)
      in [q] @ concat (map (repr_char q) s) @ [q])"

fun comma_join :: "string list \<Rightarrow> string" where
  "comma_join [] = []"
| "comma_join [s] = s"
| "comma_join (s # x # xs) = s @ '', '' @ comma_join (x # xs)"

fun py_repr :: "json \<Rightarrow> string" where
  "py_repr JNull = ''None''"
| "py_repr (JBool b) = (if b then ''True'' else ''False'')"
| "py_repr (JInt i) = int_str i"
| "py_repr (JFloat t) = t"
| "py_repr (JStr s) = repr_str s"
| "py_repr (JList xs) = ''['' @ comma_join (map py_repr xs) @ '']''"
| "py_repr (JObj kvs) =
     ''{'' @ comma_join (map (\<lambda>kv. repr_str (fst kv) @ '': '' @ py_repr (snd kv)) kvs) @ ''}''"

definition py_str :: "json \<Rightarrow> string" where
  "py_str j = (case j of JStr s \<Rightarrow> s | _ \<Rightarrow> py_repr j)"

text \<open>\<open>int(str(x), 16)\<close> and \<open>bytes.fromhex(str(x)[2:])\<close>.\<close>

definition hex_int :: "json \<Rightarrow> exn + int" where
  "hex_int j = someR (py_int16 (py_str j)) ValueError"

definition hex_data :: "json \<Rightarrow> exn + bytes" where
  "hex_data j = someR (fromhex (drop 2 (py_str j))) ValueError"

section \<open>The state of the pool\<close>

text \<open>
  The number of HTTP exchanges so far and the escrows known to be V1. The reply of \<open>_post\<close> is
  \<open>None\<close> when it raises (HTTP error, time-out, TLS, a body that is not JSON), which the loop treats
  alike. \<open>decode_utf8\<close> is \<open>bytes.decode("utf-8", "replace")\<close>: its result may hold code points
  that a \<open>string\<close> here has no character for, so it stays a parameter; it only feeds the text of an
  error name.
\<close>

record rpc_state = books +
  exchanges :: nat
  v1_escrows :: "string list"

record rpc_env = ledger_env +
  endpoints :: "string list"
  http_post :: "nat \<Rightarrow> string \<Rightarrow> string \<Rightarrow> json list \<Rightarrow> json option"
  decode_utf8 :: "bytes \<Rightarrow> string"

definition ESCROW_ERRORS :: "string list" where
  "ESCROW_ERRORS =
     [''ChannelNotFound()'', ''ChannelNotOpen()'', ''ChannelExists()'', ''ChannelNotExpired()'',
      ''InsufficientBalance(uint256,uint256)'', ''InvalidSignature()'', ''ChannelExpired()'',
      ''Unauthorized()'', ''DepositOutOfRange()'', ''TokenNotSupported()'',
      ''ReceiptAlreadyUsed(bytes32)'', ''RefundAfterDebit()'', ''UnsupportedTokenDecimals()'',
      ''ReasonTooLong()'']"

text \<open>\<open>_ERROR_NAMES\<close>, where a later signature with the same selector overwrites an earlier one.\<close>

definition error_name :: "hashfn \<Rightarrow> string \<Rightarrow> string option" where
  "error_name H sel =
     map_of (rev (map (\<lambda>sig. (hex0x (selector H sig), takeWhile (\<lambda>c. c \<noteq> CHR ''('') sig)) ESCROW_ERRORS)) sel"

definition decode_revert :: "'e rpc_env_scheme \<Rightarrow> string \<Rightarrow> string" where
  "decode_revert E data =
     (let raw = py_strip data in
      if \<not> starts_with ''0x'' raw \<or> length raw < 10 then ''unknown_revert''
      else
        let sel = py_lower (take 10 raw) in
        (case error_name (keccak E) sel of
           Some name \<Rightarrow> name
         | None \<Rightarrow>
             if sel = ''0x08c379a0''
             then (case fromhex (drop 10 raw) of
                     None \<Rightarrow> ''Error(string)''
                   | Some body \<Rightarrow>
                       ''Error:'' @ take 64 (decode_utf8 E
                         (take (nat (from_bytes (slice 32 64 body))) (drop 64 body))))
             else ''revert'' @ sel))"

section \<open>One JSON-RPC call\<close>

definition post :: "'e rpc_env_scheme \<Rightarrow> string \<Rightarrow> string \<Rightarrow> json list \<Rightarrow> ('z rpc_state_scheme, json option) py" where
  "post E url method params =
     State (\<lambda>s. (Inr (http_post E (exchanges s) url method params), s\<lparr>exchanges := Suc (exchanges s)\<rparr>))"

text \<open>\<open>needle in hay\<close> of strings.\<close>

fun contains :: "string \<Rightarrow> string \<Rightarrow> bool" where
  "contains p [] = (p = [])"
| "contains p (c # cs) = (starts_with p (c # cs) \<or> contains p cs)"

text \<open>
  What the loop does with a reply: leave with the result, leave with an exception, or go on to the
  next endpoint (\<open>None\<close>).
\<close>

definition read_error :: "'e rpc_env_scheme \<Rightarrow> json \<Rightarrow> exn option" where
  "read_error E err =
     (case err of
        JObj kvs \<Rightarrow>
          (let data0 = obj_get kvs ''data'';
               data = (case data0 of JObj inner \<Rightarrow> obj_get inner ''data'' | _ \<Rightarrow> data0);
               message = (if truthy (obj_get kvs ''message'') then obj_get kvs ''message'' else JStr [])
           in case data of
                JStr d \<Rightarrow>
                  if starts_with ''0x'' d \<and> 10 \<le> length d then Some (Reverted (decode_revert E d))
                  else (case message of
                          JStr m \<Rightarrow> if contains ''revert'' (py_lower m) then Some (Reverted ''unknown_revert'') else None
                        | _ \<Rightarrow> Some AttributeError)
              | _ \<Rightarrow>
                  (case message of
                     JStr m \<Rightarrow> if contains ''revert'' (py_lower m) then Some (Reverted ''unknown_revert'') else None
                   | _ \<Rightarrow> Some AttributeError))
      | _ \<Rightarrow> None)"

definition read_reply :: "'e rpc_env_scheme \<Rightarrow> json \<Rightarrow> (exn + json) option" where
  "read_reply E body =
     (case body of
        JObj kvs \<Rightarrow>
          if truthy (obj_get kvs ''error'') then map_option Inl (read_error E (obj_get kvs ''error''))
          else (case map_of kvs ''result'' of Some r \<Rightarrow> Some (Inr r) | None \<Rightarrow> None)
      | _ \<Rightarrow> Some (Inl AttributeError))"

fun try_endpoints :: "'e rpc_env_scheme \<Rightarrow> string list \<Rightarrow> string \<Rightarrow> json list \<Rightarrow> ('z rpc_state_scheme, json) py" where
  "try_endpoints E [] method params = raise RpcUnavailable"
| "try_endpoints E (url # urls) method params =
     bindE (post E url method params) (\<lambda>reply.
       case Option.bind reply (read_reply E) of
         None \<Rightarrow> try_endpoints E urls method params
       | Some r \<Rightarrow> liftE r)"

definition call_method :: "'e rpc_env_scheme \<Rightarrow> string \<Rightarrow> json list \<Rightarrow> ('z rpc_state_scheme, json) py" where
  "call_method E method params = try_endpoints E (endpoints E) method params"

section \<open>Typed reads\<close>

definition rpc_chain_id :: "'e rpc_env_scheme \<Rightarrow> ('z rpc_state_scheme, int) py" where
  "rpc_chain_id E = bindE (call_method E ''eth_chainId'' []) (\<lambda>r. liftE (hex_int r))"

definition eth_call :: "'e rpc_env_scheme \<Rightarrow> string \<Rightarrow> bytes \<Rightarrow> string \<Rightarrow> ('z rpc_state_scheme, bytes) py" where
  "eth_call E to data sender =
     bindE (call_method E ''eth_call''
       [JObj ([(''to'', JStr to), (''data'', JStr (hex0x data))]
              @ (if sender \<noteq> [] then [(''from'', JStr sender)] else [])), JStr ''latest''])
       (\<lambda>r. liftE (hex_data r))"

definition estimate_gas :: "'e rpc_env_scheme \<Rightarrow> string \<Rightarrow> bytes \<Rightarrow> string \<Rightarrow> ('z rpc_state_scheme, int) py" where
  "estimate_gas E to data sender =
     bindE (call_method E ''eth_estimateGas''
       [JObj [(''to'', JStr to), (''from'', JStr sender), (''data'', JStr (hex0x data)), (''value'', JStr ''0x0'')]])
       (\<lambda>r. liftE (hex_int r))"

definition base_fee_wei :: "'e rpc_env_scheme \<Rightarrow> ('z rpc_state_scheme, int) py" where
  "base_fee_wei E =
     bindE (call_method E ''eth_getBlockByNumber'' [JStr ''latest'', JBool False]) (\<lambda>block.
     bindE (liftE (get_attr block ''baseFeePerGas'')) (\<lambda>fee.
       liftE (hex_int (if truthy fee then fee else JStr ''0x0''))))"

definition transaction_count :: "'e rpc_env_scheme \<Rightarrow> string \<Rightarrow> string \<Rightarrow> ('z rpc_state_scheme, int) py" where
  "transaction_count E address block =
     bindE (call_method E ''eth_getTransactionCount'' [JStr address, JStr block]) (\<lambda>r. liftE (hex_int r))"

definition send_raw :: "'e rpc_env_scheme \<Rightarrow> bytes \<Rightarrow> ('z rpc_state_scheme, string) py" where
  "send_raw E raw =
     bindE (call_method E ''eth_sendRawTransaction'' [JStr (hex0x raw)]) (\<lambda>r. ok (py_str r))"

definition rpc_receipt :: "'e rpc_env_scheme \<Rightarrow> string \<Rightarrow> ('z rpc_state_scheme, json) py" where
  "rpc_receipt E h = call_method E ''eth_getTransactionReceipt'' [JStr h]"

definition balance_wei :: "'e rpc_env_scheme \<Rightarrow> string \<Rightarrow> ('z rpc_state_scheme, int) py" where
  "balance_wei E address =
     bindE (call_method E ''eth_getBalance'' [JStr address, JStr ''latest'']) (\<lambda>r. liftE (hex_int r))"

section \<open>Reads of the escrow and the token\<close>

record channel =
  ch_depositor :: string
  ch_hub :: string
  ch_token :: string
  ch_deposit_amount :: int
  ch_balance :: int
  ch_used_amount :: int
  ch_expires_at :: int
  ch_nonce :: int
  ch_status :: int
  ch_closable_at :: int
  ch_v2 :: bool

definition is_open :: "channel \<Rightarrow> bool" where
  "is_open c \<longleftrightarrow> ch_status c = 0"

text \<open>\<open>int(addr, 16) != 0\<close>; the addresses of a channel are always hexadecimal.\<close>

definition addr_int :: "string \<Rightarrow> exn + int" where
  "addr_int a = someR (py_int16 a) ValueError"

definition channel_exists :: "channel \<Rightarrow> exn + bool" where
  "channel_exists c = bindR (addr_int (ch_depositor c)) (\<lambda>i. Inr (i \<noteq> 0))"

definition nth_word :: "nat \<Rightarrow> bytes \<Rightarrow> bytes" where
  "nth_word i out = slice (i * 32) ((i + 1) * 32) out"

definition addr_of :: "bytes \<Rightarrow> string" where
  "addr_of w = hex0x (drop 12 w)"

definition parse_channel :: "bytes \<Rightarrow> channel" where
  "parse_channel out =
     (let v2 = (10 * 32 \<le> length out); w = (\<lambda>i. nth_word i out) in
      \<lparr>ch_depositor = addr_of (w 0), ch_hub = addr_of (w 1), ch_token = addr_of (w 2),
       ch_deposit_amount = from_bytes (w 3), ch_balance = from_bytes (w 4),
       ch_used_amount = from_bytes (w 5), ch_expires_at = from_bytes (w 6),
       ch_nonce = from_bytes (w 7), ch_status = from_bytes (if v2 then w 9 else w 8),
       ch_closable_at = (if v2 then from_bytes (w 8) else 0), ch_v2 = v2\<rparr>)"

definition get_channel :: "'e rpc_env_scheme \<Rightarrow> string \<Rightarrow> bytes \<Rightarrow> ('z rpc_state_scheme, channel) py" where
  "get_channel E escrow_addr cid =
     bindE (eth_call E escrow_addr (selector (keccak E) GET_CHANNEL_SIG @ cid) []) (\<lambda>out.
       if length out < 9 * 32 then raise RpcUnavailable else ok (parse_channel out))"

text \<open>\<open>out[-32:]\<close>.\<close>

definition last_word :: "bytes \<Rightarrow> bytes" where
  "last_word out = drop (length out - 32) out"

definition used_receipts :: "'e rpc_env_scheme \<Rightarrow> string \<Rightarrow> bytes \<Rightarrow> ('z rpc_state_scheme, bool) py" where
  "used_receipts E escrow_addr rid =
     bindE (eth_call E escrow_addr (selector (keccak E) USED_RECEIPTS_SIG @ rid) []) (\<lambda>out.
       ok (if out \<noteq> [] then from_bytes (last_word out) \<noteq> 0 else False))"

definition is_reverted :: "exn \<Rightarrow> bool" where
  "is_reverted e = (case e of Reverted n \<Rightarrow> True | _ \<Rightarrow> False)"

definition receipt_used :: "'e rpc_env_scheme \<Rightarrow> string \<Rightarrow> bytes \<Rightarrow> bytes option \<Rightarrow> ('z rpc_state_scheme, bool) py" where
  "receipt_used E escrow_addr rid cid =
     bindE (readE v1_escrows) (\<lambda>v1.
       case cid of
         None \<Rightarrow> used_receipts E escrow_addr rid
       | Some c \<Rightarrow>
           if py_lower escrow_addr \<in> set v1 then used_receipts E escrow_addr rid
           else tryE (eth_call E escrow_addr (selector (keccak E) IS_RECEIPT_USED_SIG @ c @ rid) [])
             (\<lambda>e. if \<not> is_reverted e then raise e
                   else tryE (eth_call E escrow_addr (selector (keccak E) SETTLE_WINDOW_SIG) [])
                     (\<lambda>e2. if \<not> is_reverted e2 then raise e2
                            else thenE (writeE (\<lambda>s. s\<lparr>v1_escrows := py_lower escrow_addr # v1_escrows s\<rparr>))
                                   (used_receipts E escrow_addr rid))
                     (\<lambda>_. raise RpcUnavailable))
             (\<lambda>out. if length out < 32 then raise RpcUnavailable
                    else ok (from_bytes (last_word out) \<noteq> 0)))"

text \<open>\<open>bytes(12) + bytes.fromhex(address[2:])\<close>.\<close>

definition padded_address :: "string \<Rightarrow> exn + bytes" where
  "padded_address a = bindR (someR (fromhex (drop 2 a)) ValueError) (\<lambda>b. Inr (zero_bytes 12 @ b))"

definition hub_authorized :: "'e rpc_env_scheme \<Rightarrow> string \<Rightarrow> string \<Rightarrow> ('z rpc_state_scheme, bool) py" where
  "hub_authorized E escrow_addr address =
     bindE (liftE (padded_address address)) (\<lambda>w.
     bindE (eth_call E escrow_addr (selector (keccak E) AUTHORIZED_HUBS_SIG @ w) []) (\<lambda>out.
       ok (if out \<noteq> [] then from_bytes (last_word out) \<noteq> 0 else False)))"

definition chain_separator :: "'e rpc_env_scheme \<Rightarrow> string \<Rightarrow> ('z rpc_state_scheme, bytes) py" where
  "chain_separator E escrow_addr =
     bindE (eth_call E escrow_addr (selector (keccak E) DOMAIN_SEPARATOR_SIG) []) (\<lambda>out. ok (last_word out))"

definition token_balance :: "'e rpc_env_scheme \<Rightarrow> string \<Rightarrow> string \<Rightarrow> ('z rpc_state_scheme, int) py" where
  "token_balance E token_addr address =
     bindE (liftE (padded_address address)) (\<lambda>w.
     bindE (eth_call E token_addr (selector (keccak E) BALANCE_OF_SIG @ w) []) (\<lambda>out.
       if length out < 32 then raise RpcUnavailable else ok (from_bytes (last_word out))))"

definition token_decimals :: "'e rpc_env_scheme \<Rightarrow> string \<Rightarrow> ('z rpc_state_scheme, int) py" where
  "token_decimals E token_addr =
     bindE (eth_call E token_addr (selector (keccak E) DECIMALS_SIG) []) (\<lambda>out. ok (from_bytes (last_word out)))"

definition simulate :: "'e rpc_env_scheme \<Rightarrow> string \<Rightarrow> bytes \<Rightarrow> string \<Rightarrow> ('z rpc_state_scheme, unit) py" where
  "simulate E to data sender = thenE (eth_call E to data sender) (ok ())"

section \<open>Reads leave everything else alone\<close>

text \<open>A relation on states that does not see the exchange counter and the memory of V1 escrows.\<close>

locale rpc_neutral = effect_preorder R for R :: "'z rpc_state_scheme \<Rightarrow> 'z rpc_state_scheme \<Rightarrow> bool" +
  assumes neutral_exchange: "R s (s\<lparr>exchanges := n\<rparr>)"
    and neutral_v1: "R s (s\<lparr>v1_escrows := vs\<rparr>)"
begin

lemma io_post: "state_io_rel R (post E url method params)"
  by (auto simp: post_def state_io_rel_def neutral_exchange)

lemma io_try_endpoints: "state_io_rel R (try_endpoints E urls method params)"
  by (induction urls) (auto intro!: io_intros io_post)

lemma io_call_method: "state_io_rel R (call_method E method params)"
  unfolding call_method_def by (rule io_try_endpoints)

lemma io_eth_call: "state_io_rel R (eth_call E to data sender)"
  unfolding eth_call_def by (intro io_intros io_call_method)

lemma io_used_receipts: "state_io_rel R (used_receipts E escrow_addr rid)"
  unfolding used_receipts_def by (intro io_intros io_eth_call)

lemma io_receipt_used: "state_io_rel R (receipt_used E escrow_addr rid cid)"
  unfolding receipt_used_def
  by (intro io_intros io_eth_call io_used_receipts io_writeE neutral_v1)

lemma io_reads:
  "state_io_rel R (rpc_chain_id E)" "state_io_rel R (estimate_gas E to data sender)"
  "state_io_rel R (base_fee_wei E)" "state_io_rel R (transaction_count E address block)"
  "state_io_rel R (rpc_receipt E h)" "state_io_rel R (get_channel E escrow_addr cid)"
  "state_io_rel R (hub_authorized E escrow_addr address)" "state_io_rel R (chain_separator E escrow_addr)"
  "state_io_rel R (token_balance E token_addr address)" "state_io_rel R (token_decimals E token_addr)"
  "state_io_rel R (simulate E to data sender)"
  unfolding rpc_chain_id_def estimate_gas_def base_fee_wei_def transaction_count_def rpc_receipt_def
    get_channel_def hub_authorized_def chain_separator_def token_balance_def token_decimals_def simulate_def
  by (intro io_intros io_call_method io_eth_call)+

lemma io_send_raw: "state_io_rel R (send_raw E raw)"
  unfolding send_raw_def by (intro io_intros io_call_method)

end

interpretation rpc_same_db: rpc_neutral "same db :: 'z rpc_state_scheme \<Rightarrow> 'z rpc_state_scheme \<Rightarrow> bool"
  by unfold_locales (auto simp: same_def)

interpretation rpc_same_more: rpc_neutral "same rpc_state.more :: 'z rpc_state_scheme \<Rightarrow> 'z rpc_state_scheme \<Rightarrow> bool"
  by unfold_locales (auto simp: same_def)

interpretation rpc_evolves: rpc_neutral "evolves H k B :: 'z rpc_state_scheme \<Rightarrow> 'z rpc_state_scheme \<Rightarrow> bool"
  for H :: hashfn and k :: nonce_key and B :: "int set"
  by unfold_locales (auto simp: evolves_def intro: rtranclp_trans dest: path_keeps_rows)

end
