(* ===== verification/Policy_Base.thy ===== *)
theory Policy_Base
  imports Eip712 Chainio
begin

text \<open>
  \<open>escrow_signer/policy.py\<close>, the parts every road shares: the state of \<open>PolicySigner\<close>, decisions,
  the checks of the envelope and of the call, the identity of the chain, and reconciliation of live
  rows with chain evidence. The signing key is a parameter: what \<open>eth_account\<close> signs and recovers,
  and the address of the key. \<open>json.loads\<close> of the body is a parameter too (\<open>None\<close> when decoding or
  parsing raises); everything that is then asked of the value is modelled.
\<close>

section \<open>State and services\<close>

text \<open>A transaction as it is handed to \<open>account.sign_transaction\<close>.\<close>

record tx_request =
  t_to :: string
  t_value :: int
  t_data :: string
  t_gas :: int
  t_max_fee :: int
  t_priority :: int
  t_nonce :: int
  t_chain_id :: int
  t_type :: int

text \<open>
  \<open>ready\<close>, \<open>not_ready_reason\<close>, \<open>_chain_ok_until\<close>, and two fields that only record what leaves the
  process: the transactions the key signed, and those whose bytes were handed to \<open>send_raw\<close>.
\<close>

record signer_state = rpc_state +
  ready :: bool
  not_ready_reason :: string
  chain_ok_until :: rat
  signed_txs :: "tx_request list"
  sent_txs :: "tx_request list"

text \<open>\<open>sign_tx\<close> gives the name of an exception or the raw bytes, \<open>recover_hash\<close> \<open>None\<close> when it raises.\<close>

record signer_env = rpc_env +
  environment :: environ
  conf :: settings
  own_address :: string
  json_loads :: "bytes \<Rightarrow> json option"
  sign_tx :: "tx_request \<Rightarrow> string + bytes"
  recover_hash :: "bytes \<Rightarrow> bytes \<Rightarrow> string option"

definition own_escrow :: "'e signer_env_scheme \<Rightarrow> string" where
  "own_escrow P = ESCROW (environment P)"

text \<open>\<open>self._separator\<close>, computed once for the pinned escrow.\<close>

definition own_separator :: "'e signer_env_scheme \<Rightarrow> bytes" where
  "own_separator P =
     (case domain_separator (keccak P) CHAIN_ID (own_escrow P) of Inr b \<Rightarrow> b | Inl _ \<Rightarrow> [])"

section \<open>Decisions\<close>

record decision =
  d_status :: int
  d_body :: "(string \<times> json) list"
  d_reason_code :: string
  d_receipt_id :: string
  d_channel_id :: string
  d_amount_units :: int
  d_digest16 :: string
  d_tx_hash :: string
  d_decision :: string

definition ALARM_CODES :: "string list" where
  "ALARM_CODES =
     [''selector_not_allowed'', ''to_not_escrow'', ''value_not_zero'', ''wrong_chain'',
      ''receipt_id_tuple_conflict'', ''hub_gas_anomalous'', ''clock_regression'', ''ledger_chain_mismatch'']"

definition alarm :: "decision \<Rightarrow> bool" where
  "alarm d \<longleftrightarrow> d_reason_code d \<in> set ALARM_CODES"

text \<open>The keyword arguments a refusal or an answer carries along.\<close>

record common =
  c_digest16 :: string
  c_receipt_id :: string
  c_channel_id :: string
  c_amount :: int

definition no_common :: common where
  "no_common = \<lparr>c_digest16 = [], c_receipt_id = [], c_channel_id = [], c_amount = 0\<rparr>"

definition refuse :: "int \<Rightarrow> string \<Rightarrow> common \<Rightarrow> decision" where
  "refuse status reason c =
     \<lparr>d_status = status, d_body = [(''error'', JStr reason)], d_reason_code = reason,
      d_receipt_id = c_receipt_id c, d_channel_id = c_channel_id c, d_amount_units = c_amount c,
      d_digest16 = c_digest16 c, d_tx_hash = [], d_decision = ''refused''\<rparr>"

text \<open>With \<open>retry_after_s\<close>, which is always the default of \<open>CapBreach\<close>.\<close>

definition refuse_retry :: "int \<Rightarrow> string \<Rightarrow> common \<Rightarrow> decision" where
  "refuse_retry status reason c =
     (refuse status reason c)\<lparr>d_body := [(''error'', JStr reason), (''retry_after_s'', JInt 60)]\<rparr>"

definition answer :: "string \<Rightarrow> bool \<Rightarrow> string \<Rightarrow> common \<Rightarrow> decision" where
  "answer h replayed verdict c =
     \<lparr>d_status = 200, d_body = [(''tx_hash'', JStr h), (''replayed'', JBool replayed)], d_reason_code = [],
      d_receipt_id = c_receipt_id c, d_channel_id = c_channel_id c, d_amount_units = c_amount c,
      d_digest16 = c_digest16 c, d_tx_hash = h, d_decision = verdict\<rparr>"

section \<open>Helpers\<close>

text \<open>The last second \<open>debitChannel\<close> is accepted.\<close>

definition debit_deadline :: "channel \<Rightarrow> int" where
  "debit_deadline c = ch_expires_at c + (if ch_v2 c then ESCROW_V2_SETTLE_WINDOW_S else 0)"

definition channel_bytes :: "string \<Rightarrow> bytes option" where
  "channel_bytes raw =
     (if length raw \<noteq> 66 \<or> \<not> starts_with ''0x'' raw then None else fromhex (drop 2 raw))"

definition SWEEP_CHANNEL :: string where "SWEEP_CHANNEL = ''sweep:proceeds''"
definition SWEEP_GIVE_UP_S :: int where "SWEEP_GIVE_UP_S = 86400"

section \<open>R3 to R6: the envelope\<close>

definition ENVELOPE_KEYS :: "string list" where
  "ENVELOPE_KEYS = [''to'', ''data'', ''chainId'', ''gas'', ''value'']"

record envelope =
  e_to :: string
  e_data :: bytes
  e_gas :: int

text \<open>\<open>set(d) == {...}\<close>.\<close>

definition has_keys :: "(string \<times> json) list \<Rightarrow> string list \<Rightarrow> bool" where
  "has_keys kvs ks \<longleftrightarrow> set (map fst kvs) = set ks"

text \<open>The value of a key that must be an integer and not a boolean.\<close>

definition int_field :: "(string \<times> json) list \<Rightarrow> string \<Rightarrow> int option" where
  "int_field kvs k = (case obj_get kvs k of JInt i \<Rightarrow> Some i | _ \<Rightarrow> None)"

definition parse_to :: "'e signer_env_scheme \<Rightarrow> json \<Rightarrow> string option" where
  "parse_to P j =
     (case j of
        JStr a \<Rightarrow>
          if length a \<noteq> 42 \<or> \<not> starts_with ''0x'' a then None
          else (case fromhex (drop 2 a) of
                  None \<Rightarrow> None
                | Some raw \<Rightarrow>
                    if length raw \<noteq> 20 \<or> Some raw \<noteq> fromhex (drop 2 (own_escrow P)) then None else Some a)
      | _ \<Rightarrow> None)"

definition parse_data :: "json \<Rightarrow> exn + bytes" where
  "parse_data j =
     (case j of JStr s \<Rightarrow> parse_hex_bytes s ''calldata_length'' | _ \<Rightarrow> Inl (CalldataError ''calldata_length''))"

definition calldata_reason :: "exn \<Rightarrow> string" where
  "calldata_reason e = (case e of CalldataError r \<Rightarrow> r | _ \<Rightarrow> [])"

definition parse_envelope :: "'e signer_env_scheme \<Rightarrow> bytes \<Rightarrow> decision + envelope" where
  "parse_envelope P raw =
     (case json_loads P raw of
        None \<Rightarrow> Inl (refuse 400 ''malformed_json'' no_common)
      | Some (JObj kvs) \<Rightarrow>
          if \<not> has_keys kvs [''transaction''] then Inl (refuse 400 ''envelope_invalid'' no_common)
          else (case obj_get kvs ''transaction'' of
            JObj tx \<Rightarrow>
              if \<not> has_keys tx ENVELOPE_KEYS then Inl (refuse 400 ''envelope_invalid'' no_common)
              else (case (int_field tx ''chainId'', int_field tx ''gas'', int_field tx ''value'') of
                (Some chain, Some gas, Some val) \<Rightarrow>
                  if val \<noteq> TX_VALUE then Inl (refuse 422 ''value_not_zero'' no_common)
                  else if chain \<noteq> CHAIN_ID then Inl (refuse 422 ''wrong_chain'' no_common)
                  else (case parse_to P (obj_get tx ''to'') of
                    None \<Rightarrow> Inl (refuse 422 ''to_not_escrow'' no_common)
                  | Some a \<Rightarrow>
                      (case parse_data (obj_get tx ''data'') of
                         Inl e \<Rightarrow> Inl (refuse 422 (calldata_reason e) no_common)
                       | Inr data \<Rightarrow>
                           if gas \<le> 0 then Inl (refuse 400 ''envelope_invalid'' no_common)
                           else Inr \<lparr>e_to = a, e_data = data, e_gas = gas\<rparr>))
              | _ \<Rightarrow> Inl (refuse 400 ''envelope_invalid'' no_common))
          | _ \<Rightarrow> Inl (refuse 400 ''envelope_invalid'' no_common))
      | Some _ \<Rightarrow> Inl (refuse 400 ''envelope_invalid'' no_common))"

section \<open>R11 and R14: the fields of the call and the channel\<close>

definition field_sanity :: "'e signer_env_scheme \<Rightarrow> debit_call \<Rightarrow> ('z books_scheme, string option) py" where
  "field_sanity P call =
     bindE (wall P) (\<lambda>now. ok (
       if call_amount call < MIN_AMOUNT_UNITS \<or> MAX_AMOUNT_UNITS < call_amount call then Some ''amount_out_of_band''
       else if call_amount call mod CENT_UNITS \<noteq> 0 then Some ''amount_out_of_band''
       else if call_receipt call = zero_bytes 32 then Some ''receipt_id_zero''
       else if call_channel call = zero_bytes 32 then Some ''channel_id_zero''
       else if call_deadline call < now + MIN_DEADLINE_SKEW_S then Some ''deadline_out_of_band''
       else if now + MAX_DEADLINE_TTL_S < call_deadline call then Some ''deadline_out_of_band''
       else None))"

definition channel_state :: "'e signer_env_scheme \<Rightarrow> channel \<Rightarrow> debit_call \<Rightarrow> ('z books_scheme, string option) py" where
  "channel_state P c call =
     bindE (wall P) (\<lambda>now.
     bindE (liftE (channel_exists c)) (\<lambda>exists.
       if \<not> exists then ok (Some ''channel_not_found'')
       else if \<not> is_open c then ok (Some ''channel_not_open'')
       else if debit_deadline c \<le> now + CHANNEL_MIN_REMAINING_S then ok (Some ''channel_expiring'')
       else if ch_balance c < call_amount call then ok (Some ''insufficient_balance'')
       else if py_lower (ch_token c) \<noteq> py_lower TOKEN then ok (Some ''token_not_allowed'')
       else bindE (liftE (addr_int (ch_hub c))) (\<lambda>hub.
         if hub \<noteq> 0 \<and> py_lower (ch_hub c) \<noteq> py_lower (own_address P)
         then ok (Some ''channel_bound_elsewhere'') else ok None)))"

section \<open>R13: the identity of the chain\<close>

definition verify_chain_identity :: "'e signer_env_scheme \<Rightarrow> bool \<Rightarrow> ('z signer_state_scheme, unit) py" where
  "verify_chain_identity P force =
     bindE (if force then ok False
            else bindE (read_clock P) (\<lambda>t. bindE (readE chain_ok_until) (\<lambda>u. ok (t < u)))) (\<lambda>fresh.
     if fresh then ok ()
     else bindE (rpc_chain_id P) (\<lambda>c. if c \<noteq> CHAIN_ID then raise ChainUnverified
     else bindE (chain_separator P (own_escrow P)) (\<lambda>sep. if sep \<noteq> own_separator P then raise ChainUnverified
     else bindE (hub_authorized P (own_escrow P) (own_address P)) (\<lambda>h. if \<not> h then raise ChainUnverified
     else bindE (token_decimals P TOKEN) (\<lambda>n. if n \<noteq> TOKEN_DECIMALS then raise ChainUnverified
     else bindE (read_clock P) (\<lambda>t. writeE (\<lambda>s. s\<lparr>chain_ok_until := t + of_int CHAIN_CACHE_TTL_S\<rparr>)))))))"

section \<open>Reconciliation\<close>

text \<open>\<open>d.get(k, default)\<close> of a receipt.\<close>

definition receipt_field :: "json \<Rightarrow> string \<Rightarrow> string \<Rightarrow> exn + json" where
  "receipt_field r k dflt =
     (case r of JObj kvs \<Rightarrow> Inr (case map_of kvs k of None \<Rightarrow> JStr dflt | Some v \<Rightarrow> v) | _ \<Rightarrow> Inl AttributeError)"

definition receipt_status :: "json \<Rightarrow> exn + string" where
  "receipt_status r = bindR (receipt_field r ''status'' []) (\<lambda>v. Inr (py_str v))"

definition receipt_fee :: "json \<Rightarrow> exn + int" where
  "receipt_fee r =
     bindR (receipt_field r ''gasUsed'' ''0x0'') (\<lambda>g. bindR (hex_int g) (\<lambda>gas.
     bindR (receipt_field r ''effectiveGasPrice'' ''0x0'') (\<lambda>p. bindR (hex_int p) (\<lambda>price. Inr (gas * price)))))"

text \<open>The loop over the recorded attempts: has one of them landed?\<close>

fun settle_attempts :: "'e signer_env_scheme \<Rightarrow> spend_row \<Rightarrow> tx_attempt list \<Rightarrow> ('z rpc_state_scheme, bool) py" where
  "settle_attempts P row [] = ok False"
| "settle_attempts P row (a # as) =
     bindE (rpc_receipt P (at_tx_hash a)) (\<lambda>r.
       if \<not> truthy r then thenE (record_attempt_status (at_tx_hash a) ''absent'') (settle_attempts P row as)
       else bindE (liftE (receipt_status r)) (\<lambda>status.
         thenE (record_attempt_status (at_tx_hash a) status)
           (if status = ''0x1''
            then bindE (liftE (receipt_fee r)) (\<lambda>fee. thenE (mark_mined P row (at_tx_hash a) fee) (ok True))
            else if status = ''0x0''
            then thenE (mark_dead P row ''transaction reverted on chain'') (ok True)
            else settle_attempts P row as)))"

definition reconcile_row :: "'e signer_env_scheme \<Rightarrow> int \<Rightarrow> spend_row \<Rightarrow> ('z rpc_state_scheme, unit) py" where
  "reconcile_row P now row =
     bindE (liftE (someR (fromhex (drop 2 (receipt_id row))) ValueError)) (\<lambda>rid.
     bindE (receipt_used P (own_escrow P) rid (channel_bytes (channel_id row))) (\<lambda>used.
       if used then mark_mined P row [] 0
       else bindE get_db (\<lambda>d.
         let as = attempts_for d (chain_id row) (escrow row) (receipt_id row) in
         bindE (settle_attempts P row as) (\<lambda>landed.
           if landed then ok ()
           else if row_state row = Reserved \<and> \<not> (\<exists>a \<in> set as. at_account_nonce a = account_nonce row)
           then mark_dead P row ''never signed''
           else if deadline row < now then mark_dead P row ''deadline passed before it landed''
           else ok ()))))"

definition reconcile :: "'e signer_env_scheme \<Rightarrow> ('z rpc_state_scheme, bool) py" where
  "reconcile P =
     bindE (wall P) (\<lambda>now. bindE get_db (\<lambda>d.
       thenE (forE (reconcile_row P now) (unresolved d)) (ok True)))"

end
