(* ===== verification/Policy.thy ===== *)
theory Policy
  imports Policy_Base
begin

text \<open>
  \<open>PolicySigner.handle\<close>, the road of a debit, and \<open>_handle_expire\<close>, phase by phase in the order of
  the code: each phase is a definition whose result is either the decision that ends the request
  or what the next phase needs.
\<close>

section \<open>Ending a request\<close>

text \<open>A phase: \<open>Inl\<close> of the decision that ends the request, or \<open>Inr\<close> of what goes on.\<close>

type_synonym ('s, 'a) phase = "('s, decision + 'a) py"

definition stop :: "decision \<Rightarrow> ('s, 'a) phase" where
  "stop d = ok (Inl d)"

definition go :: "'a \<Rightarrow> ('s, 'a) phase" where
  "go x = ok (Inr x)"

definition andthen :: "('s, 'a) phase \<Rightarrow> ('a \<Rightarrow> ('s, decision) py) \<Rightarrow> ('s, decision) py" where
  "andthen m f = bindE m (\<lambda>r. case r of Inl d \<Rightarrow> ok d | Inr x \<Rightarrow> f x)"

text \<open>\<open>simulation_reverted:\<close> with the decoded name.\<close>

definition reverted_reason :: "string \<Rightarrow> string" where
  "reverted_reason n = ''simulation_reverted:'' @ n"

text \<open>\<open>except ChainUnverified / Reverted / RpcUnavailable\<close> around the chain reads.\<close>

definition chain_fault :: "common \<Rightarrow> exn \<Rightarrow> ('s, 'a) phase" where
  "chain_fault c e =
     (case e of
        ChainUnverified \<Rightarrow> stop (refuse 503 ''chain_unverified'' c)
      | Reverted n \<Rightarrow> stop (refuse 422 (reverted_reason n) c)
      | RpcUnavailable \<Rightarrow> stop (refuse 503 ''rpc_unavailable'' c)
      | _ \<Rightarrow> raise e)"

definition estimate_fault :: "common \<Rightarrow> exn \<Rightarrow> ('s, 'a) phase" where
  "estimate_fault c e =
     (case e of
        Reverted n \<Rightarrow> stop (refuse 422 (reverted_reason n) c)
      | RpcUnavailable \<Rightarrow> stop (refuse 503 ''rpc_unavailable'' c)
      | _ \<Rightarrow> raise e)"

definition reserve_fault :: "common \<Rightarrow> exn \<Rightarrow> ('s, 'a) phase" where
  "reserve_fault c e =
     (case e of
        CapBreach name \<Rightarrow> stop (refuse_retry 429 name c)
      | ClockRegression \<Rightarrow> stop (refuse 503 ''clock_regression'' c)
      | LedgerUnavailable \<Rightarrow> stop (refuse 503 ''ledger_unavailable'' c)
      | _ \<Rightarrow> raise e)"

text \<open>\<open>type(exc).__name__\<close>.\<close>

definition exn_name :: "exn \<Rightarrow> string" where
  "exn_name e =
     (case e of
        CapBreach n \<Rightarrow> ''CapBreach'' | ClockRegression \<Rightarrow> ''ClockRegression''
      | LedgerUnavailable \<Rightarrow> ''LedgerUnavailable'' | SqliteError \<Rightarrow> ''OperationalError''
      | RpcUnavailable \<Rightarrow> ''RpcUnavailable'' | Reverted n \<Rightarrow> ''Reverted''
      | ChainUnverified \<Rightarrow> ''ChainUnverified'' | CalldataError n \<Rightarrow> ''CalldataError''
      | ConfigError \<Rightarrow> ''ConfigError'' | ValueError \<Rightarrow> ''ValueError'' | OverflowError \<Rightarrow> ''OverflowError''
      | AttributeError \<Rightarrow> ''AttributeError'' | TypeError \<Rightarrow> ''TypeError'' | OtherError n \<Rightarrow> n)"

section \<open>R18 and R19: gas and fee\<close>

definition gas_and_fee :: "'e signer_env_scheme \<Rightarrow> string \<Rightarrow> bytes \<Rightarrow> common \<Rightarrow> ('z rpc_state_scheme, int \<times> int) phase" where
  "gas_and_fee P to data c =
     tryE (bindE (estimate_gas P to data (own_address P)) (\<lambda>est. bindE (base_fee_wei P) (\<lambda>base. ok (est, base))))
       (estimate_fault c)
       (\<lambda>(est, base).
          if GAS_HARD_CAP < est then stop (refuse 422 ''gas_estimate_over_cap'' c)
          else
            let gas = min (est * GAS_MULTIPLIER_NUM div GAS_MULTIPLIER_DEN) GAS_HARD_CAP;
                max_fee = 2 * base + priority_fee_wei (conf P)
            in if max_fee_wei_ceiling (conf P) < max_fee then stop (refuse 503 ''fee_ceiling'' c)
               else go (gas, max_fee))"

section \<open>R21 to R23: simulate, sign, record, broadcast\<close>

definition simulated :: "'e signer_env_scheme \<Rightarrow> bytes \<Rightarrow> spend_row \<Rightarrow> common \<Rightarrow> ('z rpc_state_scheme, unit) phase" where
  "simulated P data row c =
     tryE (simulate P (own_escrow P) data (own_address P))
       (\<lambda>e. case e of
          Reverted n \<Rightarrow>
            thenE (mark_dead P row (''simulation reverted: '' @ n)) (stop (refuse 422 (reverted_reason n) c))
        | RpcUnavailable \<Rightarrow>
            thenE (mark_dead P row ''simulation unavailable'') (stop (refuse 503 ''rpc_unavailable'' c))
        | _ \<Rightarrow> thenE (mark_dead P row (''simulation failed: '' @ exn_name e)) (raise e))
       (\<lambda>_. go ())"

definition transaction_of :: "'e signer_env_scheme \<Rightarrow> string \<Rightarrow> bytes \<Rightarrow> int \<Rightarrow> int \<Rightarrow> spend_row \<Rightarrow> tx_request" where
  "transaction_of P to data gas max_fee row =
     \<lparr>t_to = to, t_value = TX_VALUE, t_data = hex0x data, t_gas = gas, t_max_fee = max_fee,
      t_priority = priority_fee_wei (conf P), t_nonce = account_nonce row, t_chain_id = CHAIN_ID,
      t_type = 2\<rparr>"

text \<open>The key is used here and nowhere else; \<open>signed_txs\<close> records it.\<close>

definition key_signs :: "'e signer_env_scheme \<Rightarrow> tx_request \<Rightarrow> ('z signer_state_scheme, string + bytes) py" where
  "key_signs P tx =
     (case sign_tx P tx of
        Inl name \<Rightarrow> ok (Inl name)
      | Inr raw \<Rightarrow> thenE (writeE (\<lambda>s. s\<lparr>signed_txs := signed_txs s @ [tx]\<rparr>)) (ok (Inr raw)))"

definition signed_raw :: "'e signer_env_scheme \<Rightarrow> tx_request \<Rightarrow> spend_row \<Rightarrow> common \<Rightarrow> ('z signer_state_scheme, bytes \<times> string) phase" where
  "signed_raw P tx row c =
     bindE (key_signs P tx) (\<lambda>r.
       case r of
         Inl name \<Rightarrow>
           thenE (mark_dead P row (''signing failed: '' @ name)) (stop (refuse 500 ''signing_failed'' c))
       | Inr raw \<Rightarrow>
           let h = hex0x (keccak P raw) in thenE (mark_signed P row h h) (go (raw, h)))"

definition send_logged :: "'e signer_env_scheme \<Rightarrow> tx_request \<Rightarrow> bytes \<Rightarrow> ('z signer_state_scheme, string) py" where
  "send_logged P tx raw =
     thenE (writeE (\<lambda>s. s\<lparr>sent_txs := sent_txs s @ [tx]\<rparr>)) (send_raw P raw)"

definition broadcast :: "'e signer_env_scheme \<Rightarrow> tx_request \<Rightarrow> bytes \<Rightarrow> string \<Rightarrow> spend_row \<Rightarrow> common \<Rightarrow> ('z signer_state_scheme, unit) phase" where
  "broadcast P tx raw h row c =
     tryE (send_logged P tx raw)
       (\<lambda>e. case e of
          Reverted n \<Rightarrow>
            thenE (mark_dead P row (''broadcast rejected: '' @ n)) (stop (refuse 422 (reverted_reason n) c))
        | RpcUnavailable \<Rightarrow> stop (refuse 503 ''broadcast_failed'' c)
        | _ \<Rightarrow> raise e)
       (\<lambda>_. thenE (mark_broadcast P row h) (go ()))"

section \<open>R17: the same receipt again\<close>

definition call_tuple :: "string \<Rightarrow> string \<Rightarrow> int \<Rightarrow> string \<Rightarrow> string \<Rightarrow> string \<times> string \<times> int \<times> string \<times> string" where
  "call_tuple addr channel amount rid calldata = (py_lower addr, channel, amount, rid, calldata)"

text \<open>\<open>None\<close>: treat the request as new work.\<close>

definition replay :: "'e signer_env_scheme \<Rightarrow> spend_row \<Rightarrow> string \<Rightarrow> string \<Rightarrow> common \<Rightarrow> ('z rpc_state_scheme, decision option) py" where
  "replay P row addr calldata c =
     (if semantic_tuple row \<noteq> call_tuple addr (c_channel_id c) (c_amount c) (c_receipt_id c) calldata
        then ok (Some (refuse 422 ''receipt_id_tuple_conflict'' c))
      else if row_state row = Superseded then ok (Some (refuse 422 ''superseded'' c))
      else if row_state row \<in> {Broadcast, Mined} \<and> tx_hash row \<noteq> []
        then ok (Some (answer (tx_hash row) True ''replayed'' c))
      else if row_state row \<in> {Reserved, Signed}
        then tryE (reconcile P)
          (\<lambda>e. case e of
             RpcUnavailable \<Rightarrow> ok (Some (refuse 409 ''reserved_unresolved'' c))
           | Reverted n \<Rightarrow> ok (Some (refuse 409 ''reserved_unresolved'' c))
           | _ \<Rightarrow> raise e)
          (\<lambda>_. bindE get_db (\<lambda>d.
             case get_row d (chain_id row) (escrow row) (receipt_id row) of
               None \<Rightarrow> ok (Some (refuse 409 ''reserved_unresolved'' c))
             | Some fresh \<Rightarrow>
                 if row_state fresh = Mined \<and> tx_hash fresh \<noteq> []
                   then ok (Some (answer (tx_hash fresh) True ''replayed'' c))
                 else if row_state fresh = Dead then ok None
                 else ok (Some (refuse 409 ''reserved_unresolved'' c))))
      else ok None)"

section \<open>The debit road\<close>

definition debit_common :: "string \<Rightarrow> debit_call \<Rightarrow> common" where
  "debit_common digest16 call =
     \<lparr>c_digest16 = digest16, c_receipt_id = hex0x (call_receipt call),
      c_channel_id = hex0x (call_channel call), c_amount = call_amount call\<rparr>"

text \<open>R7 to R12 and R18a: what is decided from the bytes, the clock and the caller's gas alone.\<close>

definition debit_shape :: "'e signer_env_scheme \<Rightarrow> bytes \<Rightarrow> int \<Rightarrow> string \<Rightarrow> ('z books_scheme, debit_call) phase" where
  "debit_shape P data gas_hint digest16 =
     (case bindR (decode_debit (keccak P) data) (\<lambda>call. bindR (check_signature_shape call) (\<lambda>_. Inr call)) of
        Inl (CalldataError reason) \<Rightarrow> stop (refuse 422 reason (no_common\<lparr>c_digest16 := digest16\<rparr>))
      | Inl e \<Rightarrow> raise e
      | Inr call \<Rightarrow>
          bindE (field_sanity P call) (\<lambda>sanity.
            case sanity of
              Some reason \<Rightarrow> stop (refuse 422 reason (debit_common digest16 call))
            | None \<Rightarrow>
                if GAS_HARD_CAP < gas_hint then stop (refuse 422 ''hub_gas_anomalous'' (debit_common digest16 call))
                else go call))"

text \<open>R17, then R13 to R15 from chain.\<close>

definition debit_replay :: "'e signer_env_scheme \<Rightarrow> string \<Rightarrow> bytes \<Rightarrow> common \<Rightarrow> ('z rpc_state_scheme, unit) phase" where
  "debit_replay P addr data c =
     bindE get_db (\<lambda>d.
       case get_row d CHAIN_ID (own_escrow P) (c_receipt_id c) of
         None \<Rightarrow> go ()
       | Some existing \<Rightarrow>
           bindE (replay P existing addr (hex0x (keccak P data)) c) (\<lambda>r.
             case r of Some dec \<Rightarrow> stop dec | None \<Rightarrow> go ()))"

definition debit_chain :: "'e signer_env_scheme \<Rightarrow> debit_call \<Rightarrow> common \<Rightarrow> ('z signer_state_scheme, channel) phase" where
  "debit_chain P call c =
     tryE (thenE (verify_chain_identity P False)
       (bindE (get_channel P (own_escrow P) (call_channel call)) (\<lambda>ch.
        bindE (channel_state P ch call) (\<lambda>st.
          case st of
            Some reason \<Rightarrow> stop (refuse 422 reason c)
          | None \<Rightarrow>
              bindE (receipt_used P (own_escrow P) (call_receipt call) (Some (call_channel call))) (\<lambda>used.
                if used then stop (refuse 422 ''receipt_already_used'' c) else go ch)))))
       (chain_fault c) ok"

text \<open>R16: the depositor's signature over the digest with our address as the hub.\<close>

definition debit_signature :: "'e signer_env_scheme \<Rightarrow> debit_call \<Rightarrow> channel \<Rightarrow> common \<Rightarrow> ('s, unit) phase" where
  "debit_signature P call ch c =
     bindE (liftE (debit_digest (keccak P) (own_separator P)
       \<lparr>auth_channel = call_channel call, auth_hub = own_address P, auth_token = ch_token ch,
        auth_amount = call_amount call, auth_receipt = call_receipt call, auth_nonce = ch_nonce ch,
        auth_deadline = call_deadline call\<rparr>)) (\<lambda>digest.
       case recover_hash P digest (call_signature call) of
         None \<Rightarrow> stop (refuse 422 ''signature_malformed'' c)
       | Some recovered \<Rightarrow>
           if py_lower recovered \<noteq> py_lower (ch_depositor ch)
           then stop (refuse 422 ''signature_not_depositor'' c) else go ())"

text \<open>R20.\<close>

definition debit_args :: "'e signer_env_scheme \<Rightarrow> string \<Rightarrow> bytes \<Rightarrow> int \<Rightarrow> debit_call \<Rightarrow> channel \<Rightarrow> common \<Rightarrow> int \<Rightarrow> int \<Rightarrow> reserve_args" where
  "debit_args P addr data gas_hint call ch c gas max_fee =
     \<lparr>r_chain_id = CHAIN_ID, r_escrow = own_escrow P, r_receipt_id = c_receipt_id c,
      r_channel_id = c_channel_id c, r_depositor = ch_depositor ch, r_token = py_lower (ch_token ch),
      r_amount = call_amount call, r_deadline = call_deadline call, r_channel_nonce = ch_nonce ch,
      r_calldata_keccak = hex0x (keccak P data), r_to_addr = py_lower addr, r_gas_limit = gas,
      r_hub_gas_hint = gas_hint, r_max_fee_wei = max_fee, r_from_addr = own_address P\<rparr>"

definition debit_reserve :: "'e signer_env_scheme \<Rightarrow> reserve_args \<Rightarrow> common \<Rightarrow> ('z books_scheme, spend_row) phase" where
  "debit_reserve P a c = tryE (reserve P (spend_caps (conf P)) a) (reserve_fault c) go"

definition sign_and_send :: "'e signer_env_scheme \<Rightarrow> tx_request \<Rightarrow> spend_row \<Rightarrow> common \<Rightarrow> ('z signer_state_scheme, string) phase" where
  "sign_and_send P tx row c =
     bindE (signed_raw P tx row c) (\<lambda>r.
       case r of
         Inl d \<Rightarrow> stop d
       | Inr (raw, h) \<Rightarrow>
           bindE (broadcast P tx raw h row c) (\<lambda>q. case q of Inl d \<Rightarrow> stop d | Inr u \<Rightarrow> go h))"

definition handle_debit :: "'e signer_env_scheme \<Rightarrow> string \<Rightarrow> bytes \<Rightarrow> int \<Rightarrow> string \<Rightarrow> ('z signer_state_scheme, decision) py" where
  "handle_debit P addr data gas_hint digest16 =
     andthen (debit_shape P data gas_hint digest16) (\<lambda>call.
     let c = debit_common digest16 call in
     andthen (debit_replay P addr data c) (\<lambda>_.
     andthen (debit_chain P call c) (\<lambda>ch.
     andthen (debit_signature P call ch c) (\<lambda>_.
     andthen (gas_and_fee P (own_escrow P) data c) (\<lambda>(gas, max_fee).
     andthen (debit_reserve P (debit_args P addr data gas_hint call ch c gas max_fee) c) (\<lambda>row.
     andthen (simulated P data row c) (\<lambda>_.
     andthen (sign_and_send P (transaction_of P (own_escrow P) data gas max_fee row) row c) (\<lambda>h.
       ok (answer h False ''signed'' c)))))))))"

section \<open>R27 to R33: the expiry road\<close>

definition expire_key :: "'e signer_env_scheme \<Rightarrow> bytes \<Rightarrow> string" where
  "expire_key P cid = hex0x (keccak P (py_encode ''expireChannel|'' @ cid))"

definition expire_replay :: "'e signer_env_scheme \<Rightarrow> bytes \<Rightarrow> common \<Rightarrow> ('z books_scheme, unit) phase" where
  "expire_replay P cid c =
     bindE get_db (\<lambda>d.
       case get_row d CHAIN_ID (own_escrow P) (expire_key P cid) of
         None \<Rightarrow> go ()
       | Some existing \<Rightarrow>
           if row_state existing \<in> {Signed, Broadcast, Mined}
           then stop (answer (tx_hash existing) True ''replayed'' (c\<lparr>c_receipt_id := expire_key P cid\<rparr>))
           else go ())"

text \<open>R31: gas is spent only where the contract will pay this key.\<close>

definition expire_chain :: "'e signer_env_scheme \<Rightarrow> bytes \<Rightarrow> common \<Rightarrow> ('z signer_state_scheme, channel) phase" where
  "expire_chain P cid c =
     tryE (thenE (verify_chain_identity P False) (bindE (get_channel P (own_escrow P) cid) go)) (chain_fault c) ok"

definition expire_worth :: "'e signer_env_scheme \<Rightarrow> channel \<Rightarrow> common \<Rightarrow> ('z books_scheme, unit) phase" where
  "expire_worth P ch c =
     (if ch_status ch \<noteq> 0 then stop (refuse 422 ''channel_not_open'' c)
      else if ch_used_amount ch \<le> 0 then stop (refuse 422 ''channel_owes_nothing'' c)
      else if py_lower (ch_hub ch) \<noteq> py_lower (own_address P) then stop (refuse 422 ''channel_not_ours'' c)
      else if ch_expires_at ch = 0 then go ()
      else bindE (wall P) (\<lambda>now.
        if now \<le> debit_deadline ch then stop (refuse 422 ''channel_not_expired'' c) else go ()))"

definition expire_args :: "'e signer_env_scheme \<Rightarrow> string \<Rightarrow> bytes \<Rightarrow> bytes \<Rightarrow> int \<Rightarrow> int \<Rightarrow> reserve_args" where
  "expire_args P addr data cid gas max_fee =
     \<lparr>r_chain_id = CHAIN_ID, r_escrow = own_escrow P, r_receipt_id = expire_key P cid,
      r_channel_id = hex0x cid, r_depositor = [], r_token = [], r_amount = 0, r_deadline = 0,
      r_channel_nonce = 0, r_calldata_keccak = hex0x (keccak P data), r_to_addr = py_lower addr,
      r_gas_limit = gas, r_hub_gas_hint = 0, r_max_fee_wei = max_fee, r_from_addr = own_address P\<rparr>"

definition gas_reserve :: "'e signer_env_scheme \<Rightarrow> reserve_args \<Rightarrow> common \<Rightarrow> ('z books_scheme, spend_row) phase" where
  "gas_reserve P a c =
     tryE (reserve_gas_only P (spend_caps (conf P)) a (max_gas_only_per_24h (conf P))) (reserve_fault c) go"

definition handle_expire :: "'e signer_env_scheme \<Rightarrow> string \<Rightarrow> bytes \<Rightarrow> int \<Rightarrow> string \<Rightarrow> ('z signer_state_scheme, decision) py" where
  "handle_expire P addr data gas_hint digest16 =
     (case decode_expire (keccak P) data of
        Inl (CalldataError reason) \<Rightarrow> ok (refuse 422 reason (no_common\<lparr>c_digest16 := digest16\<rparr>))
      | Inl e \<Rightarrow> raise e
      | Inr cid \<Rightarrow>
          let c = \<lparr>c_digest16 = digest16, c_receipt_id = [], c_channel_id = hex0x cid, c_amount = 0\<rparr> in
          if GAS_HARD_CAP < gas_hint then ok (refuse 422 ''hub_gas_anomalous'' c)
          else
            andthen (expire_replay P cid c) (\<lambda>_.
            andthen (expire_chain P cid c) (\<lambda>ch.
            andthen (expire_worth P ch c) (\<lambda>_.
            andthen (gas_and_fee P (own_escrow P) data c) (\<lambda>(gas, max_fee).
            andthen (gas_reserve P (expire_args P addr data cid gas max_fee) c) (\<lambda>row.
            andthen (simulated P data row c) (\<lambda>_.
            andthen (sign_and_send P (transaction_of P (own_escrow P) data gas max_fee row) row c) (\<lambda>h.
              ok (answer h False ''signed'' (c\<lparr>c_receipt_id := expire_key P cid\<rparr>))))))))))"

section \<open>The request\<close>

definition dispatch :: "'e signer_env_scheme \<Rightarrow> envelope \<Rightarrow> ('z signer_state_scheme, decision) py" where
  "dispatch P env =
     (let data = e_data env; digest16 = take 16 (hex_str (keccak P data)); sel = slice 0 4 data in
      if sel = EXPIRE_SELECTOR (keccak P) then handle_expire P (e_to env) data (e_gas env) digest16
      else if sel \<noteq> DEBIT_SELECTOR (keccak P)
        then ok (refuse 422 ''selector_not_allowed'' (no_common\<lparr>c_digest16 := digest16\<rparr>))
      else handle_debit P (e_to env) data (e_gas env) digest16)"

definition handle :: "'e signer_env_scheme \<Rightarrow> bytes \<Rightarrow> ('z signer_state_scheme, decision) py" where
  "handle P raw =
     bindE get_db (\<lambda>d.
       if halted d \<noteq> [] then ok (refuse 503 ''clock_regression'' no_common)
       else bindE (readE ready) (\<lambda>rdy.
         if \<not> rdy then bindE (readE not_ready_reason) (\<lambda>why. ok (refuse 503 (or_default why ''boot_reconciliation'') no_common))
         else (case parse_envelope P raw of Inl dec \<Rightarrow> ok dec | Inr env \<Rightarrow> dispatch P env)))"

end
