(* ===== verification/Policy_Boot.thy ===== *)
theory Policy_Boot
  imports Policy
begin

text \<open>
  \<open>PolicySigner.boot\<close>, the proceeds sweep (\<open>sweep_proceeds\<close>, \<open>_settle_sweep_row\<close>,
  \<open>_audit_sweep\<close>) and one cycle of \<open>run_sweeps\<close>. \<open>__init__\<close> is \<open>new_signer\<close>.
\<close>

section \<open>Start\<close>

text \<open>What \<open>PolicySigner.__init__\<close> adds to the books it is given.\<close>

definition new_signer :: "books \<Rightarrow> signer_state" where
  "new_signer b =
     \<lparr>db = db b, clock_reads = clock_reads b, witness_lines = witness_lines b,
      witness_tries = witness_tries b, exchanges = 0, v1_escrows = [], ready = False,
      not_ready_reason = ''boot_reconciliation'', chain_ok_until = 0, signed_txs = [], sent_txs = []\<rparr>"

definition set_ready :: "bool \<Rightarrow> ('z signer_state_scheme, unit) py" where
  "set_ready b = writeE (\<lambda>s. s\<lparr>ready := b\<rparr>)"

definition set_reason :: "string \<Rightarrow> ('z signer_state_scheme, unit) py" where
  "set_reason r = writeE (\<lambda>s. s\<lparr>not_ready_reason := r\<rparr>)"

text \<open>\<open>max((r.account_nonce for r in live), default=-1)\<close>.\<close>

definition highest_nonce :: "spend_row list \<Rightarrow> int" where
  "highest_nonce rows =
     (case map account_nonce rows of [] \<Rightarrow> - 1 | n # ns \<Rightarrow> foldl max n ns)"

definition boot_audit :: "'e signer_env_scheme \<Rightarrow> audit_fields" where
  "boot_audit P =
     \<lparr>f_kind = ''boot'', f_decision = ''ready'', f_http_status = 200, f_reason_code = [],
      f_chain_id = Some CHAIN_ID, f_escrow = Some (own_escrow P), f_receipt_id = None,
      f_channel_id = None, f_amount_units = None, f_digest16 = [], f_tx_hash = []\<rparr>"

text \<open>The tail of \<open>boot\<close>, once chain agreed and the live rows are classified.\<close>

definition boot_finish :: "'e signer_env_scheme \<Rightarrow> bool \<Rightarrow> int \<Rightarrow> ('z signer_state_scheme, unit) py" where
  "boot_finish P reconciled chain_nonce =
     bindE get_db (\<lambda>d.
       thenE (set_next_nonce P CHAIN_ID (own_address P) (max chain_nonce (highest_nonce (unresolved d) + 1)))
      (thenE (record_boot P (own_address P) CHAIN_ID (own_escrow P) (caps_json (spend_caps (conf P))) reconciled)
      (thenE (audit P (boot_audit P))
      (thenE (set_ready True) (set_reason [])))))"

definition boot_chain :: "'e signer_env_scheme \<Rightarrow> ('z signer_state_scheme, bool \<times> int) py" where
  "boot_chain P =
     thenE (verify_chain_identity P True)
       (bindE (reconcile P) (\<lambda>reconciled.
        bindE (transaction_count P (own_address P) ''pending'') (\<lambda>n. ok (reconciled, n))))"

definition boot :: "'e signer_env_scheme \<Rightarrow> ('z signer_state_scheme, unit) py" where
  "boot P =
     thenE (set_ready False)
       (tryE (verify_chains P)
         (\<lambda>e. if e = LedgerUnavailable then set_reason ''ledger_chain_mismatch'' else raise e)
         (\<lambda>_. bindE get_db (\<lambda>d.
            if halted d \<noteq> [] then set_reason ''clock_regression''
            else tryE (boot_chain P)
              (\<lambda>e. case e of
                 RpcUnavailable \<Rightarrow> set_reason ''boot_reconciliation''
               | Reverted n \<Rightarrow> set_reason ''boot_reconciliation''
               | _ \<Rightarrow> raise e)
              (\<lambda>(reconciled, n). boot_finish P reconciled n))))"

section \<open>The proceeds sweep\<close>

definition sweep_audit :: "'e signer_env_scheme \<Rightarrow> decision \<Rightarrow> audit_fields" where
  "sweep_audit P d =
     \<lparr>f_kind = ''sweep'', f_decision = d_decision d, f_http_status = d_status d,
      f_reason_code = d_reason_code d, f_chain_id = Some CHAIN_ID, f_escrow = Some (own_escrow P),
      f_receipt_id = Some (d_receipt_id d), f_channel_id = Some SWEEP_CHANNEL,
      f_amount_units = Some (d_amount_units d), f_digest16 = [], f_tx_hash = d_tx_hash d\<rparr>"

definition audit_sweep :: "'e signer_env_scheme \<Rightarrow> decision \<Rightarrow> ('z books_scheme, decision option) py" where
  "audit_sweep P d = thenE (audit P (sweep_audit P d)) (ok (Some d))"

text \<open>\<open>_settle_sweep_row\<close>: \<open>True\<close> once the earlier sweep is resolved.\<close>

fun settle_sweep_attempts :: "'e signer_env_scheme \<Rightarrow> spend_row \<Rightarrow> tx_attempt list \<Rightarrow> ('z rpc_state_scheme, bool option) py" where
  "settle_sweep_attempts P row [] = ok None"
| "settle_sweep_attempts P row (a # as) =
     tryE (rpc_receipt P (at_tx_hash a))
       (\<lambda>e. if e = RpcUnavailable then ok (Some False) else raise e)
       (\<lambda>r. if \<not> truthy r then settle_sweep_attempts P row as
        else bindE (liftE (receipt_status r)) (\<lambda>status.
          thenE (record_attempt_status (at_tx_hash a) status)
            (if status = ''0x1''
             then bindE (liftE (receipt_fee r)) (\<lambda>fee. thenE (mark_mined P row (at_tx_hash a) fee) (ok (Some True)))
             else if status = ''0x0''
             then thenE (mark_dead P row ''sweep reverted on chain'') (ok (Some True))
             else settle_sweep_attempts P row as)))"

definition settle_sweep_row :: "'e signer_env_scheme \<Rightarrow> spend_row \<Rightarrow> ('z rpc_state_scheme, bool) py" where
  "settle_sweep_row P row =
     bindE get_db (\<lambda>d.
     bindE (settle_sweep_attempts P row (attempts_for d (chain_id row) (escrow row) (receipt_id row))) (\<lambda>r.
       case r of
         Some b \<Rightarrow> ok b
       | None \<Rightarrow>
           bindE (if row_state row = Reserved then ok True
                  else bindE (wall P) (\<lambda>now. ok (SWEEP_GIVE_UP_S < now - ts row))) (\<lambda>give_up.
             if give_up then thenE (mark_dead P row ''sweep never landed'') (ok True) else ok False)))"

text \<open>The loop over the live rows: \<open>True\<close> when no earlier sweep is still in flight.\<close>

fun settle_sweeps :: "'e signer_env_scheme \<Rightarrow> spend_row list \<Rightarrow> ('z rpc_state_scheme, bool) py" where
  "settle_sweeps P [] = ok True"
| "settle_sweeps P (row # rows) =
     (if channel_id row = SWEEP_CHANNEL
      then bindE (settle_sweep_row P row) (\<lambda>done. if done then settle_sweeps P rows else ok False)
      else settle_sweeps P rows)"

text \<open>A sweep's phase ends with the decision, or nothing, that \<open>sweep_proceeds\<close> returns.\<close>

definition sweep_common :: "string \<Rightarrow> int \<Rightarrow> common" where
  "sweep_common rid amount =
     \<lparr>c_digest16 = [], c_receipt_id = rid, c_channel_id = SWEEP_CHANNEL, c_amount = amount\<rparr>"

definition andsweep :: "('s, decision option + 'a) py \<Rightarrow> ('a \<Rightarrow> ('s, decision option) py) \<Rightarrow> ('s, decision option) py" where
  "andsweep m f = bindE m (\<lambda>r. case r of Inl d \<Rightarrow> ok d | Inr x \<Rightarrow> f x)"

definition sweep_stop :: "'e signer_env_scheme \<Rightarrow> decision \<Rightarrow> ('z books_scheme, decision option + 'a) py" where
  "sweep_stop P d = bindE (audit_sweep P d) (\<lambda>r. ok (Inl r))"

definition sweep_balance :: "'e signer_env_scheme \<Rightarrow> ('z signer_state_scheme, decision option + int) py" where
  "sweep_balance P =
     tryE (thenE (verify_chain_identity P False) (token_balance P TOKEN (own_address P)))
       (\<lambda>e. case e of
          ChainUnverified \<Rightarrow> sweep_stop P (refuse 503 ''chain_unverified'' (sweep_common [] 0))
        | RpcUnavailable \<Rightarrow> ok (Inl None)
        | Reverted n \<Rightarrow> ok (Inl None)
        | _ \<Rightarrow> raise e)
       (\<lambda>balance. if balance < sweep_min_units (conf P) then ok (Inl None) else ok (Inr balance))"

definition sweep_gas :: "'e signer_env_scheme \<Rightarrow> bytes \<Rightarrow> common \<Rightarrow> ('z signer_state_scheme, decision option + int \<times> int) py" where
  "sweep_gas P data c =
     tryE (bindE (estimate_gas P TOKEN data (own_address P)) (\<lambda>est. bindE (base_fee_wei P) (\<lambda>base. ok (est, base))))
       (\<lambda>e. case e of
          Reverted n \<Rightarrow> sweep_stop P (refuse 422 (reverted_reason n) c)
        | RpcUnavailable \<Rightarrow> ok (Inl None)
        | _ \<Rightarrow> raise e)
       (\<lambda>(est, base).
          if GAS_HARD_CAP < est then sweep_stop P (refuse 422 ''gas_estimate_over_cap'' c)
          else
            let gas = min (est * GAS_MULTIPLIER_NUM div GAS_MULTIPLIER_DEN) GAS_HARD_CAP;
                max_fee = 2 * base + priority_fee_wei (conf P)
            in if max_fee_wei_ceiling (conf P) < max_fee then sweep_stop P (refuse 503 ''fee_ceiling'' c)
               else ok (Inr (gas, max_fee)))"

definition sweep_key :: "'e signer_env_scheme \<Rightarrow> string \<Rightarrow> int \<Rightarrow> int \<Rightarrow> exn + string" where
  "sweep_key P to now balance =
     bindR (someR (fromhex (drop 2 to)) ValueError) (\<lambda>raw.
     bindR (to_bytes now 8) (\<lambda>t. bindR (to_bytes balance 32) (\<lambda>b.
       Inr (hex0x (keccak P (py_encode ''sweepProceeds|'' @ raw @ t @ b))))))"

definition sweep_args :: "'e signer_env_scheme \<Rightarrow> string \<Rightarrow> bytes \<Rightarrow> int \<Rightarrow> int \<Rightarrow> reserve_args" where
  "sweep_args P rid data gas max_fee =
     \<lparr>r_chain_id = CHAIN_ID, r_escrow = own_escrow P, r_receipt_id = rid, r_channel_id = SWEEP_CHANNEL,
      r_depositor = [], r_token = [], r_amount = 0, r_deadline = 0, r_channel_nonce = 0,
      r_calldata_keccak = hex0x (keccak P data), r_to_addr = py_lower TOKEN, r_gas_limit = gas,
      r_hub_gas_hint = 0, r_max_fee_wei = max_fee, r_from_addr = own_address P\<rparr>"

definition sweep_reserve :: "'e signer_env_scheme \<Rightarrow> reserve_args \<Rightarrow> common \<Rightarrow> ('z books_scheme, decision option + spend_row) py" where
  "sweep_reserve P a c =
     tryE (reserve_gas_only P (spend_caps (conf P)) a (max_gas_only_per_24h (conf P)))
       (\<lambda>e. case e of
          CapBreach name \<Rightarrow> sweep_stop P (refuse 429 name c)
        | ClockRegression \<Rightarrow> sweep_stop P (refuse 503 ''clock_regression'' c)
        | LedgerUnavailable \<Rightarrow> sweep_stop P (refuse 503 ''ledger_unavailable'' c)
        | _ \<Rightarrow> raise e)
       (\<lambda>row. ok (Inr row))"

definition sweep_sign :: "'e signer_env_scheme \<Rightarrow> tx_request \<Rightarrow> spend_row \<Rightarrow> common \<Rightarrow> ('z signer_state_scheme, decision option + bytes \<times> string) py" where
  "sweep_sign P tx row c =
     bindE (key_signs P tx) (\<lambda>r.
       case r of
         Inl name \<Rightarrow> thenE (mark_dead P row (''signing failed: '' @ name)) (sweep_stop P (refuse 500 ''signing_failed'' c))
       | Inr raw \<Rightarrow> let h = hex0x (keccak P raw) in thenE (mark_signed P row h h) (ok (Inr (raw, h))))"

definition sweep_send :: "'e signer_env_scheme \<Rightarrow> tx_request \<Rightarrow> bytes \<Rightarrow> string \<Rightarrow> spend_row \<Rightarrow> common \<Rightarrow> ('z signer_state_scheme, decision option + unit) py" where
  "sweep_send P tx raw h row c =
     tryE (send_logged P tx raw)
       (\<lambda>e. case e of
          Reverted n \<Rightarrow>
            thenE (mark_dead P row (''broadcast rejected: '' @ n)) (sweep_stop P (refuse 422 (reverted_reason n) c))
        | RpcUnavailable \<Rightarrow> ok (Inl None)
        | _ \<Rightarrow> raise e)
       (\<lambda>_. thenE (mark_broadcast P row h) (ok (Inr ())))"

definition swept :: "string \<Rightarrow> string \<Rightarrow> string \<Rightarrow> int \<Rightarrow> decision" where
  "swept h to rid balance =
     \<lparr>d_status = 200, d_body = [(''tx_hash'', JStr h), (''amount_units'', JInt balance), (''to'', JStr to)],
      d_reason_code = [], d_receipt_id = rid, d_channel_id = SWEEP_CHANNEL, d_amount_units = balance,
      d_digest16 = [], d_tx_hash = h, d_decision = ''signed''\<rparr>"

definition sweep_transfer :: "'e signer_env_scheme \<Rightarrow> string \<Rightarrow> ('z signer_state_scheme, decision option) py" where
  "sweep_transfer P to =
     andsweep (sweep_balance P) (\<lambda>balance.
     bindE (liftE (encode_transfer (keccak P) to balance)) (\<lambda>data.
     andsweep (sweep_gas P data (sweep_common [] balance)) (\<lambda>(gas, max_fee).
     bindE (wall P) (\<lambda>now.
     bindE (liftE (sweep_key P to now balance)) (\<lambda>rid.
     let c = sweep_common rid balance in
     andsweep (sweep_reserve P (sweep_args P rid data gas max_fee) c) (\<lambda>row.
     let tx = (transaction_of P TOKEN data gas max_fee row)\<lparr>t_value := 0\<rparr> in
     andsweep (sweep_sign P tx row c) (\<lambda>(raw, h).
     andsweep (sweep_send P tx raw h row c) (\<lambda>_.
       audit_sweep P (swept h to rid balance)))))))))"

definition sweep_proceeds :: "'e signer_env_scheme \<Rightarrow> ('z signer_state_scheme, decision option) py" where
  "sweep_proceeds P =
     (let to = py_strip (sweep_to (conf P)) in
      bindE (readE ready) (\<lambda>rdy.
        if to = [] \<or> \<not> rdy then ok None
        else if py_lower to = py_lower (own_address P) then ok None
        else bindE get_db (\<lambda>d.
          bindE (settle_sweeps P (unresolved d)) (\<lambda>clear.
            if \<not> clear then ok None else sweep_transfer P to))))"

text \<open>One turn of \<open>run_sweeps\<close> under the signing lock: no exception leaves it.\<close>

definition sweep_cycle :: "'e signer_env_scheme \<Rightarrow> ('z signer_state_scheme, unit) py" where
  "sweep_cycle P = tryE (sweep_proceeds P) (\<lambda>_. ok ()) (\<lambda>_. ok ())"

end
