(* ===== verification/Ledger_Frame.thy ===== *)
theory Ledger_Frame
  imports Ledger_Methods
begin

text \<open>
  What the ledger's methods cannot touch: a relation that does not see the books holds across every
  one of them. The extensions of the state (the RPC pool, the signer) use it for their own fields.
\<close>

locale ledger_neutral = effect_preorder R for R :: "'z books_scheme \<Rightarrow> 'z books_scheme \<Rightarrow> bool" +
  assumes neutral_db: "R s (s\<lparr>db := d\<rparr>)"
    and neutral_clock: "R s (s\<lparr>clock_reads := n\<rparr>)"
    and neutral_lines: "R s (s\<lparr>witness_lines := ls\<rparr>)"
    and neutral_tries: "R s (s\<lparr>witness_tries := n\<rparr>)"
begin

lemma fr_get_db: "state_io_rel R get_db"
  unfolding get_db_def by (rule io_readE)

lemma fr_upd_db: "state_io_rel R (upd_db f)"
  unfolding upd_db_def by (rule io_writeE) (rule neutral_db)

lemma fr_read_clock: "state_io_rel R (read_clock E)"
  unfolding read_clock_def by (auto simp: state_io_rel_def neutral_clock)

lemma fr_wall: "state_io_rel R (wall E)"
  unfolding wall_def by (intro io_intros fr_read_clock)

lemma fr_tick: "state_io_rel R (tick E)"
  unfolding tick_def halt_def Let_def by (intro io_intros fr_get_db fr_wall fr_upd_db)

lemma fr_assert_clock_sane: "state_io_rel R (assert_clock_sane E)"
  unfolding assert_clock_sane_def halt_def by (intro io_intros fr_get_db fr_wall fr_upd_db)

lemma fr_write_witness: "state_io_rel R (write_witness E name h)"
  unfolding write_witness_def
  by (intro io_intros io_writeE fr_wall neutral_lines neutral_tries)

lemma fr_audit: "state_io_rel R (audit E f)"
  unfolding audit_def Let_def split_def
  by (intro io_intros fr_tick fr_get_db fr_upd_db fr_write_witness)

lemmas fr_statements = fr_get_db fr_upd_db fr_read_clock fr_wall fr_tick fr_assert_clock_sane fr_audit

lemma fr_transaction: "state_io_rel R m \<Longrightarrow> state_io_rel R (transaction m)"
  unfolding transaction_def by (intro io_intros fr_statements)

lemma fr_as_unavailable: "state_io_rel R m \<Longrightarrow> state_io_rel R (as_unavailable m)"
  unfolding as_unavailable_def by (intro io_intros)

lemma fr_stmts:
  "state_io_rel R (revive_stmt hint a nonce)" "state_io_rel R (insert_stmt H ints guard a n t nonce)"
  "state_io_rel R (open_attempt E k)" "state_io_rel R (fetch_row a)"
  unfolding revive_stmt_def insert_stmt_def open_attempt_def fetch_row_def Let_def split_def
  by (intro io_intros fr_statements)+

lemma fr_reserve: "state_io_rel R (reserve E c a)"
  unfolding reserve_def reserve_insert_def reserve_revive_def split_def
  by (intro io_intros fr_statements fr_transaction fr_as_unavailable fr_stmts)

lemma fr_reserve_gas_only: "state_io_rel R (reserve_gas_only E c a limit)"
  unfolding reserve_gas_only_def gas_attempt_def Let_def split_def
  by (intro io_intros fr_statements fr_transaction fr_as_unavailable fr_stmts)

lemma fr_set_state: "state_io_rel R (set_state E row st u)"
  unfolding set_state_def Let_def by (intro io_intros fr_statements)

lemma fr_marks:
  "state_io_rel R (mark_signed E row h raw)" "state_io_rel R (mark_broadcast E row h)"
  "state_io_rel R (mark_mined E row h fee)" "state_io_rel R (mark_dead E row reason)"
  "state_io_rel R (record_attempt_status h status)"
  unfolding mark_signed_def mark_broadcast_def mark_mined_def mark_dead_def record_attempt_status_def split_def
  by (intro io_intros fr_set_state fr_statements)+

lemma fr_boot_records:
  "state_io_rel R (set_next_nonce E c addr nonce)"
  "state_io_rel R (record_boot E address c e caps_text reconciled)"
  "state_io_rel R (verify_chains E)" "state_io_rel R (stats E)"
  unfolding set_next_nonce_def record_boot_def verify_chains_def stats_def split_def
  by (intro io_intros fr_statements)+

end

interpretation ledger_more: ledger_neutral "same books.more :: 'z books_scheme \<Rightarrow> 'z books_scheme \<Rightarrow> bool"
  by unfold_locales (auto simp: same_def)

end
