(* ===== verification/Policy_Frame.thy ===== *)
theory Policy_Frame
  imports Policy_Boot Ledger_Frame
begin

text \<open>
  What holds of every phase of the policy as soon as it holds of the ledger's methods, the RPC reads
  and the chain cache: \<open>policy_neutral\<close> is the interface between the policy and the ledger under
  it. The two places that use the key, signing and sending, are outside of it.

  Relations that see neither the books, nor the RPC pool, nor the chain cache hold across every
  phase of the policy except the two that use the key: signing and sending. So whatever is proved of
  the recorded transactions is proved at those two places.
\<close>

locale policy_neutral = rpc_neutral R
  for R :: "'z signer_state_scheme \<Rightarrow> 'z signer_state_scheme \<Rightarrow> bool" +
  fixes P :: "'e signer_env_scheme"
  assumes pn_cache: "R s (s\<lparr>chain_ok_until := u\<rparr>)"
    and pn_get_db: "state_io_rel R get_db"
    and pn_read_clock: "state_io_rel R (read_clock P)"
    and pn_wall: "state_io_rel R (wall P)"
    and pn_audit: "state_io_rel R (audit P f)"
    and pn_mark_signed: "state_io_rel R (mark_signed P row h raw)"
    and pn_mark_broadcast: "state_io_rel R (mark_broadcast P row h)"
    and pn_mark_mined: "state_io_rel R (mark_mined P row h fee)"
    and pn_mark_dead: "state_io_rel R (mark_dead P row reason)"
    and pn_attempt_status: "state_io_rel R (record_attempt_status h status)"
    and pn_reserve: "args_key a = (CHAIN_ID, own_address P) \<Longrightarrow> state_io_rel R (reserve P c a)"
    and pn_reserve_gas_only:
      "args_key a = (CHAIN_ID, own_address P) \<Longrightarrow> state_io_rel R (reserve_gas_only P c a n)"
begin

lemmas fr_policy = pn_get_db pn_read_clock pn_wall pn_audit pn_mark_signed pn_mark_broadcast pn_mark_mined
  pn_mark_dead pn_attempt_status io_reads io_receipt_used io_send_raw

lemma fr_chain_identity: "state_io_rel R (verify_chain_identity P force)"
  unfolding verify_chain_identity_def by (intro io_intros fr_policy io_writeE pn_cache)

lemma fr_settle_attempts: "state_io_rel R (settle_attempts P row as)"
  by (induction as) (simp_all only: settle_attempts.simps, (intro io_intros fr_policy; assumption)+)

lemma fr_reconcile: "state_io_rel R (reconcile P)"
  unfolding reconcile_def reconcile_row_def Let_def by (intro io_intros fr_policy fr_settle_attempts)

lemma fr_stop: "state_io_rel R (stop d)" and fr_go: "state_io_rel R (go x)"
  unfolding stop_def go_def by (rule io_ok)+

lemma fr_andthen:
  assumes "state_io_rel R m" "\<And>x. produces m (Inr x) \<Longrightarrow> state_io_rel R (f x)"
  shows "state_io_rel R (andthen m f)"
proof -
  have "state_io_rel R (case r of Inl d \<Rightarrow> ok d | Inr x \<Rightarrow> f x)" if "produces m r" for r
    using that assms(2) io_ok by (cases r) simp_all
  then show ?thesis unfolding andthen_def using assms(1) by (intro io_bindE_produced)
qed

lemma fr_faults:
  "state_io_rel R (chain_fault c e)" "state_io_rel R (estimate_fault c e)" "state_io_rel R (reserve_fault c e)"
  unfolding chain_fault_def estimate_fault_def reserve_fault_def by (intro io_intros fr_stop)+

lemma fr_gas_and_fee: "state_io_rel R (gas_and_fee P addr data c)"
  unfolding gas_and_fee_def split_def Let_def by (intro io_intros fr_policy fr_faults fr_stop fr_go)

lemma fr_simulated: "state_io_rel R (simulated P data row c)"
  unfolding simulated_def by (intro io_intros fr_policy fr_stop fr_go)

lemma fr_replay: "state_io_rel R (replay P row addr calldata c)"
  unfolding replay_def by (intro io_intros fr_policy fr_reconcile)

lemma fr_debit_phases:
  "state_io_rel R (debit_shape P data gas_hint digest16)" "state_io_rel R (debit_replay P addr data c)"
  "state_io_rel R (debit_chain P call c)" "state_io_rel R (debit_signature P call ch c)"
  "state_io_rel R (debit_reserve P (debit_args P addr data gas_hint call ch c gas fee) c')"
proof -
  have "state_io_rel R (field_sanity P call)" "state_io_rel R (channel_state P ch call)" for call ch
    unfolding field_sanity_def channel_state_def by (intro io_intros fr_policy)+
  note checks = this
  show "state_io_rel R (debit_shape P data gas_hint digest16)"
    unfolding debit_shape_def by (intro io_intros fr_stop fr_go checks)
  show "state_io_rel R (debit_replay P addr data c)"
    unfolding debit_replay_def by (intro io_intros fr_policy fr_stop fr_go fr_replay)
  show "state_io_rel R (debit_chain P call c)"
    unfolding debit_chain_def by (intro io_intros fr_policy fr_faults fr_stop fr_go checks fr_chain_identity)
  show "state_io_rel R (debit_signature P call ch c)"
    unfolding debit_signature_def by (intro io_intros fr_stop fr_go)
  show "state_io_rel R (debit_reserve P (debit_args P addr data gas_hint call ch c gas fee) c')"
    unfolding debit_reserve_def by (intro io_intros pn_reserve fr_faults fr_go) (simp add: args_key_def debit_args_def)
qed

lemma fr_expire_phases:
  "state_io_rel R (expire_replay P cid c)" "state_io_rel R (expire_chain P cid c)"
  "state_io_rel R (expire_worth P ch c)"
  "state_io_rel R (gas_reserve P (expire_args P addr data cid gas fee) c)"
  unfolding expire_replay_def expire_chain_def expire_worth_def gas_reserve_def
  by (intro io_intros fr_policy fr_stop fr_go fr_faults fr_chain_identity pn_reserve_gas_only;
      simp add: args_key_def expire_args_def)+

lemma fr_settle_sweeps: "state_io_rel R (settle_sweeps P rows)"
proof -
  have att: "state_io_rel R (settle_sweep_attempts P row as)" for row as
    by (induction as) (simp_all only: settle_sweep_attempts.simps, (intro io_intros fr_policy; assumption)+)
  have "state_io_rel R (settle_sweep_row P row)" for row
    unfolding settle_sweep_row_def by (intro io_intros fr_policy att)
  then show ?thesis
    by (induction rows) (auto intro!: io_intros)
qed

lemma fr_audit_sweep: "state_io_rel R (audit_sweep P d)" and fr_sweep_stop: "state_io_rel R (sweep_stop P d)"
  unfolding sweep_stop_def audit_sweep_def by (intro io_intros fr_policy)+

lemma fr_sweep_phases:
  "state_io_rel R (sweep_balance P)" "state_io_rel R (sweep_gas P data c)"
  "state_io_rel R (sweep_reserve P (sweep_args P rid data gas fee) c)"
  unfolding sweep_balance_def sweep_gas_def sweep_reserve_def split_def Let_def
  by (intro io_intros fr_policy fr_sweep_stop fr_chain_identity pn_reserve_gas_only;
      simp add: args_key_def sweep_args_def)+

lemma fr_andsweep:
  assumes "state_io_rel R m" "\<And>x. produces m (Inr x) \<Longrightarrow> state_io_rel R (f x)"
  shows "state_io_rel R (andsweep m f)"
proof -
  have "state_io_rel R (case r of Inl d \<Rightarrow> ok d | Inr x \<Rightarrow> f x)" if "produces m r" for r
    using that assms(2) io_ok by (cases r) simp_all
  then show ?thesis unfolding andsweep_def using assms(1) by (intro io_bindE_produced)
qed

end

text \<open>Relations that see none of the fields the policy writes outside the key's two places.\<close>

locale signer_neutral = ledger_neutral R + rpc_neutral R
  for R :: "'z signer_state_scheme \<Rightarrow> 'z signer_state_scheme \<Rightarrow> bool" +
  assumes neutral_cache: "R s (s\<lparr>chain_ok_until := u\<rparr>)"
begin

lemmas fr_all = fr_statements fr_reserve fr_reserve_gas_only fr_marks io_reads io_receipt_used
  io_send_raw fr_boot_records

end

sublocale signer_neutral \<subseteq> policy_neutral R P for P :: "'e signer_env_scheme"
  by unfold_locales (intro neutral_cache fr_all)+

end
