(* ===== verification/Policy_Road.thy ===== *)
theory Policy_Road
  imports Policy_Frame
begin

text \<open>
  The shape the three roads to a signature share: phases that neither sign nor send, then a
  reservation, the simulation, the signature and the broadcast. A property of what a road does with
  the key is proved for its end alone and carried over the phases before it once, in \<open>key_effect\<close>;
  there the values those phases returned are at hand, and they say what has been checked.
\<close>

section \<open>The end of a road\<close>

definition pay_road :: "'e signer_env_scheme \<Rightarrow> ('z signer_state_scheme, spend_row) phase \<Rightarrow> bytes \<Rightarrow> int \<times> int \<Rightarrow>
    common \<Rightarrow> (string \<Rightarrow> decision) \<Rightarrow> ('z signer_state_scheme, decision) py" where
  "pay_road P m data gf c f =
     andthen m (\<lambda>row.
     andthen (simulated P data row c) (\<lambda>_.
     andthen (sign_and_send P (transaction_of P (own_escrow P) data (fst gf) (snd gf) row) row c) (\<lambda>h. ok (f h))))"

definition sweep_road :: "'e signer_env_scheme \<Rightarrow> string \<Rightarrow> string \<Rightarrow> int \<Rightarrow> bytes \<Rightarrow> int \<times> int \<Rightarrow>
    ('z signer_state_scheme, decision option) py" where
  "sweep_road P to rid balance data gf =
     (let c = sweep_common rid balance in
      andsweep (sweep_reserve P (sweep_args P rid data (fst gf) (snd gf)) c) (\<lambda>row.
      let tx = (transaction_of P TOKEN data (fst gf) (snd gf) row)\<lparr>t_value := 0\<rparr> in
      andsweep (sweep_sign P tx row c) (\<lambda>r.
      andsweep (sweep_send P tx (fst r) (snd r) row c) (\<lambda>_. audit_sweep P (swept (snd r) to rid balance)))))"

section \<open>Carrying an effect over the phases before it\<close>

locale key_effect = policy_neutral N P
  for N :: "'z signer_state_scheme \<Rightarrow> 'z signer_state_scheme \<Rightarrow> bool" and P :: "'e signer_env_scheme" +
  fixes L :: "'z signer_state_scheme \<Rightarrow> 'z signer_state_scheme \<Rightarrow> bool"
  assumes idle: "N s t \<Longrightarrow> L s t"
    and later: "N s t \<Longrightarrow> L t u \<Longrightarrow> L s u"
begin

lemma ke_idle: "state_io_rel N m \<Longrightarrow> state_io_rel L m"
  by (auto simp: state_io_rel_def intro: idle)

lemma ke_ok: "state_io_rel L (ok x)" and ke_raise: "state_io_rel L (raise e)"
  by (rule ke_idle, rule io_ok) (rule ke_idle, rule io_raise)

lemma ke_tryE:
  assumes "state_io_rel N m" "\<And>e. state_io_rel L (h e)" "\<And>x. produces m x \<Longrightarrow> state_io_rel L (k x)"
  shows "state_io_rel L (tryE m h k)"
proof (rule state_io_relI)
  fix a s s'
  assume run: "run_state (tryE m h k) s = (a, s')"
  obtain r t where m: "run_state m s = (r, t)" by (cases "run_state m s")
  have "L t s'"
  proof (cases r)
    case (Inl e)
    then have "run_state (h e) t = (a, s')" using run m by simp
    then show ?thesis by (rule state_io_relD [OF assms(2)])
  next
    case (Inr x)
    then have at: "run_state (k x) t = (a, s')" using run m by simp
    have "produces m x" using m Inr unfolding produces_def by blast
    from state_io_relD [OF assms(3) [OF this] at] show ?thesis .
  qed
  then show "L s s'" by (rule later [OF state_io_relD [OF assms(1) m]])
qed

lemma ke_bindE:
  "state_io_rel N m \<Longrightarrow> (\<And>x. produces m x \<Longrightarrow> state_io_rel L (f x)) \<Longrightarrow> state_io_rel L (bindE m f)"
  unfolding bindE_def by (intro ke_tryE ke_raise)

lemma ke_andthen:
  assumes "state_io_rel N m" "\<And>x. produces m (Inr x) \<Longrightarrow> state_io_rel L (f x)"
  shows "state_io_rel L (andthen m f)"
proof -
  have "state_io_rel L (case r of Inl d \<Rightarrow> ok d | Inr x \<Rightarrow> f x)" if "produces m r" for r
    using that assms(2) ke_ok by (cases r) simp_all
  then show ?thesis unfolding andthen_def using assms(1) by (intro ke_bindE)
qed

lemma ke_andsweep:
  assumes "state_io_rel N m" "\<And>x. produces m (Inr x) \<Longrightarrow> state_io_rel L (f x)"
  shows "state_io_rel L (andsweep m f)"
proof -
  have "state_io_rel L (case r of Inl d \<Rightarrow> ok d | Inr x \<Rightarrow> f x)" if "produces m r" for r
    using that assms(2) ke_ok by (cases r) simp_all
  then show ?thesis unfolding andsweep_def using assms(1) by (intro ke_bindE)
qed

lemma debit_road:
  assumes "\<And>call c ch u gf. produces (debit_shape P data gas_hint digest16 :: ('z signer_state_scheme, debit_call) phase) (Inr call) \<Longrightarrow>
      produces (debit_chain P call c :: ('z signer_state_scheme, channel) phase) (Inr ch) \<Longrightarrow>
      produces (debit_signature P call ch c :: ('z signer_state_scheme, unit) phase) (Inr u) \<Longrightarrow>
      produces (gas_and_fee P (own_escrow P) data c :: ('z signer_state_scheme, int \<times> int) phase) (Inr gf) \<Longrightarrow>
      state_io_rel L (pay_road P (debit_reserve P (debit_args P addr data gas_hint call ch c (fst gf) (snd gf)) c)
        data gf c (\<lambda>h. answer h False ''signed'' c))"
  shows "state_io_rel L (handle_debit P addr data gas_hint digest16)"
  unfolding handle_debit_def Let_def split_def pay_road_def [symmetric]
  by (rule ke_andthen, rule fr_debit_phases, rule ke_andthen, rule fr_debit_phases, rule ke_andthen,
      rule fr_debit_phases, rule ke_andthen, rule fr_debit_phases, rule ke_andthen, rule fr_gas_and_fee)
    (rule assms)

lemma expire_road:
  assumes "\<And>cid c ch u gf. decode_expire (keccak P) data = Inr cid \<Longrightarrow>
      produces (expire_chain P cid c :: ('z signer_state_scheme, channel) phase) (Inr ch) \<Longrightarrow>
      produces (expire_worth P ch c :: ('z signer_state_scheme, unit) phase) (Inr u) \<Longrightarrow>
      produces (gas_and_fee P (own_escrow P) data c :: ('z signer_state_scheme, int \<times> int) phase) (Inr gf) \<Longrightarrow>
      state_io_rel L (pay_road P (gas_reserve P (expire_args P addr data cid (fst gf) (snd gf)) c)
        data gf c (\<lambda>h. answer h False ''signed'' (c\<lparr>c_receipt_id := expire_key P cid\<rparr>)))"
  shows "state_io_rel L (handle_expire P addr data gas_hint digest16)"
proof (cases "decode_expire (keccak P) data")
  case (Inl e)
  then show ?thesis
    unfolding handle_expire_def by (simp, intro ke_idle io_intros)
next
  case (Inr cid)
  show ?thesis
    unfolding handle_expire_def Inr sum.case Let_def split_def pay_road_def [symmetric]
    by (cases "GAS_HARD_CAP < gas_hint", simp, intro ke_idle io_intros, simp only: if_False, rule ke_andthen,
        rule fr_expire_phases, rule ke_andthen, rule fr_expire_phases, rule ke_andthen, rule fr_expire_phases,
        rule ke_andthen, rule fr_gas_and_fee) (rule assms [OF Inr])
qed

lemma request_road:
  assumes "\<And>env g h. parse_envelope P raw = Inr env \<Longrightarrow> state_io_rel L (handle_debit P (e_to env) (e_data env) g h)"
    and "\<And>env g h. parse_envelope P raw = Inr env \<Longrightarrow> state_io_rel L (handle_expire P (e_to env) (e_data env) g h)"
  shows "state_io_rel L (handle P raw)"
proof -
  have parsed: "state_io_rel L (case parse_envelope P raw of Inl dec \<Rightarrow> ok dec | Inr env \<Rightarrow> dispatch P env)"
  proof (cases "parse_envelope P raw")
    case (Inr env)
    then have "state_io_rel L (dispatch P env)"
      unfolding dispatch_def Let_def using assms ke_ok [where ?'a = decision] by simp
    then show ?thesis using Inr by simp
  qed (simp add: ke_ok)
  have ready: "state_io_rel L
      (if \<not> rdy then bindE (readE not_ready_reason) (\<lambda>why. ok (refuse 503 (or_default why ''boot_reconciliation'') no_common))
       else (case parse_envelope P raw of Inl dec \<Rightarrow> ok dec | Inr env \<Rightarrow> dispatch P env))" for rdy
    using parsed by (cases rdy) (simp, simp, intro ke_idle io_intros)
  show ?thesis
    unfolding handle_def
    by (rule ke_bindE [OF pn_get_db]) (simp add: ke_ok ke_bindE [OF io_readE ready])
qed

lemma sweeping_road:
  assumes "\<And>to balance data gf rid. to = py_strip (sweep_to (conf P)) \<Longrightarrow> to \<noteq> [] \<Longrightarrow>
      py_lower to \<noteq> py_lower (own_address P) \<Longrightarrow>
      produces (sweep_balance P :: ('z signer_state_scheme, decision option + int) py) (Inr balance) \<Longrightarrow>
      encode_transfer (keccak P) to balance = Inr data \<Longrightarrow>
      produces (sweep_gas P data (sweep_common [] balance) :: ('z signer_state_scheme, decision option + int \<times> int) py) (Inr gf) \<Longrightarrow>
      state_io_rel L (sweep_road P to rid balance data gf)"
  shows "state_io_rel L (sweep_proceeds P)"
proof -
  let ?to = "py_strip (sweep_to (conf P))"
  have fin: "state_io_rel L (ok (None :: decision option))"
    by (rule ke_ok)
  have transfer: "state_io_rel L (sweep_transfer P ?to)"
    if "?to \<noteq> []" "py_lower ?to \<noteq> py_lower (own_address P)"
    unfolding sweep_transfer_def split_def
    by (rule ke_andsweep, rule fr_sweep_phases, rule ke_bindE, rule io_liftE, rule ke_andsweep, rule fr_sweep_phases,
        rule ke_bindE, rule pn_wall, rule ke_bindE, rule io_liftE, fold sweep_road_def)
      (rule assms [OF refl that], assumption, simp, assumption)
  have live: "state_io_rel L (bindE get_db (\<lambda>d.
          bindE (settle_sweeps P (unresolved d)) (\<lambda>clear. if \<not> clear then ok None else sweep_transfer P ?to)))"
    if "?to \<noteq> []" "py_lower ?to \<noteq> py_lower (own_address P)"
    by (intro ke_bindE pn_get_db fr_settle_sweeps) (simp add: fin transfer that)
  have "state_io_rel L (if ?to = [] \<or> \<not> rdy then ok None
        else if py_lower ?to = py_lower (own_address P) then ok None
        else bindE get_db (\<lambda>d.
          bindE (settle_sweeps P (unresolved d)) (\<lambda>clear. if \<not> clear then ok None else sweep_transfer P ?to)))" for rdy
    using fin live by simp
  then show ?thesis
    unfolding sweep_proceeds_def Let_def by (intro ke_bindE io_readE)
qed

end

section \<open>Frames over the whole policy\<close>

text \<open>A relation that does not see the key's two records either holds across every entry point.\<close>

locale signer_frame = signer_neutral R
  for R :: "'z signer_state_scheme \<Rightarrow> 'z signer_state_scheme \<Rightarrow> bool" +
  assumes neutral_signed: "R s (s\<lparr>signed_txs := txs\<rparr>)"
    and neutral_sent: "R s (s\<lparr>sent_txs := txs\<rparr>)"

sublocale signer_frame \<subseteq> frame: key_effect R P R for P :: "'e signer_env_scheme"
  by unfold_locales (auto intro: effect_trans)

context signer_frame
begin

lemma fr_key: "state_io_rel R (key_signs P tx)" "state_io_rel R (send_logged P tx raw)"
  unfolding key_signs_def send_logged_def
  by (intro io_intros io_writeE neutral_signed neutral_sent fr_all)+

lemma fr_pay_road: "state_io_rel R m \<Longrightarrow> state_io_rel R (pay_road P m data gf c f)"
  unfolding pay_road_def sign_and_send_def signed_raw_def broadcast_def split_def Let_def
  by (intro fr_andthen fr_simulated fr_stop fr_go io_intros fr_key fr_all)

lemma fr_sweep_road: "state_io_rel R (sweep_road P to rid balance data gf)"
  unfolding sweep_road_def sweep_sign_def sweep_send_def split_def Let_def
  by (intro fr_andsweep fr_sweep_phases fr_sweep_stop fr_audit_sweep io_intros fr_key fr_all)

lemma fr_handle: "state_io_rel R (handle P raw)"
  by (rule frame.request_road)
    (rule frame.debit_road, rule fr_pay_road, rule fr_debit_phases,
     rule frame.expire_road, rule fr_pay_road, rule fr_expire_phases)

lemma fr_sweep_proceeds: "state_io_rel R (sweep_proceeds P)"
  by (rule frame.sweeping_road) (rule fr_sweep_road)

end

end
