(* ===== verification/Policy_Sign.thy ===== *)
theory Policy_Sign
  imports Policy_Road
begin

text \<open>
  What the key signs. Every road signs at most one transaction, at its end, and the values the
  phases before it returned say what has been checked by then.
\<close>

section \<open>At most one signature\<close>

text \<open>
  What a call may do with the key: nothing, or sign one transaction that satisfies \<open>G\<close> and hand it,
  and nothing else, to the endpoints.
\<close>

abbreviation key_use :: "'z signer_state_scheme \<Rightarrow> tx_request list \<times> tx_request list" where
  "key_use s \<equiv> (signed_txs s, sent_txs s)"

definition pays_one :: "(tx_request \<Rightarrow> bool) \<Rightarrow> 'z signer_state_scheme \<Rightarrow> 'z signer_state_scheme \<Rightarrow> bool" where
  "pays_one G s t \<longleftrightarrow>
     signed_txs t = signed_txs s \<and> sent_txs t = sent_txs s
     \<or> (\<exists>tx. G tx \<and> signed_txs t = signed_txs s @ [tx] \<and> sent_txs t \<in> {sent_txs s, sent_txs s @ [tx]})"

interpretation same_signed: signer_neutral "same signed_txs :: 'z signer_state_scheme \<Rightarrow> 'z signer_state_scheme \<Rightarrow> bool"
  by unfold_locales (auto simp: same_def)

interpretation same_sent: signer_neutral "same sent_txs :: 'z signer_state_scheme \<Rightarrow> 'z signer_state_scheme \<Rightarrow> bool"
  by unfold_locales (auto simp: same_def)

interpretation same_use: signer_neutral "same key_use :: 'z signer_state_scheme \<Rightarrow> 'z signer_state_scheme \<Rightarrow> bool"
  by unfold_locales (auto simp: same_def)

interpretation paying: key_effect "same key_use" P "pays_one G"
  for P :: "'e signer_env_scheme" and G :: "tx_request \<Rightarrow> bool"
  by unfold_locales (auto simp: same_def pays_one_def)

lemma pays_one_mono: "state_io_rel (pays_one G) m \<Longrightarrow> (\<And>tx. G tx \<Longrightarrow> H tx) \<Longrightarrow> state_io_rel (pays_one H) m"
  unfolding state_io_rel_def pays_one_def by blast

text \<open>The end of a road from given lists: nothing yet, signed but not sent, or over.\<close>

definition paid :: "(tx_request \<Rightarrow> bool) \<Rightarrow> tx_request list \<Rightarrow> tx_request list \<Rightarrow> 'z signer_state_scheme \<Rightarrow> bool" where
  "paid G S T s \<longleftrightarrow> key_use s = (S, T) \<or> (\<exists>tx. G tx \<and> signed_txs s = S @ [tx] \<and> sent_txs s \<in> {T, T @ [tx]})"

abbreviation ends_paid :: "(tx_request \<Rightarrow> bool) \<Rightarrow> tx_request list \<Rightarrow> tx_request list \<Rightarrow>
    ('z signer_state_scheme \<Rightarrow> bool) \<Rightarrow> ('z signer_state_scheme, 'a) py \<Rightarrow> bool" where
  "ends_paid G S T I m \<equiv> spec I m (\<lambda>_. paid G S T) (\<lambda>_. paid G S T)"

lemma pays_oneI: "(\<And>S T. ends_paid G S T (\<lambda>s. key_use s = (S, T)) m) \<Longrightarrow> state_io_rel (pays_one G) m"
proof (rule state_io_relI)
  fix r s t
  assume ends: "\<And>S T. ends_paid G S T (\<lambda>s. key_use s = (S, T)) m" and run: "run_state m s = (r, t)"
  show "pays_one G s t"
    using spec_returns [OF ends refl, of s] spec_raises [OF ends refl, of s] run
    by (cases r) (auto simp: paid_def pays_one_def)
qed

lemma paid_frame:
  assumes "state_io_rel (same key_use) m" "\<And>s. I s \<Longrightarrow> paid G S T s"
  shows "ends_paid G S T I m"
proof (rule specI)
  show "paid G S T t" if "I s" "run_state m s = (Inr r, t)" for s r t
    using state_io_rel_same [OF assms(1) that(2)] assms(2) [OF that(1)] by (simp add: paid_def)
  show "paid G S T t" if "I s" "run_state m s = (Inl e, t)" for s e t
    using state_io_rel_same [OF assms(1) that(2)] assms(2) [OF that(1)] by (simp add: paid_def)
qed

text \<open>A phase that signs \<open>tx\<close>: it goes on only with the signature made.\<close>

definition signed_once :: "(tx_request \<Rightarrow> bool) \<Rightarrow> tx_request list \<Rightarrow> tx_request list \<Rightarrow> tx_request \<Rightarrow> 'd + 'b \<Rightarrow>
    'z signer_state_scheme \<Rightarrow> bool" where
  "signed_once G S T tx r s \<longleftrightarrow> (case r of Inl d \<Rightarrow> paid G S T s | Inr p \<Rightarrow> key_use s = (S @ [tx], T))"

lemma spec_key_signs:
  "spec (\<lambda>s. key_use s = (S, T)) (key_signs P tx)
     (\<lambda>r s. key_use s = (case r of Inl n \<Rightarrow> (S, T) | Inr raw \<Rightarrow> (S @ [tx], T))) (\<lambda>_ s. False)"
  by (auto simp: key_signs_def spec_def split: sum.splits)

lemma spec_signing_once:
  assumes "G tx" "\<And>n. state_io_rel (same key_use) (f n)" "\<And>raw. state_io_rel (same key_use) (g raw)"
    "\<And>n x. produces (f n) x \<Longrightarrow> isl x"
  shows "spec (\<lambda>s. key_use s = (S, T)) (bindE (key_signs P tx) (\<lambda>r. case r of Inl n \<Rightarrow> f n | Inr raw \<Rightarrow> g raw))
     (signed_once G S T tx) (\<lambda>_. paid G S T)"
proof (rule spec_bindE)
  show "spec (\<lambda>s. key_use s = (S, T)) (key_signs P tx)
     (\<lambda>r s. key_use s = (case r of Inl n \<Rightarrow> (S, T) | Inr raw \<Rightarrow> (S @ [tx], T))) (\<lambda>_. paid G S T)"
    by (rule spec_conseq [OF spec_key_signs]) simp_all
next
  fix r :: "string + bytes"
  show "spec (\<lambda>s. key_use s = (case r of Inl n \<Rightarrow> (S, T) | Inr raw \<Rightarrow> (S @ [tx], T)))
     (case r of Inl n \<Rightarrow> f n | Inr raw \<Rightarrow> g raw) (signed_once G S T tx) (\<lambda>_. paid G S T)"
  proof (cases r)
    case (Inl n)
    have "spec (\<lambda>s. key_use s = (S, T)) (f n) (signed_once G S T tx) (\<lambda>_. paid G S T)"
    proof (rule specI)
      fix s x t
      assume "key_use s = (S, T)" and run: "run_state (f n) s = (Inr x, t)"
      then have "key_use t = (S, T)" using state_io_rel_same [OF assms(2) run] by simp
      moreover have "isl x" using run assms(4) [of n x] unfolding produces_def by blast
      ultimately show "signed_once G S T tx x t" by (cases x) (simp_all add: signed_once_def paid_def)
    next
      fix s e t
      assume "key_use s = (S, T)" and run: "run_state (f n) s = (Inl e, t)"
      then show "paid G S T t" using state_io_rel_same [OF assms(2) run] by (simp add: paid_def)
    qed
    then show ?thesis using Inl by simp
  next
    case (Inr raw)
    have "spec (\<lambda>s. key_use s = (S @ [tx], T)) (g raw) (signed_once G S T tx) (\<lambda>_. paid G S T)"
    proof (rule specI)
      fix s x t
      assume "key_use s = (S @ [tx], T)" and run: "run_state (g raw) s = (Inr x, t)"
      then have "key_use t = (S @ [tx], T)" using state_io_rel_same [OF assms(3) run] by simp
      then show "signed_once G S T tx x t" using assms(1) by (cases x) (simp_all add: signed_once_def paid_def)
    next
      fix s e t
      assume "key_use s = (S @ [tx], T)" and run: "run_state (g raw) s = (Inl e, t)"
      then show "paid G S T t" using state_io_rel_same [OF assms(3) run] assms(1) by (simp add: paid_def)
    qed
    then show ?thesis using Inr by simp
  qed
qed

lemma ends_paid_bind:
  assumes "spec I m (signed_once G S T tx) (\<lambda>_. paid G S T)"
    "\<And>p. ends_paid G S T (\<lambda>s. key_use s = (S @ [tx], T)) (f p)"
  shows "ends_paid G S T I (bindE m (\<lambda>r. case r of Inl d \<Rightarrow> ok (g d) | Inr p \<Rightarrow> f p))"
proof (rule spec_bindE [OF assms(1)])
  fix r
  show "ends_paid G S T (signed_once G S T tx r) (case r of Inl d \<Rightarrow> ok (g d) | Inr p \<Rightarrow> f p)"
  proof (cases r)
    case (Inl d)
    show ?thesis unfolding Inl sum.case by (rule spec_ok) (simp add: signed_once_def)
  next
    case (Inr p)
    show ?thesis using assms(2) [of p] unfolding Inr by (simp add: signed_once_def [abs_def])
  qed
qed

lemma ends_paid_send:
  assumes "G tx"
  shows "ends_paid G S T (\<lambda>s. key_use s = (S @ [tx], T)) (send_logged P tx raw)"
  unfolding send_logged_def
  by (rule spec_thenE [OF spec_writeE paid_frame [OF same_use.io_send_raw]])
    (use assms in \<open>auto simp: paid_def\<close>)

lemma paying_stops:
  "produces (thenE m (stop d)) x \<Longrightarrow> isl x" "produces (thenE m (sweep_stop P d)) y \<Longrightarrow> isl y"
  unfolding stop_def sweep_stop_def by (auto dest!: produces_thenE elim!: produces_bindE)

lemma spec_signed_raw_once:
  assumes "G tx"
  shows "spec (\<lambda>s. key_use s = (S, T)) (signed_raw P tx row c) (signed_once G S T tx) (\<lambda>_. paid G S T)"
  unfolding signed_raw_def Let_def
  by (rule spec_signing_once [where G = G, OF assms];
      (erule paying_stops | intro io_intros same_use.fr_policy same_use.fr_stop same_use.fr_go))

lemma pays_pay_road:
  assumes "state_io_rel (same key_use) m" "\<And>row. G (transaction_of P (own_escrow P) data (fst gf) (snd gf) row)"
  shows "state_io_rel (pays_one G) (pay_road P m data gf c f)"
proof -
  have send: "ends_paid G S T (\<lambda>s. key_use s = (S @ [tx], T)) (broadcast P tx raw h row c)" if "G tx" for S T tx raw h row
    unfolding broadcast_def
    by (rule spec_tryE [OF ends_paid_send [where G = G, OF that]];
        rule paid_frame; (intro io_intros same_use.fr_policy same_use.fr_stop same_use.fr_go)?)
  have end1: "ends_paid G S T (\<lambda>s. key_use s = (S @ [tx], T))
      (bindE (broadcast P tx raw h row c) (\<lambda>q. case q of Inl d \<Rightarrow> stop d | Inr u \<Rightarrow> go h))" if "G tx" for S T tx raw h row
    by (rule spec_bindE [OF send [OF that]]) (rule paid_frame, intro io_intros same_use.fr_stop same_use.fr_go)
  have both: "ends_paid G S T (\<lambda>s. key_use s = (S, T)) (sign_and_send P tx row c)" if "G tx" for S T tx row
    unfolding sign_and_send_def split_def stop_def [abs_def]
    by (rule ends_paid_bind [OF spec_signed_raw_once [where G = G, OF that] end1 [OF that, unfolded stop_def [abs_def]]])
  have last: "state_io_rel (pays_one G) (andthen (sign_and_send P tx row c) (\<lambda>h. ok (f h)))" if "G tx" for tx row
    unfolding andthen_def
    by (intro pays_oneI, rule spec_bindE [OF both [OF that]]) (rule paid_frame, intro io_intros)
  show ?thesis
    unfolding pay_road_def
    by (rule paying.ke_andthen [OF assms(1)], rule paying.ke_andthen [OF same_use.fr_simulated], rule last,
        rule assms(2))
qed

lemma pays_sweep_road:
  assumes "\<And>row. G ((transaction_of P TOKEN data (fst gf) (snd gf) row)\<lparr>t_value := 0\<rparr>)"
  shows "state_io_rel (pays_one G) (sweep_road P to rid balance data gf)"
proof -
  have sign: "spec (\<lambda>s. key_use s = (S, T)) (sweep_sign P tx row c) (signed_once G S T tx) (\<lambda>_. paid G S T)"
    if "G tx" for S T tx row c
    unfolding sweep_sign_def Let_def
    by (rule spec_signing_once [where G = G, OF that];
        (erule paying_stops | intro io_intros same_use.fr_policy same_use.fr_sweep_stop))
  have send: "ends_paid G S T (\<lambda>s. key_use s = (S @ [tx], T)) (sweep_send P tx raw h row c)" if "G tx" for S T tx raw h row c
    unfolding sweep_send_def
    by (rule spec_tryE [OF ends_paid_send [where G = G, OF that]];
        rule paid_frame; (intro io_intros same_use.fr_policy same_use.fr_sweep_stop)?)
  have end1: "ends_paid G S T (\<lambda>s. key_use s = (S @ [tx], T))
      (andsweep (sweep_send P tx raw h row c) (\<lambda>_. audit_sweep P d))" if "G tx" for S T tx raw h row c d
    unfolding andsweep_def
    by (rule spec_bindE [OF send [OF that]]) (rule paid_frame, intro io_intros same_use.fr_audit_sweep)
  have last: "state_io_rel (pays_one G) (andsweep (sweep_sign P tx row c) (\<lambda>r.
      andsweep (sweep_send P tx (fst r) (snd r) row c) (\<lambda>_. audit_sweep P (f r))))" if "G tx" for tx row c f
    unfolding andsweep_def [of "sweep_sign P tx row c"]
    by (intro pays_oneI ends_paid_bind [OF sign [OF that] end1 [OF that]])
  show ?thesis
    unfolding sweep_road_def Let_def
    by (rule paying.ke_andsweep [OF same_use.fr_sweep_phases(3)], rule last, rule assms)
qed

section \<open>What a phase has checked when it goes on\<close>

lemma produces_stop [simp]: "produces (stop d) r \<longleftrightarrow> r = Inl d"
  by (auto simp: stop_def)

lemma produces_go [simp]: "produces (go x) r \<longleftrightarrow> r = Inr x"
  by (auto simp: go_def)

lemma faults_stop [simp]:
  "\<not> produces (chain_fault c e) (Inr x)" "\<not> produces (estimate_fault c e) (Inr x)"
  "\<not> produces (reserve_fault c e) (Inr x)"
  by (auto simp: chain_fault_def estimate_fault_def reserve_fault_def split: exn.splits)

lemma gas_and_fee_checked:
  assumes "produces (gas_and_fee P addr data c) (Inr (gas, fee))"
  shows "gas \<le> GAS_HARD_CAP" "fee \<le> max_fee_wei_ceiling (conf P)"
  using produces_tryE [OF assms [unfolded gas_and_fee_def]]
  by (auto simp: Let_def split: if_splits)

text \<open>At a second this process read from its own clock.\<close>

definition at_some_second :: "'e signer_env_scheme \<Rightarrow> (int \<Rightarrow> bool) \<Rightarrow> bool" where
  "at_some_second P Q \<longleftrightarrow> (\<exists>now. produces (wall P :: (signer_state, int) py) now \<and> Q now)"

text \<open>The amount, the identifiers and the deadline of a call that passed R11.\<close>

definition sane_call :: "'e signer_env_scheme \<Rightarrow> debit_call \<Rightarrow> bool" where
  "sane_call P call \<longleftrightarrow>
     MIN_AMOUNT_UNITS \<le> call_amount call \<and> call_amount call \<le> MAX_AMOUNT_UNITS
     \<and> call_amount call mod CENT_UNITS = 0
     \<and> call_receipt call \<noteq> zero_bytes 32 \<and> call_channel call \<noteq> zero_bytes 32
     \<and> at_some_second P (\<lambda>now. now + MIN_DEADLINE_SKEW_S \<le> call_deadline call
          \<and> call_deadline call \<le> now + MAX_DEADLINE_TTL_S)"

lemma field_sanity_checked:
  assumes "produces (field_sanity P call :: (signer_state, string option) py) None"
  shows "sane_call P call"
proof -
  obtain now where "produces (wall P :: (signer_state, int) py) now"
    and "produces (ok (
       if call_amount call < MIN_AMOUNT_UNITS \<or> MAX_AMOUNT_UNITS < call_amount call then Some ''amount_out_of_band''
       else if call_amount call mod CENT_UNITS \<noteq> 0 then Some ''amount_out_of_band''
       else if call_receipt call = zero_bytes 32 then Some ''receipt_id_zero''
       else if call_channel call = zero_bytes 32 then Some ''channel_id_zero''
       else if call_deadline call < now + MIN_DEADLINE_SKEW_S then Some ''deadline_out_of_band''
       else if now + MAX_DEADLINE_TTL_S < call_deadline call then Some ''deadline_out_of_band''
       else None) :: (signer_state, string option) py) None"
    using assms unfolding field_sanity_def by (rule produces_bindE)
  then show ?thesis unfolding produces_ok sane_call_def at_some_second_def by (auto split: if_splits)
qed

lemma debit_shape_checked:
  assumes "produces (debit_shape P data gas_hint digest16 :: (signer_state, debit_call) phase) (Inr call)"
  shows "decode_debit (keccak P) data = Inr call" "check_signature_shape call = Inr ()" "sane_call P call"
    "gas_hint \<le> GAS_HARD_CAP"
proof -
  obtain u where dec: "decode_debit (keccak P) data = Inr u" "check_signature_shape u = Inr ()"
    using assms by (cases "decode_debit (keccak P) data"; cases "check_signature_shape (projr (decode_debit (keccak P) data))")
      (auto simp: debit_shape_def split: exn.splits)
  moreover have "u = call \<and> gas_hint \<le> GAS_HARD_CAP \<and> sane_call P u"
    using assms dec
    by (simp add: debit_shape_def, elim produces_bindE)
      (auto split: option.splits if_splits dest: field_sanity_checked)
  ultimately show "decode_debit (keccak P) data = Inr call" "check_signature_shape call = Inr ()" "sane_call P call"
    "gas_hint \<le> GAS_HARD_CAP"
    by auto
qed

text \<open>The channel, as read from chain, covers the call (R14).\<close>

definition covering :: "'e signer_env_scheme \<Rightarrow> channel \<Rightarrow> debit_call \<Rightarrow> bool" where
  "covering P ch call \<longleftrightarrow>
     is_open ch \<and> at_some_second P (\<lambda>now. now + CHANNEL_MIN_REMAINING_S < debit_deadline ch) \<and> call_amount call \<le> ch_balance ch \<and> py_lower (ch_token ch) = py_lower TOKEN
     \<and> channel_exists ch = Inr True
     \<and> (addr_int (ch_hub ch) = Inr 0 \<or> py_lower (ch_hub ch) = py_lower (own_address P))"

lemma channel_state_checked:
  assumes "produces (channel_state P ch call :: (signer_state, string option) py) None"
  shows "covering P ch call"
  using assms
  by (simp add: channel_state_def, elim produces_bindE)
    (auto simp: covering_def at_some_second_def split: if_splits elim!: produces_bindE)

text \<open>Read from chain by this process, in some state.\<close>

definition channel_read :: "'e signer_env_scheme \<Rightarrow> bytes \<Rightarrow> channel \<Rightarrow> bool" where
  "channel_read P cid ch \<longleftrightarrow>
     produces (get_channel P (own_escrow P) cid :: (signer_state, channel) py) ch"

text \<open>This process asked chain whether the receipt was collected, and was told no.\<close>

definition receipt_open :: "'e signer_env_scheme \<Rightarrow> debit_call \<Rightarrow> bool" where
  "receipt_open P call \<longleftrightarrow>
     produces (receipt_used P (own_escrow P) (call_receipt call) (Some (call_channel call)) :: (signer_state, bool) py) False"

lemma debit_chain_checked:
  assumes "produces (debit_chain P call c :: (signer_state, channel) phase) (Inr ch)"
  shows "channel_read P (call_channel call) ch \<and> covering P ch call \<and> receipt_open P call"
proof -
  let ?body = "thenE (verify_chain_identity P False)
       (bindE (get_channel P (own_escrow P) (call_channel call)) (\<lambda>ch.
        bindE (channel_state P ch call) (\<lambda>st.
          case st of
            Some reason \<Rightarrow> stop (refuse 422 reason c)
          | None \<Rightarrow>
              bindE (receipt_used P (own_escrow P) (call_receipt call) (Some (call_channel call))) (\<lambda>used.
                if used then stop (refuse 422 ''receipt_already_used'' c) else go ch)))) :: (signer_state, channel) phase"
  have "produces ?body (Inr ch)"
    using produces_tryE [OF assms [unfolded debit_chain_def]] by auto
  from produces_thenE [OF this] show ?thesis
    unfolding channel_read_def receipt_open_def
    by (elim produces_bindE)
      (auto split: option.splits if_splits elim!: produces_bindE dest: channel_state_checked)
qed

text \<open>The depositor's signature over the digest that names this key's address as the hub (R16).\<close>

definition debit_authority :: "'e signer_env_scheme \<Rightarrow> debit_call \<Rightarrow> channel \<Rightarrow> debit_auth" where
  "debit_authority P call ch =
     \<lparr>auth_channel = call_channel call, auth_hub = own_address P, auth_token = ch_token ch,
      auth_amount = call_amount call, auth_receipt = call_receipt call, auth_nonce = ch_nonce ch,
      auth_deadline = call_deadline call\<rparr>"

definition depositor_signed :: "'e signer_env_scheme \<Rightarrow> debit_call \<Rightarrow> channel \<Rightarrow> bool" where
  "depositor_signed P call ch \<longleftrightarrow>
     (\<exists>digest who.
        debit_digest (keccak P) (own_separator P) (debit_authority P call ch) = Inr digest
        \<and> recover_hash P digest (call_signature call) = Some who
        \<and> py_lower who = py_lower (ch_depositor ch))"

lemma debit_signature_checked:
  assumes "produces (debit_signature P call ch c) (Inr u)"
  shows "depositor_signed P call ch"
  using assms unfolding debit_signature_def depositor_signed_def debit_authority_def
  by (elim produces_bindE) (auto split: option.splits if_splits)

section \<open>What a request gets signed\<close>

text \<open>The frame of every transaction of this key.\<close>

definition tx_frame :: "'e signer_env_scheme \<Rightarrow> string \<Rightarrow> bytes \<Rightarrow> tx_request \<Rightarrow> bool" where
  "tx_frame P target data tx \<longleftrightarrow>
     t_to tx = target \<and> t_value tx = 0 \<and> t_data tx = hex0x data \<and> t_chain_id tx = 8453 \<and> t_type tx = 2
     \<and> t_gas tx \<le> GAS_HARD_CAP \<and> t_max_fee tx \<le> max_fee_wei_ceiling (conf P)
     \<and> t_priority tx = priority_fee_wei (conf P)"

definition debit_tx_ok :: "'e signer_env_scheme \<Rightarrow> bytes \<Rightarrow> tx_request \<Rightarrow> bool" where
  "debit_tx_ok P data tx \<longleftrightarrow>
     (\<exists>call ch.
        tx_frame P (own_escrow P) data tx \<and> decode_debit (keccak P) data = Inr call
        \<and> check_signature_shape call = Inr () \<and> sane_call P call
        \<and> channel_read P (call_channel call) ch \<and> covering P ch call \<and> receipt_open P call
        \<and> depositor_signed P call ch)"

definition expire_tx_ok :: "'e signer_env_scheme \<Rightarrow> bytes \<Rightarrow> tx_request \<Rightarrow> bool" where
  "expire_tx_ok P data tx \<longleftrightarrow>
     (\<exists>cid ch.
        tx_frame P (own_escrow P) data tx \<and> decode_expire (keccak P) data = Inr cid
        \<and> channel_read P cid ch \<and> ch_status ch = 0 \<and> 0 < ch_used_amount ch
        \<and> py_lower (ch_hub ch) = py_lower (own_address P)
        \<and> (ch_expires_at ch = 0 \<or> at_some_second P (\<lambda>now. debit_deadline ch < now)))"

lemma transaction_frame:
  "gas \<le> GAS_HARD_CAP \<Longrightarrow> fee \<le> max_fee_wei_ceiling (conf P) \<Longrightarrow>
     tx_frame P target data (transaction_of P target data gas fee row)"
  by (simp add: tx_frame_def transaction_of_def TX_VALUE_def CHAIN_ID_def)

lemma frame_checked:
  assumes "produces (gas_and_fee P addr data c) (Inr gf)"
  shows "tx_frame P target data (transaction_of P target data (fst gf) (snd gf) row)"
  using gas_and_fee_checked [of P addr data c "fst gf" "snd gf"] assms by (auto intro: transaction_frame)

lemma pays_handle_debit:
  "state_io_rel (pays_one (debit_tx_ok P data) :: signer_state \<Rightarrow> signer_state \<Rightarrow> bool)
     (handle_debit P addr data gas_hint digest16)"
proof (rule paying.debit_road, rule pays_pay_road, rule same_use.fr_debit_phases)
  fix call c ch u gf row
  assume shape: "produces (debit_shape P data gas_hint digest16 :: (signer_state, debit_call) phase) (Inr call)"
    and chain: "produces (debit_chain P call c :: (signer_state, channel) phase) (Inr ch)"
    and sig: "produces (debit_signature P call ch c :: (signer_state, unit) phase) (Inr u)"
    and gas: "produces (gas_and_fee P (own_escrow P) data c :: (signer_state, int \<times> int) phase) (Inr gf)"
  show "debit_tx_ok P data (transaction_of P (own_escrow P) data (fst gf) (snd gf) row)"
    using frame_checked [OF gas] debit_shape_checked [OF shape] debit_chain_checked [OF chain]
      debit_signature_checked [OF sig]
    unfolding debit_tx_ok_def by blast
qed

text \<open>The channel is one whose expiry pays this key (R31).\<close>

lemma expire_worth_checked:
  assumes "produces (expire_worth P ch c :: (signer_state, unit) phase) (Inr u)"
  shows "ch_status ch = 0 \<and> 0 < ch_used_amount ch \<and> py_lower (ch_hub ch) = py_lower (own_address P)
    \<and> (ch_expires_at ch = 0 \<or> at_some_second P (\<lambda>now. debit_deadline ch < now))"
  using assms by (auto simp: expire_worth_def at_some_second_def split: if_splits elim!: produces_bindE)

lemma expire_chain_checked:
  assumes "produces (expire_chain P cid c :: (signer_state, channel) phase) (Inr ch)"
  shows "channel_read P cid ch"
proof -
  let ?body = "thenE (verify_chain_identity P False) (bindE (get_channel P (own_escrow P) cid) go) :: (signer_state, channel) phase"
  have "produces ?body (Inr ch)"
    using produces_tryE [OF assms [unfolded expire_chain_def]] by auto
  from produces_thenE [OF this] show ?thesis
    unfolding channel_read_def by (elim produces_bindE) simp
qed

lemma pays_handle_expire:
  "state_io_rel (pays_one (expire_tx_ok P data) :: signer_state \<Rightarrow> signer_state \<Rightarrow> bool)
     (handle_expire P addr data gas_hint digest16)"
proof (rule paying.expire_road, rule pays_pay_road, rule same_use.fr_expire_phases)
  fix cid c ch u gf row
  assume cid: "decode_expire (keccak P) data = Inr cid"
    and chain: "produces (expire_chain P cid c :: (signer_state, channel) phase) (Inr ch)"
    and worth: "produces (expire_worth P ch c :: (signer_state, unit) phase) (Inr u)"
    and gas: "produces (gas_and_fee P (own_escrow P) data c :: (signer_state, int \<times> int) phase) (Inr gf)"
  show "expire_tx_ok P data (transaction_of P (own_escrow P) data (fst gf) (snd gf) row)"
    using frame_checked [OF gas] expire_chain_checked [OF chain] expire_worth_checked [OF worth] cid
    unfolding expire_tx_ok_def by blast
qed

text \<open>The bytes of a request that passed the envelope, and what may be signed for them.\<close>

definition request_tx_ok :: "'e signer_env_scheme \<Rightarrow> bytes \<Rightarrow> tx_request \<Rightarrow> bool" where
  "request_tx_ok P raw tx \<longleftrightarrow>
     (\<exists>env. parse_envelope P raw = Inr env \<and> (debit_tx_ok P (e_data env) tx \<or> expire_tx_ok P (e_data env) tx))"

lemma pays_handle:
  "state_io_rel (pays_one (request_tx_ok P raw) :: signer_state \<Rightarrow> signer_state \<Rightarrow> bool) (handle P raw)"
  by (rule paying.request_road)
    (rule pays_one_mono [OF pays_handle_debit], simp add: request_tx_ok_def,
     rule pays_one_mono [OF pays_handle_expire], simp add: request_tx_ok_def)

section \<open>What a sweep signs\<close>

definition sweep_tx_ok :: "'e signer_env_scheme \<Rightarrow> tx_request \<Rightarrow> bool" where
  "sweep_tx_ok P tx \<longleftrightarrow>
     (\<exists>balance data.
        tx_frame P TOKEN data tx \<and> sweep_min_units (conf P) \<le> balance
        \<and> produces (token_balance P TOKEN (own_address P) :: (signer_state, int) py) balance
        \<and> encode_transfer (keccak P) (py_strip (sweep_to (conf P))) balance = Inr data)
     \<and> py_strip (sweep_to (conf P)) \<noteq> [] \<and> py_lower (py_strip (sweep_to (conf P))) \<noteq> py_lower (own_address P)"

lemma sweep_balance_checked:
  assumes "produces (sweep_balance P :: (signer_state, decision option + int) py) (Inr balance)"
  shows "sweep_min_units (conf P) \<le> balance"
    and "produces (token_balance P TOKEN (own_address P) :: (signer_state, int) py) balance"
proof -
  let ?body = "thenE (verify_chain_identity P False) (token_balance P TOKEN (own_address P)) :: (signer_state, int) py"
  have no: "\<not> produces (sweep_stop P d :: (signer_state, decision option + int) py) (Inr balance)" for d
    unfolding sweep_stop_def by (auto elim!: produces_bindE)
  have "\<not> produces ((case e of
          ChainUnverified \<Rightarrow> sweep_stop P (refuse 503 ''chain_unverified'' (sweep_common [] 0))
        | RpcUnavailable \<Rightarrow> ok (Inl None) | Reverted n \<Rightarrow> ok (Inl None)
        | _ \<Rightarrow> raise e) :: (signer_state, decision option + int) py) (Inr balance)" for e
    by (cases e) (auto simp: no)
  then obtain x where x: "produces ?body x"
      "produces (if x < sweep_min_units (conf P) then ok (Inl None) else ok (Inr x)
         :: (signer_state, decision option + int) py) (Inr balance)"
    using produces_tryE [OF assms [unfolded sweep_balance_def]] by blast
  then have enough: "produces ?body balance" "sweep_min_units (conf P) \<le> balance"
    by (cases "x < sweep_min_units (conf P)"; simp)+
  show "sweep_min_units (conf P) \<le> balance"
    by (rule enough)
  show "produces (token_balance P TOKEN (own_address P) :: (signer_state, int) py) balance"
    by (rule produces_thenE [OF enough(1)])
qed

lemma sweep_gas_checked:
  assumes "produces (sweep_gas P data c) (Inr (gas, fee))"
  shows "gas \<le> GAS_HARD_CAP \<and> fee \<le> max_fee_wei_ceiling (conf P)"
proof -
  have no: "\<not> produces (sweep_stop P d) (Inr (gas, fee))" for d
    unfolding sweep_stop_def by (auto elim!: produces_bindE)
  show ?thesis
    using produces_tryE [OF assms [unfolded sweep_gas_def]] no
    by (auto simp: Let_def split: if_splits exn.splits)
qed

lemma pays_sweep_proceeds:
  "state_io_rel (pays_one (sweep_tx_ok P) :: signer_state \<Rightarrow> signer_state \<Rightarrow> bool) (sweep_proceeds P)"
proof (rule paying.sweeping_road, rule pays_sweep_road)
  fix to balance data gf row
  assume dest: "to = py_strip (sweep_to (conf P))" "to \<noteq> []" "py_lower to \<noteq> py_lower (own_address P)"
    and bal: "produces (sweep_balance P :: (signer_state, decision option + int) py) (Inr balance)"
    and data: "encode_transfer (keccak P) to balance = Inr data"
    and gas: "produces (sweep_gas P data (sweep_common [] balance) :: (signer_state, decision option + int \<times> int) py) (Inr gf)"
  have "tx_frame P TOKEN data ((transaction_of P TOKEN data (fst gf) (snd gf) row)\<lparr>t_value := 0\<rparr>)"
    using sweep_gas_checked [of P data _ "fst gf" "snd gf"] gas
    by (auto simp: tx_frame_def transaction_of_def CHAIN_ID_def)
  then show "sweep_tx_ok P ((transaction_of P TOKEN data (fst gf) (snd gf) row)\<lparr>t_value := 0\<rparr>)"
    using sweep_balance_checked [OF bal] dest data unfolding sweep_tx_ok_def by blast
qed

end
