(* ===== verification/Policy_Nonce.thy ===== *)
theory Policy_Nonce
  imports Policy_Sign Ledger_Gas
begin

text \<open>
  One nonce, one transaction: over a session of the process, from its boot on, no two of the
  transactions whose bytes leave it carry the same account nonce. The invariant is that of the books
  with the sent nonces as the set \<open>B\<close> of \<open>book_step\<close>: they lie below the allocator, and no
  reservation that could still give its nonce back holds one of them.
\<close>

section \<open>The invariant of a session\<close>

definition session_key :: "'e signer_env_scheme \<Rightarrow> nonce_key" where
  "session_key P = (CHAIN_ID, own_address P)"

definition sent_nonces :: "'z signer_state_scheme \<Rightarrow> int set" where
  "sent_nonces s = t_nonce ` set (sent_txs s)"

text \<open>Every row of the books was reserved for this key: the key was never rotated under them.\<close>

definition own_rows :: "nonce_key \<Rightarrow> ledger_db \<Rightarrow> bool" where
  "own_rows k d \<longleftrightarrow> (\<forall>r \<in> set (spend d). (chain_id r, from_addr r) = k)"

definition session_ok :: "'e signer_env_scheme \<Rightarrow> 'z signer_state_scheme \<Rightarrow> bool" where
  "session_ok P s \<longleftrightarrow>
     rows_wf (session_key P) (sent_nonces s) (db s) \<and> own_rows (session_key P) (db s)
     \<and> distinct (map t_nonce (sent_txs s))"

lemma own_rows_core: "map row_core (spend d') = map row_core (spend d) \<Longrightarrow> own_rows k d' = own_rows k d"
proof -
  assume "map row_core (spend d') = map row_core (spend d)"
  then have "map (\<lambda>r. (chain_id r, from_addr r)) (spend d') = map (\<lambda>r. (chain_id r, from_addr r)) (spend d)"
    by (rule map_cong_core) (blast dest: row_core_fields(5) row_core_fields(6) intro: arg_cong2 [where f = Pair])
  then have "(\<forall>x \<in> set (map (\<lambda>r. (chain_id r, from_addr r)) (spend d')). x = k) =
      (\<forall>x \<in> set (map (\<lambda>r. (chain_id r, from_addr r)) (spend d)). x = k)"
    by simp
  then show ?thesis by (simp add: own_rows_def)
qed

lemma step_own_rows:
  assumes "book_step H k B d d'" "own_rows k d"
  shows "own_rows k d'"
  using assms
proof (cases rule: book_step.cases)
  case (inserts a w)
  then show ?thesis using assms(2)
    by (auto simp: own_rows_def args_key_def)
next
  case (revives a w hint)
  then show ?thesis using assms(2) own_rows_core [of d' d] by simp
next
  case (moves st row u)
  then show ?thesis using assms(2) own_rows_core [of d' d] by simp
qed (simp_all add: own_rows_def halt_db_def)

lemma path_own_rows: "(book_step H k B)\<^sup>*\<^sup>* d d' \<Longrightarrow> own_rows k d \<Longrightarrow> own_rows k d'"
  by (induction rule: rtranclp_induct) (auto intro: step_own_rows)

section \<open>Steps that send nothing\<close>

definition quiet :: "'e signer_env_scheme \<Rightarrow> 'z signer_state_scheme \<Rightarrow> 'z signer_state_scheme \<Rightarrow> bool" where
  "quiet P s t \<longleftrightarrow> (\<forall>B. evolves (keccak P) (session_key P) B s t) \<and> sent_txs t = sent_txs s"

lemma quiet_keeps: "quiet P s t \<Longrightarrow> session_ok P s \<Longrightarrow> session_ok P t"
  unfolding quiet_def session_ok_def sent_nonces_def evolves_def
  using path_keeps_rows path_own_rows by metis

lemma quietI:
  assumes "\<And>B. state_io_rel (evolves (keccak P) (session_key P) B) m" "state_io_rel (same sent_txs) m"
  shows "state_io_rel (quiet P) m"
proof (rule state_io_relI)
  fix r s s'
  assume run: "run_state m s = (r, s')"
  show "quiet P s s'"
    unfolding quiet_def using state_io_relD [OF assms(1) run] state_io_rel_same [OF assms(2) run] by blast
qed

interpretation quiet: effect_preorder "quiet P" for P :: "'e signer_env_scheme"
  unfolding quiet_def
  by unfold_locales (auto intro: evolves.effect_refl evolves.effect_trans)

lemma quiet_cache: "quiet P s (s\<lparr>chain_ok_until := u\<rparr>)"
  by (simp add: quiet_def evolves_same)

interpretation quiet: policy_neutral "quiet P" P for P :: "'e signer_env_scheme"
proof
  fix s :: "'z signer_state_scheme" and n vs u
  show "quiet P s (s\<lparr>exchanges := n\<rparr>)" "quiet P s (s\<lparr>v1_escrows := vs\<rparr>)" "quiet P s (s\<lparr>chain_ok_until := u\<rparr>)"
    by (simp_all add: quiet_def evolves_same)
next
  fix a c n
  assume "args_key a = (CHAIN_ID, own_address P)"
  then have key: "args_key a = session_key P" by (simp add: session_key_def)
  show "state_io_rel (quiet P) (reserve P c a)" "state_io_rel (quiet P) (reserve_gas_only P c a n)"
    by (rule quietI, rule io_reserve [OF key], rule same_sent.fr_reserve)
      (rule quietI, rule io_reserve_gas_only [OF key], rule same_sent.fr_reserve_gas_only)
next
  have clock: "state_io_rel (same db) (read_clock P)"
    by (simp add: state_io_rel_def same_def read_clock_def)
  show "state_io_rel (quiet P) (read_clock P)"
    by (rule quietI, rule io_evolves_same [OF clock], rule same_sent.fr_read_clock)
qed (rule quietI; (rule io_statements io_mark_signed io_mark_broadcast io_mark_mined io_mark_dead
      io_record_attempt_status same_sent.fr_statements same_sent.fr_marks))+

interpretation session: key_effect "quiet P" P "keeps (session_ok P)" for P :: "'e signer_env_scheme"
  by unfold_locales (auto simp: keeps_def dest: quiet_keeps)

section \<open>The nonce a reservation holds\<close>

text \<open>
  The row's nonce lies below the allocator, was never sent, and belongs to the one row alive that
  carries the key of the reservation.
\<close>

definition holding :: "'e signer_env_scheme \<Rightarrow> spend_row \<Rightarrow> 'z signer_state_scheme \<Rightarrow> bool" where
  "holding P row s \<longleftrightarrow>
     session_ok P s \<and> account_nonce row \<notin> sent_nonces s \<and> account_nonce row < next_nonce (db s) (session_key P)
     \<and> (\<exists>r \<in> set (spend (db s)). keyed (chain_id row) (escrow row) (receipt_id row) r
          \<and> account_nonce r = account_nonce row)"

text \<open>The same once the row has left the state in which its nonce could be given back.\<close>

definition committed :: "'e signer_env_scheme \<Rightarrow> int \<Rightarrow> 'z signer_state_scheme \<Rightarrow> bool" where
  "committed P n s \<longleftrightarrow>
     session_ok P s \<and> n \<notin> sent_nonces s \<and> n < next_nonce (db s) (session_key P)
     \<and> (\<forall>r \<in> set (spend (db s)). row_state r = Reserved \<longrightarrow> account_nonce r \<noteq> n)"

lemma to_row_fields [simp]:
  "account_nonce (to_row r) = account_nonce r" "chain_id (to_row r) = chain_id r"
  "escrow (to_row r) = escrow r" "receipt_id (to_row r) = receipt_id r" "row_state (to_row r) = row_state r"
  by (simp_all add: to_row_def spend_row.truncate_def)

lemma fresh_nonce: "session_ok P s \<Longrightarrow> next_nonce (db s) (session_key P) \<notin> sent_nonces s"
  by (auto simp: session_ok_def rows_wf_defs)

lemma holding_inserted:
  assumes "session_ok P s" "session_ok P t" "sent_txs t = sent_txs s" "args_key a = session_key P"
    "spend (db t) = spend (commit_insert H a w (db s))"
    "nonce_alloc (db t) = nonce_alloc (commit_insert H a w (db s))"
  shows "holding P (to_row (new_row H a w (db s))) t"
proof -
  have "next_nonce (db t) (session_key P) = next_nonce (db s) (session_key P) + 1"
    using assms(4,6) next_nonce_commit_insert [of H a w "db s" "session_key P"] by (simp add: next_nonce_def)
  moreover have "next_nonce (db s) (session_key P) \<notin> sent_nonces t"
    using fresh_nonce [OF assms(1)] assms(3) by (simp add: sent_nonces_def)
  ultimately show ?thesis
    using assms(2,4,5) by (simp add: holding_def keyed_def)
qed

lemma holding_revived:
  assumes "session_ok P s" "session_ok P t" "sent_txs t = sent_txs s" "args_key a = session_key P"
    "find_row (db s) (r_chain_id a) (r_escrow a) (r_receipt_id a) = Some r" "revive_fault hint a (db s) = None"
    "spend (db t) = spend (commit_revive hint a w (db s))"
    "nonce_alloc (db t) = nonce_alloc (commit_revive hint a w (db s))"
  shows "holding P (to_row (if revivable a r then revive_row hint a (next_nonce (db s) (args_key a)) r else r)) t"
proof -
  let ?n = "next_nonce (db s) (session_key P)"
  have able: "revivable a r"
    using assms(1) by (intro revivable_found [OF _ assms(5,6)]) (simp add: session_ok_def rows_wf_def)
  have next': "next_nonce (db t) (session_key P) = ?n + 1"
    using assms(4,8) commit_revive_frame(10) [of hint a w "db s" "session_key P"] by (simp add: next_nonce_def)
  have unsent: "?n \<notin> sent_nonces t"
    using fresh_nonce [OF assms(1)] assms(3) by (simp add: sent_nonces_def)
  have "revive_row hint a ?n r \<in> set (spend (db t))"
    using able find_row_Some(1) [OF assms(5)] assms(4,7) by (auto simp: revive_rows_def)
  moreover have "keyed (chain_id r) (escrow r) (receipt_id r) (revive_row hint a ?n r)"
    by (simp add: keyed_def revive_row_def)
  ultimately show ?thesis
    using assms(2,4) able next' unsent by (auto simp: holding_def revive_row_def)
qed

section \<open>From the reservation to the network\<close>

text \<open>A phase's result: what the next phase needs, or the decision that ends the request.\<close>

definition going :: "'e signer_env_scheme \<Rightarrow> ('a \<Rightarrow> 'z signer_state_scheme \<Rightarrow> bool) \<Rightarrow> 'd + 'a \<Rightarrow> 'z signer_state_scheme \<Rightarrow> bool" where
  "going P J r s \<longleftrightarrow> (case r of Inl d \<Rightarrow> session_ok P s | Inr x \<Rightarrow> J x s)"

abbreviation ends_ok :: "'e signer_env_scheme \<Rightarrow> ('z signer_state_scheme \<Rightarrow> bool) \<Rightarrow> ('z signer_state_scheme, 'a) py \<Rightarrow> bool" where
  "ends_ok P I m \<equiv> spec I m (\<lambda>_. session_ok P) (\<lambda>_. session_ok P)"

lemma ends_ok_keeps: "ends_ok P (session_ok P) m \<longleftrightarrow> state_io_rel (keeps (session_ok P)) m"
proof
  assume ends: "ends_ok P (session_ok P) m"
  show "state_io_rel (keeps (session_ok P)) m"
  proof (rule state_io_relI)
    fix r s t
    assume run: "run_state m s = (r, t)"
    have "session_ok P t" if before: "session_ok P s"
    proof (cases r)
      case (Inl e)
      then show ?thesis using spec_raises [OF ends before] run by simp
    next
      case (Inr x)
      then show ?thesis using spec_returns [OF ends before] run by simp
    qed
    then show "keeps (session_ok P) s t" by (simp add: keeps_def)
  qed
next
  assume "state_io_rel (keeps (session_ok P)) m"
  then show "ends_ok P (session_ok P) m"
    by (intro specI) (erule (2) state_io_rel_keeps)+
qed

lemma ends_quiet:
  "state_io_rel (quiet P) m \<Longrightarrow> (\<And>s. I s \<Longrightarrow> session_ok P s) \<Longrightarrow> ends_ok P I m"
  by (rule specI) (auto dest: state_io_relD intro: quiet_keeps)

lemma spec_phase:
  assumes "state_io_rel (quiet P) m" "\<And>s. I s \<Longrightarrow> session_ok P s"
    "\<And>s x t. I s \<Longrightarrow> run_state m s = (Inr (Inr x), t) \<Longrightarrow> J x t"
  shows "spec I m (going P J) (\<lambda>_. session_ok P)"
proof (rule specI)
  fix s r t
  assume I: "I s" and run: "run_state m s = (Inr r, t)"
  show "going P J r t"
    using assms(3) [OF I] run quiet_keeps [OF state_io_relD [OF assms(1) run] assms(2) [OF I]]
    by (cases r) (simp_all add: going_def)
next
  fix s e t
  assume I: "I s" and run: "run_state m s = (Inl e, t)"
  show "session_ok P t"
    by (rule quiet_keeps [OF state_io_relD [OF assms(1) run] assms(2) [OF I]])
qed

lemma ends_going:
  assumes "spec I m (going P J) (\<lambda>_. session_ok P)" "\<And>x. ends_ok P (J x) (f x)"
  shows "ends_ok P I (bindE m (\<lambda>r. case r of Inl d \<Rightarrow> ok (g d) | Inr x \<Rightarrow> f x))"
proof (rule spec_bindE [OF assms(1)])
  show "ends_ok P (going P J r) (case r of Inl d \<Rightarrow> ok (g d) | Inr x \<Rightarrow> f x)" for r
  proof (cases r)
    case (Inl d)
    have "ends_ok P (going P J (Inl d)) (ok (g d))" by (rule spec_ok) (simp add: going_def)
    then show ?thesis using Inl by simp
  next
    case (Inr x)
    then have "going P J r = J x" by (simp add: going_def fun_eq_iff)
    then show ?thesis using assms(2) [of x] Inr by simp
  qed
qed

lemma going_mono: "spec I m (going P J) X \<Longrightarrow> (\<And>x s. J x s \<Longrightarrow> K x s) \<Longrightarrow> spec I m (going P K) X"
  by (erule spec_conseq) (auto simp: going_def split: sum.splits)

section \<open>The phases\<close>

lemma holding_ok: "holding P row s \<Longrightarrow> session_ok P s"
  by (simp add: holding_def)

lemma committed_ok: "committed P n s \<Longrightarrow> session_ok P s"
  by (simp add: committed_def)

lemma quiet_ran:
  assumes "state_io_rel (quiet P) m" "session_ok P s" "run_state m s = (r, t)"
  shows "session_ok P t" "sent_txs t = sent_txs s"
  using state_io_relD [OF assms(1,3)] quiet_keeps assms(2) by (auto simp: quiet_def)

lemma holding_reserve:
  assumes "session_ok P s" "args_key a = session_key P" "run_state (reserve P c a) s = (Inr row, t)"
  shows "holding P row t"
proof -
  have "state_io_rel (quiet P) (reserve P c a)"
    by (rule quiet.pn_reserve) (simp add: assms(2) session_key_def)
  note ran = quiet_ran [OF this assms(1,3)]
  show ?thesis
    using assms(3)
  proof (cases rule: reserve_success)
    case (inserted w)
    then show ?thesis using holding_inserted [OF assms(1) ran assms(2)] by simp
  next
    case (revived w r)
    then show ?thesis using holding_revived [OF assms(1) ran assms(2) revived(3,5)] by simp
  qed
qed

lemma holding_gas_reserve:
  assumes "session_ok P s" "args_key a = session_key P" "run_state (reserve_gas_only P c a n) s = (Inr row, t)"
  shows "holding P row t"
proof -
  have "state_io_rel (quiet P) (reserve_gas_only P c a n)"
    by (rule quiet.pn_reserve_gas_only) (simp add: assms(2) session_key_def)
  note ran = quiet_ran [OF this assms(1,3)]
  have key: "args_key (gas_args a) = session_key P" using assms(2) by simp
  show ?thesis
    using assms(3)
  proof (cases rule: gas_success)
    case (inserted w)
    then show ?thesis using holding_inserted [OF assms(1) ran key] by simp
  next
    case (revived w r)
    have "find_row (db s) (r_chain_id (gas_args a)) (r_escrow (gas_args a)) (r_receipt_id (gas_args a)) = Some r"
      using revived(2) by simp
    then show ?thesis using holding_revived [OF assms(1) ran key _ revived(4-6)] unfolding revived(7) by (simp only: args_key_gas)
  qed
qed

text \<open>A simulation that lets the request go on has only read the chain.\<close>

lemma simulated_reads:
  assumes "run_state (simulated P data row c) s = (Inr (Inr u), t)"
  shows "db t = db s \<and> sent_txs t = sent_txs s"
proof -
  let ?m = "simulate P (own_escrow P) data (own_address P)"
  obtain r q where m: "run_state ?m s = (r, q)" by (cases "run_state ?m s")
  have read: "db q = db s" "sent_txs q = sent_txs s"
    by (rule state_io_rel_same [OF rpc_same_db.io_reads(11) m], rule state_io_rel_same [OF same_sent.io_reads(11) m])
  have "\<exists>x. r = Inr x"
  proof (rule ccontr)
    assume "\<not> ?thesis"
    then obtain e where "r = Inl e" by (cases r) auto
    then show False
      using assms m
      by (cases e) (auto simp: simulated_def stop_def split: prod.splits sum.splits)
  qed
  then have "t = q"
    using assms m by (auto simp: simulated_def go_def)
  then show ?thesis using read by simp
qed

lemma holding_frame:
  "holding P row s \<Longrightarrow> db t = db s \<Longrightarrow> sent_txs t = sent_txs s \<Longrightarrow> holding P row t"
  by (simp add: holding_def session_ok_def sent_nonces_def)

lemma spec_simulated: "spec (holding P row) (simulated P data row c) (going P (\<lambda>_. holding P row)) (\<lambda>_. session_ok P)"
  by (rule spec_phase [OF quiet.fr_simulated holding_ok])
    (assumption, rule holding_frame, assumption, simp_all add: simulated_reads)

lemma mark_signed_success:
  assumes "run_state (mark_signed E row h raw) s = (Inr u, t)"
  shows "spend (db t) = update_rows row Signed (no_updates\<lparr>u_tx_hash := Some h\<rparr>) (spend (db s))"
    "nonce_alloc (db t) = nonce_alloc (db s)"
    "\<exists>a \<in> set (attempts (db t)). at_tx_hash a = h \<and> at_account_nonce a = account_nonce row \<and> at_raw_keccak a = raw
       \<and> at_receipt_id a = receipt_id row"
proof -
  let ?m = "set_state E row Signed (no_updates\<lparr>u_tx_hash := Some h\<rparr>)"
  obtain r q where m: "run_state ?m s = (r, q)" by (cases "run_state ?m s")
  obtain x where r: "r = Inr x"
    using assms m by (cases r) (simp_all add: mark_signed_def)
  note rows = run_set_state_spend [OF m [unfolded r]]
  let ?a = "\<lparr>at_tx_hash = h, at_chain_id = chain_id row, at_escrow = escrow row, at_receipt_id = receipt_id row,
    at_account_nonce = account_nonce row, at_raw_keccak = raw, at_max_fee_wei = max_fee_wei row,
    at_sent_at = max (now_at E q) (max_ts (db q)), at_receipt_status = [], at_seq = max_seq (db q) + 1\<rparr>"
  have t: "db t = record_attempt ?a (tick_db (now_at E q) (db q))"
    using assms m r by (auto simp: mark_signed_def split: if_splits)
  show "spend (db t) = update_rows row Signed (no_updates\<lparr>u_tx_hash := Some h\<rparr>) (spend (db s))"
    "nonce_alloc (db t) = nonce_alloc (db s)"
    "\<exists>a \<in> set (attempts (db t)). at_tx_hash a = h \<and> at_account_nonce a = account_nonce row \<and> at_raw_keccak a = raw
       \<and> at_receipt_id a = receipt_id row"
    using rows by (simp_all add: t) (simp add: record_attempt_def)
qed

text \<open>Once the row is recorded as signed, nothing can give its nonce back.\<close>

lemma mark_signed_commits:
  assumes held: "holding P row s" and run: "run_state (mark_signed P row h raw) s = (Inr u, t)"
  shows "committed P (account_nonce row) t"
proof -
  let ?n = "account_nonce row" and ?u = "no_updates\<lparr>u_tx_hash := Some h\<rparr>"
  note ran = quiet_ran [OF quiet.pn_mark_signed holding_ok [OF held] run]
  note rows = mark_signed_success(1,2) [OF run]
  obtain r where r: "r \<in> set (spend (db s))" "keyed (chain_id row) (escrow row) (receipt_id row) r" "account_nonce r = ?n"
    using held unfolding holding_def by blast
  let ?r = "apply_updates Signed ?u r"
  have mine: "?r \<in> set (spend (db t))" "row_state ?r = Signed" "account_nonce ?r = ?n"
    using r by (auto simp: rows update_rows_def apply_updates_def)
  have own: "own_rows (session_key P) (db t)" and index: "nonce_index_ok (spend (db t))"
    using ran(1) by (simp_all add: session_ok_def rows_wf_defs)
  have "account_nonce r' \<noteq> ?n" if r': "r' \<in> set (spend (db t))" "row_state r' = Reserved" for r'
  proof
    assume same: "account_nonce r' = ?n"
    have "(chain_id r', from_addr r') = session_key P" "(chain_id ?r, from_addr ?r) = session_key P"
      using own mine(1) r'(1) unfolding own_rows_def by blast+
    then have "nonce_slot r' = nonce_slot ?r"
      using mine(3) same by (metis nonce_slot_def prod.inject)
    moreover have "r' \<in> set (filter (\<lambda>r. row_state r \<noteq> Dead) (spend (db t)))"
      "?r \<in> set (filter (\<lambda>r. row_state r \<noteq> Dead) (spend (db t)))"
      using mine r' by simp_all
    ultimately have "r' = ?r"
      using index unfolding nonce_index_ok_def by (metis distinct_map_inj)
    then show False using mine r' by simp
  qed
  then show ?thesis
    using ran held rows(2) by (simp add: committed_def holding_def sent_nonces_def next_nonce_def)
qed

lemma sending_keeps:
  assumes "committed P (t_nonce tx) s"
  shows "session_ok P (s\<lparr>sent_txs := sent_txs s @ [tx]\<rparr>)"
  using assms by (auto simp: committed_def session_ok_def sent_nonces_def rows_wf_defs)

lemma ends_send: "ends_ok P (committed P (t_nonce tx)) (send_logged P tx raw)"
  unfolding send_logged_def
  by (rule spec_thenE [OF spec_writeE ends_quiet [OF quiet.io_send_raw]]) (rule sending_keeps)

lemma key_signs_quiet: "state_io_rel (quiet P) (key_signs P tx)"
  unfolding key_signs_def
  by (intro io_intros quiet.io_writeE) (simp add: quiet_def evolves_same)

lemma key_signs_frame:
  assumes "holding P row s" "run_state (key_signs P tx) s = (r, t)"
  shows "holding P row t"
  using assms(2) by (intro holding_frame [OF assms(1)]) (auto simp: key_signs_def split: sum.splits)

lemma spec_signed_raw:
  "spec (holding P row) (signed_raw P tx row c) (going P (\<lambda>_. committed P (account_nonce row))) (\<lambda>_. session_ok P)"
proof (rule spec_phase)
  show "state_io_rel (quiet P) (signed_raw P tx row c)"
    unfolding signed_raw_def Let_def
    by (intro io_intros key_signs_quiet quiet.fr_policy quiet.fr_stop quiet.fr_go)
next
  fix s x t
  assume held: "holding P row s" and run: "run_state (signed_raw P tx row c) s = (Inr (Inr x), t)"
  obtain k q where key: "run_state (key_signs P tx) s = (k, q)" by (cases "run_state (key_signs P tx) s")
  then have "\<exists>raw. k = Inr (Inr raw)"
    using run by (auto simp: signed_raw_def key_signs_def stop_def split: sum.splits prod.splits)
  then obtain raw where "run_state (mark_signed P row (hex0x (keccak P raw)) (hex0x (keccak P raw))) q = (Inr (), t)"
    using run key by (auto simp: signed_raw_def go_def Let_def split: sum.splits prod.splits)
  then show "committed P (account_nonce row) t"
    by (rule mark_signed_commits [OF key_signs_frame [OF held key]])
qed (rule holding_ok)

lemma ends_broadcast:
  assumes "t_nonce tx = n"
  shows "ends_ok P (committed P n) (broadcast P tx raw h row c)"
  unfolding broadcast_def
proof (rule spec_tryE)
  show "ends_ok P (committed P n) (send_logged P tx raw)"
    using ends_send assms by blast
qed (rule ends_quiet, intro io_intros quiet.fr_policy quiet.fr_stop quiet.fr_go, assumption)+

lemma ends_pay_road:
  assumes "spec (session_ok P) m (going P (holding P)) (\<lambda>_. session_ok P)"
  shows "ends_ok P (session_ok P) (pay_road P m data gf c f)"
proof -
  let ?tx = "\<lambda>row. transaction_of P (own_escrow P) data (fst gf) (snd gf) row"
  have sent: "ends_ok P (committed P (account_nonce row))
      (bindE (broadcast P (?tx row) raw h row c) (\<lambda>q. case q of Inl d \<Rightarrow> stop d | Inr u \<Rightarrow> go h))" for row raw h
    by (rule spec_bindE [OF ends_broadcast], simp add: transaction_of_def)
      (rule ends_quiet, intro io_intros quiet.fr_stop quiet.fr_go, assumption)
  have sign: "ends_ok P (holding P row) (sign_and_send P (?tx row) row c)" for row
    unfolding sign_and_send_def stop_def split_def
    by (rule ends_going [OF spec_signed_raw]) (fold stop_def, rule sent)
  have "ends_ok P (holding P row) (andthen (sign_and_send P (?tx row) row c) (\<lambda>h. ok (f h)))" for row
    unfolding andthen_def
    by (rule spec_bindE [OF sign]) (rule ends_quiet, intro io_intros, assumption)
  then have "ends_ok P (holding P row)
      (andthen (simulated P data row c) (\<lambda>_. andthen (sign_and_send P (?tx row) row c) (\<lambda>h. ok (f h))))" for row
    unfolding andthen_def [of "simulated P data row c"]
    by (intro ends_going [OF spec_simulated])
  then show ?thesis
    unfolding pay_road_def andthen_def [of m] by (intro ends_going [OF assms])
qed

section \<open>Every road keeps the session\<close>

lemma spec_debit_reserve:
  "spec (session_ok P) (debit_reserve P (debit_args P addr data g call ch c gas fee) c') (going P (holding P)) (\<lambda>_. session_ok P)"
proof (rule spec_phase [OF quiet.fr_debit_phases(5)])
  let ?a = "debit_args P addr data g call ch c gas fee"
  have key: "args_key ?a = session_key P" by (simp add: args_key_def debit_args_def session_key_def)
  fix s x t
  assume ok: "session_ok P s" and run: "run_state (debit_reserve P ?a c') s = (Inr (Inr x), t)"
  have "run_state (reserve P (spend_caps (conf P)) ?a) s = (Inr x, t)"
    using run by (auto simp: debit_reserve_def go_def reserve_fault_def stop_def split: prod.splits sum.splits exn.splits)
  then show "holding P x t" by (rule holding_reserve [OF ok key])
qed

lemma spec_gas_reserve:
  "spec (session_ok P) (gas_reserve P (expire_args P addr data cid gas fee) c) (going P (holding P)) (\<lambda>_. session_ok P)"
proof (rule spec_phase [OF quiet.fr_expire_phases(4)])
  let ?a = "expire_args P addr data cid gas fee"
  have key: "args_key ?a = session_key P" by (simp add: args_key_def expire_args_def session_key_def)
  fix s x t
  assume ok: "session_ok P s" and run: "run_state (gas_reserve P ?a c) s = (Inr (Inr x), t)"
  have "run_state (reserve_gas_only P (spend_caps (conf P)) ?a (max_gas_only_per_24h (conf P))) s = (Inr x, t)"
    using run by (auto simp: gas_reserve_def go_def reserve_fault_def stop_def split: prod.splits sum.splits exn.splits)
  then show "holding P x t" by (rule holding_gas_reserve [OF ok key])
qed

lemma spec_sweep_reserve:
  "spec (session_ok P) (sweep_reserve P (sweep_args P rid data gas fee) c) (going P (holding P)) (\<lambda>_. session_ok P)"
proof (rule spec_phase [OF quiet.fr_sweep_phases(3)])
  let ?a = "sweep_args P rid data gas fee"
  let ?m = "reserve_gas_only P (spend_caps (conf P)) ?a (max_gas_only_per_24h (conf P))"
  have key: "args_key ?a = session_key P" by (simp add: args_key_def sweep_args_def session_key_def)
  fix s x t
  assume ok: "session_ok P s" and run: "run_state (sweep_reserve P ?a c) s = (Inr (Inr x), t)"
  obtain r q where m: "run_state ?m s = (r, q)" by (cases "run_state ?m s")
  have no: "run_state (sweep_stop P d) q \<noteq> (Inr (Inr x), t)" for d
    by (auto simp: sweep_stop_def split: prod.splits sum.splits)
  have "\<exists>y. r = Inr y"
  proof (rule ccontr)
    assume "\<not> ?thesis"
    then obtain e where "r = Inl e" by (cases r) auto
    then show False using run m no by (cases e) (auto simp: sweep_reserve_def)
  qed
  then have "run_state ?m s = (Inr x, t)" using run m by (auto simp: sweep_reserve_def)
  then show "holding P x t" by (rule holding_gas_reserve [OF ok key])
qed

lemma spec_sweep_sign:
  "spec (holding P row) (sweep_sign P tx row c) (going P (\<lambda>_. committed P (account_nonce row))) (\<lambda>_. session_ok P)"
proof (rule spec_phase)
  show "state_io_rel (quiet P) (sweep_sign P tx row c)"
    unfolding sweep_sign_def Let_def
    by (intro io_intros key_signs_quiet quiet.fr_policy quiet.fr_sweep_stop)
next
  fix s x t
  assume held: "holding P row s" and run: "run_state (sweep_sign P tx row c) s = (Inr (Inr x), t)"
  obtain k q where key: "run_state (key_signs P tx) s = (k, q)" by (cases "run_state (key_signs P tx) s")
  then have "\<exists>raw. k = Inr (Inr raw)"
    using run by (auto simp: sweep_sign_def key_signs_def sweep_stop_def split: sum.splits prod.splits)
  then obtain raw where "run_state (mark_signed P row (hex0x (keccak P raw)) (hex0x (keccak P raw))) q = (Inr (), t)"
    using run key by (auto simp: sweep_sign_def Let_def split: sum.splits prod.splits)
  then show "committed P (account_nonce row) t"
    by (rule mark_signed_commits [OF key_signs_frame [OF held key]])
qed (rule holding_ok)

lemma ends_sweep_road: "ends_ok P (session_ok P) (sweep_road P to rid balance data gf)"
proof -
  let ?tx = "\<lambda>row. (transaction_of P TOKEN data (fst gf) (snd gf) row)\<lparr>t_value := 0\<rparr>"
  let ?fin = "\<lambda>r. audit_sweep P (swept (snd r) to rid balance)"
  have send: "ends_ok P (committed P (account_nonce row)) (sweep_send P (?tx row) raw h row c)" for row raw h c
    unfolding sweep_send_def
  proof (rule spec_tryE)
    show "ends_ok P (committed P (account_nonce row)) (send_logged P (?tx row) raw)"
      using ends_send [of P "?tx row"] by (simp add: transaction_of_def)
  qed (rule ends_quiet, intro io_intros quiet.fr_policy quiet.fr_sweep_stop, assumption)+
  have sent: "ends_ok P (committed P (account_nonce row)) (andsweep (sweep_send P (?tx row) raw h row c) (\<lambda>_. ?fin r))"
    for row raw h c and r :: "bytes \<times> string"
    unfolding andsweep_def
    by (rule spec_bindE [OF send]) (rule ends_quiet, intro io_intros quiet.fr_audit_sweep, assumption)
  have "ends_ok P (holding P row)
      (andsweep (sweep_sign P (?tx row) row c) (\<lambda>r. andsweep (sweep_send P (?tx row) (fst r) (snd r) row c) (\<lambda>_. ?fin r)))"
    for row c
    unfolding andsweep_def [of "sweep_sign P (?tx row) row c"]
    by (rule ends_going [OF spec_sweep_sign sent])
  then show ?thesis
    unfolding sweep_road_def Let_def andsweep_def [of "sweep_reserve P a c" for a c]
    by (intro ends_going [OF spec_sweep_reserve])
qed

lemma session_handle: "state_io_rel (keeps (session_ok P)) (handle P raw)"
  by (rule session.request_road)
    (rule session.debit_road, unfold ends_ok_keeps [symmetric], rule ends_pay_road, rule spec_debit_reserve,
     unfold ends_ok_keeps, rule session.expire_road, unfold ends_ok_keeps [symmetric], rule ends_pay_road,
     rule spec_gas_reserve)

lemma session_sweep: "state_io_rel (keeps (session_ok P)) (sweep_proceeds P)"
  by (rule session.sweeping_road) (unfold ends_ok_keeps [symmetric], rule ends_sweep_road)

end
