(* ===== verification/Durable.thy ===== *)
theory Durable
  imports Locks Policy_Nonce
begin

text \<open>
  What a process that is killed inside a call of the ledger leaves in the database file. Every statement
  outside \<open>BEGIN ... COMMIT\<close> commits at once, so the file may stay between any two of them; a transaction
  that was not committed is rolled back by SQLite when the file is opened again, so it counts as one
  statement. Each call is the tree of its durable statements: that of theory \<open>Locks\<close>, but for the two
  reservations, whose transactions are one \<open>stmt\<close> here. In every state on the way the rows stay sound,
  also where the audit chain does not.
\<close>

section \<open>The durable statements of a call\<close>

definition durable_revive :: "'e ledger_env_scheme \<Rightarrow> reserve_args \<Rightarrow> ('z books_scheme, spend_row) stmts" where
  "durable_revive E a =
     sqlite_unavailable
       (thenC (stmt (revive_tx E True a))
         (bindC (locked_fetch_row a) (\<lambda>row.
           thenC (locked_audit E (transition_audit a ''revived after a released attempt'')) (gives row))))"

definition durable_insert :: "'e ledger_env_scheme \<Rightarrow> caps \<Rightarrow> reserve_args \<Rightarrow> int \<Rightarrow> ('z books_scheme, spend_row) stmts" where
  "durable_insert E c a now =
     thenC (sqlite_unavailable (stmt (insert_tx E (\<lambda>n. insert_ints_ok c a n now) (\<lambda>d. insert_guard d c a now) a)))
       (locked_fetch_row a)"

definition durable_reserve :: "'e ledger_env_scheme \<Rightarrow> caps \<Rightarrow> reserve_args \<Rightarrow> ('z books_scheme, spend_row) stmts" where
  "durable_reserve E c a =
     serialized (if r_amount a \<le> 0 then fail ValueError
       else thenC (locked_assert_clock_sane E) (bindC (stmt (wall E)) (\<lambda>now.
         bindC (locked_first_breach c a now) (\<lambda>breach. case breach of
           Some name \<Rightarrow> fail (CapBreach name)
         | None \<Rightarrow>
             bindC (locked_read (\<lambda>d. get_row d (r_chain_id a) (r_escrow a) (r_receipt_id a))) (\<lambda>existing.
               case existing of
                 None \<Rightarrow> durable_insert E c a now
               | Some r \<Rightarrow> if row_state r \<noteq> Dead then fail LedgerUnavailable else durable_revive E a)))))"

definition durable_gas_only :: "'e ledger_env_scheme \<Rightarrow> caps \<Rightarrow> reserve_args \<Rightarrow> int \<Rightarrow> ('z books_scheme, spend_row) stmts" where
  "durable_gas_only E c args limit =
     (let a = gas_args args in
      serialized (thenC (locked_assert_clock_sane E) (bindC (stmt (wall E)) (\<lambda>now.
        bindC (locked_gas_breach c a limit now) (\<lambda>breach. case breach of
          Some name \<Rightarrow> fail (CapBreach name)
        | None \<Rightarrow>
            bindC (locked_read (\<lambda>d. get_row d (r_chain_id a) (r_escrow a) (r_receipt_id a))) (\<lambda>existing.
              let revive = (case existing of None \<Rightarrow> False | Some r \<Rightarrow> row_state r = Dead) in
              if existing \<noteq> None \<and> \<not> revive then fail LedgerUnavailable
              else thenC (sqlite_unavailable (stmt (gas_attempt E a limit now revive)))
                (bindC (locked_fetch_row a) (\<lambda>row.
                  thenC (locked_audit E (transition_audit a ''gas-only call reserved'')) (gives row)))))))))"

fun durable_code :: "'e ledger_env_scheme \<Rightarrow> ledger_call \<Rightarrow> ('z books_scheme, unit) stmts" where
  "durable_code E AssertClock = locked_assert_clock_sane E"
| "durable_code E (Audit f) = locked_audit E f"
| "durable_code E (Reserve c a) = answering (\<lambda>_. ()) (durable_reserve E c a)"
| "durable_code E (ReserveGasOnly c a n) = answering (\<lambda>_. ()) (durable_gas_only E c a n)"
| "durable_code E (MarkSigned r h raw) = locked_mark_signed E r h raw"
| "durable_code E (MarkBroadcast r h) = locked_mark_broadcast E r h"
| "durable_code E (MarkMined r h fee) = locked_mark_mined E r h fee"
| "durable_code E (MarkDead r reason) = locked_mark_dead E r reason"
| "durable_code E (AttemptStatus h status) = locked_attempt_status h status"
| "durable_code E (SetNextNonce c addr n) = locked_set_next_nonce E c addr n"
| "durable_code E (RecordBoot addr c e text b) = locked_record_boot E addr c e text b"

text \<open>Run to their end, the durable statements are the call.\<close>

lemma carries_durable_revive: "carries (durable_revive E a) (reserve_revive E a)"
  unfolding durable_revive_def reserve_revive_tx by (intro carries_intros carries_parts)

lemma carries_durable_insert: "carries (durable_insert E c a now) (reserve_insert E c a now)"
  unfolding durable_insert_def reserve_insert_tx by (intro carries_intros carries_parts)

lemma durable_reserve_runs: "run_task (durable_reserve E c a) s = run_state (reserve E c a) s"
  by (cases "find_row (db s) (r_chain_id a) (r_escrow a) (r_receipt_id a)")
     (simp_all add: get_row_def durable_reserve_def reserve_def carries_run [OF carries_durable_insert]
      carries_run [OF carries_durable_revive] carries_run [OF carries_assert_clock_sane]
      split: prod.split sum.split option.split)

lemma durable_gas_only_runs: "run_task (durable_gas_only E c a limit) s = run_state (reserve_gas_only E c a limit) s"
  by (cases "find_row (db s) (r_chain_id (gas_args a)) (r_escrow (gas_args a)) (r_receipt_id (gas_args a))")
     (simp_all add: get_row_def durable_gas_only_def reserve_gas_only_def Let_def
      carries_run [OF carries_assert_clock_sane] carries_run [OF carries_unavailable [OF carries_stmt]]
      carries_run [OF carries_fetch_row] carries_run [OF carries_audit]
      del: run_as_unavailable run_audit split: prod.split sum.split option.split)

lemma durable_runs: "run_task (durable_code E w) s = run_state (run_call E w) s"
  by (cases w)
    (simp_all add: durable_reserve_runs durable_gas_only_runs carries_methods [THEN carries_run]
      split: prod.split sum.split)

section \<open>Relations a tree of statements keeps on the way\<close>

lemma visits_code [simp]:
  "visits (stmt m) s = {s, snd (run_state m s)}" "visits (gives x) s = {s}" "visits (fail e) s = {s}"
  "visits (catch t h k) s =
     visits t s \<union> (case run_task t s of (Inl e, s') \<Rightarrow> visits (h e) s' | (Inr x, s') \<Rightarrow> visits (k x) s')"
  "visits (bindC t f) s =
     visits t s \<union> (case run_task t s of (Inl e, s') \<Rightarrow> {s'} | (Inr x, s') \<Rightarrow> visits (f x) s')"
  "visits (thenC t u) s =
     visits t s \<union> (case run_task t s of (Inl e, s') \<Rightarrow> {s'} | (Inr x, s') \<Rightarrow> visits u s')"
  by (simp_all add: stmt_def gives_def fail_def catch_def bindC_def thenC_def visits_seq split: prod.split sum.split)

named_theorems passes_intros \<open>rules that take a tree of statements apart\<close>

lemma passes_locked [passes_intros]: "passes R t \<Longrightarrow> passes R (serialized t)"
  by (rule passes_serialized)

lemma passes_if [passes_intros]:
  "(b \<Longrightarrow> passes R t) \<Longrightarrow> (\<not> b \<Longrightarrow> passes R u) \<Longrightarrow> passes R (if b then t else u)"
  by simp

lemma passes_option [passes_intros]:
  "passes R t \<Longrightarrow> (\<And>x. passes R (f x)) \<Longrightarrow> passes R (case v of None \<Rightarrow> t | Some x \<Rightarrow> f x)"
  by (cases v) simp_all

lemma passes_sum [passes_intros]:
  "(\<And>e. passes R (f e)) \<Longrightarrow> (\<And>x. passes R (g x)) \<Longrightarrow> passes R (case v of Inl e \<Rightarrow> f e | Inr x \<Rightarrow> g x)"
  by (cases v) simp_all

context effect_preorder
begin

lemma passes_stmt: "state_io_rel R m \<Longrightarrow> passes R (stmt m)"
  by (auto simp: passes_def effect_refl state_io_rel_def intro: prod.collapse)

lemma passes_leaf [passes_intros]: "passes R (gives x)" "passes R (fail e)"
  by (simp_all add: gives_def fail_def passes_return)

lemma passes_catch [passes_intros]:
  "passes R t \<Longrightarrow> (\<And>e. passes R (h e)) \<Longrightarrow> (\<And>x. passes R (k x)) \<Longrightarrow> passes R (catch t h k)"
  unfolding catch_def by (rule passes_seq) (auto split: sum.split)

lemma passes_bindC [passes_intros]: "passes R t \<Longrightarrow> (\<And>x. passes R (f x)) \<Longrightarrow> passes R (bindC t f)"
  unfolding bindC_def by (intro passes_catch passes_leaf)

lemma passes_thenC [passes_intros]: "passes R t \<Longrightarrow> passes R u \<Longrightarrow> passes R (thenC t u)"
  unfolding thenC_def by (intro passes_bindC)

lemma passes_answering [passes_intros]: "passes R t \<Longrightarrow> passes R (answering f t)"
  unfolding answering_def by (intro passes_bindC passes_leaf)

end

section \<open>The rows stay sound\<close>

text \<open>The rows of one key, well-formed: what a process starts on and what a session rests on.\<close>

definition file_ok :: "nonce_key \<Rightarrow> ledger_db \<Rightarrow> bool" where
  "file_ok k d \<longleftrightarrow> rows_ok d \<and> own_rows k d"

abbreviation sound_at :: "nonce_key \<Rightarrow> 'z books_scheme \<Rightarrow> 'z books_scheme \<Rightarrow> bool" where
  "sound_at k \<equiv> keeps (\<lambda>s. file_ok k (db s))"

lemma sound_evolves: "state_io_rel (evolves H k {}) m \<Longrightarrow> state_io_rel (sound_at k) m"
  unfolding state_io_rel_def evolves_def keeps_def file_ok_def
  using path_keeps_rows path_own_rows nonces_ok_none unfolding rows_wf_def by blast

lemma sound_upd: "(\<And>d. file_ok k d \<Longrightarrow> file_ok k (f d)) \<Longrightarrow> state_io_rel (sound_at k) (upd_db f)"
  by (auto simp: state_io_rel_def keeps_def)

lemma file_ok_same:
  "file_ok k d \<Longrightarrow> spend d' = spend d \<Longrightarrow> max_seq d' = max_seq d \<Longrightarrow> max_ts d' = max_ts d \<Longrightarrow> file_ok k d'"
  by (simp add: file_ok_def rows_ok_def own_rows_def)

lemma passes_query [passes_intros]: "passes (sound_at k) (query f)"
  unfolding query_def by (intro keeps.passes_stmt) (simp add: state_io_rel_def keeps_def)

lemma sound_halt: "state_io_rel (sound_at k) (halt reason)"
  unfolding halt_def by (rule sound_upd) (erule file_ok_same; simp)

lemma passes_reads [passes_intros]:
  "passes (sound_at k) (stmt get_db)" "passes (sound_at k) (stmt (wall E))" "passes (sound_at k) (locked_read f)"
  "passes (sound_at k) locked_guard" "passes (sound_at k) (locked_halt reason)"
  unfolding locked_read_def locked_guard_def locked_halt_def
  by (intro passes_intros keeps.passes_stmt sound_halt sound_evolves [OF io_get_db] sound_evolves [OF io_wall])+

lemma passes_checks [passes_intros]:
  "passes (sound_at k) (locked_first_breach c a now)" "passes (sound_at k) (locked_gas_breach c a limit now)"
  "passes (sound_at k) (locked_fetch_row a)" "passes (sound_at k) (locked_unsigned_row row)"
  "passes (sound_at k) (locked_assert_clock_sane E)"
  unfolding locked_first_breach_def locked_cap_checks_def locked_gas_breach_def locked_fetch_row_def
    locked_unsigned_row_def locked_assert_clock_sane_def Let_def split_def
  by (intro passes_intros)+

text \<open>
  The one place where a later statement writes what an earlier one read: before it, nothing of the
  file has changed.
\<close>

lemma passes_tick [passes_intros]: "passes (sound_at k) (locked_tick E)"
  unfolding passes_def
proof (intro allI ballI)
  fix s :: "'z books_scheme" and u
  assume u: "u \<in> visits (locked_tick E) s"
  have done_by: "keeps (\<lambda>s. file_ok k (db s)) s (snd (run_task (locked_tick E) s))"
    unfolding carries_run [OF carries_tick]
    by (rule state_io_relD [OF sound_evolves [OF io_tick]]) (rule prod.collapse [symmetric])
  have "db u = db s \<or> u = snd (run_task (locked_tick E) s)"
    using u by (auto simp: locked_tick_def locked_guard_def query_def locked_halt_def halt_def Let_def split: if_splits)
  then show "sound_at k s u \<and> sound_at k u (snd (run_task (locked_tick E) s))"
    using done_by by (auto simp: keeps_def)
qed

lemma passes_audit [passes_intros]: "passes (sound_at k) (locked_audit E f)"
proof -
  have "state_io_rel (sound_at k) (upd_db (audit_insert a))" for a
    by (rule sound_upd) (erule file_ok_same; simp add: audit_insert_def)
  moreover have "state_io_rel (sound_at k) (upd_db (\<lambda>d. d\<lparr>audit_head := h\<rparr>))" for h
    by (rule sound_upd) (erule file_ok_same; simp)
  moreover have "state_io_rel (sound_at k) (write_witness E name h)" for name h
    by (rule sound_evolves [OF io_evolves_same [OF io_witness]])
  ultimately show ?thesis
    unfolding locked_audit_def audit_body_def Let_def split_def
    by (intro passes_intros keeps.passes_stmt)
qed

lemma passes_transaction [passes_intros]:
  assumes "args_key a = k"
  shows "passes (sound_at k) (stmt (revive_tx E hint a))" "passes (sound_at k) (stmt (insert_tx E ints guard a))"
    "passes (sound_at k) (stmt (gas_attempt E a limit now revive))"
proof -
  have revive: "state_io_rel (sound_at k) (revive_tx E h a)" for h
    by (rule sound_evolves [OF io_revive_tx [OF assms, of undefined]])
  have insert: "state_io_rel (sound_at k) (insert_tx E i g a)" for i g
    by (rule sound_evolves [OF io_insert_tx [OF assms]])
  show "passes (sound_at k) (stmt (revive_tx E hint a))" "passes (sound_at k) (stmt (insert_tx E ints guard a))"
    "passes (sound_at k) (stmt (gas_attempt E a limit now revive))"
    unfolding gas_attempt_tx by (intro keeps.passes_stmt keeps.io_if revive insert)+
qed

lemma passes_unavailable [passes_intros]: "passes (sound_at k) t \<Longrightarrow> passes (sound_at k) (sqlite_unavailable t)"
  unfolding sqlite_unavailable_def by (intro passes_intros)

lemma passes_reserve:
  assumes "args_key a = k"
  shows "passes (sound_at k) (durable_reserve E c a)"
  unfolding durable_reserve_def durable_insert_def durable_revive_def
  by (intro passes_intros assms)

lemma passes_gas_only:
  assumes "args_key a = k"
  shows "passes (sound_at k) (durable_gas_only E c a limit)"
proof -
  have key: "args_key (gas_args a) = k" using assms by (simp add: args_key_def)
  show ?thesis unfolding durable_gas_only_def Let_def by (intro passes_intros key)
qed

lemma passes_set_state:
  assumes "st \<noteq> Reserved"
  shows "passes (sound_at k) (locked_set_state E row st u)"
proof -
  have "state_io_rel (evolves undefined k {}) (update_stmt row st u :: ('z books_scheme, unit) py)"
  proof (rule io_relI_at)
    fix s r and s' :: "'z books_scheme"
    assume "run_state (update_stmt row st u) s = (r, s')"
    then have "s' = s \<or> book_step undefined k {} (db s) (db s')"
      using assms by (auto simp: update_stmt_def Let_def intro: book_step.moves split: if_splits)
    then show "evolves undefined k {} s s'" by (auto intro: evolves_same evolves_step)
  qed
  from sound_evolves [OF this] show ?thesis
    unfolding locked_set_state_def by (intro passes_intros keeps.passes_stmt)
qed

lemma passes_marks:
  "passes (sound_at k) (locked_mark_signed E row h raw)" "passes (sound_at k) (locked_mark_broadcast E row h)"
  "passes (sound_at k) (locked_mark_mined E row h fee)" "passes (sound_at k) (locked_mark_dead E row reason)"
  "passes (sound_at k) (locked_attempt_status h status)" "passes (sound_at k) (locked_set_next_nonce E c addr nonce)"
  "passes (sound_at k) (locked_record_boot E addr c e text b)"
proof -
  have rec_stmt: "state_io_rel (sound_at k) (upd_db (record_attempt x))" for x
    by (rule sound_upd) (erule file_ok_same; simp)
  have ret_stmt: "state_io_rel (sound_at k) (upd_db (return_nonce k' n))" for k' n
    by (rule sound_upd) (erule file_ok_same; simp)
  have alloc_stmt: "state_io_rel (sound_at k) (upd_db (\<lambda>d. d\<lparr>nonce_alloc := f d\<rparr>))" for f
    by (rule sound_upd) (erule file_ok_same; simp)
  have boot_stmt: "state_io_rel (sound_at k) (upd_db (\<lambda>d. d\<lparr>boots := f d\<rparr>))" for f
    by (rule sound_upd) (erule file_ok_same; simp)
  note stmts = rec_stmt ret_stmt alloc_stmt boot_stmt sound_evolves [OF io_record_attempt_status]
  have live: "Signed \<noteq> Reserved" "Broadcast \<noteq> Reserved" "Mined \<noteq> Reserved" "Dead \<noteq> Reserved" by simp_all
  show "passes (sound_at k) (locked_mark_signed E row h raw)" "passes (sound_at k) (locked_mark_broadcast E row h)"
    "passes (sound_at k) (locked_mark_mined E row h fee)" "passes (sound_at k) (locked_mark_dead E row reason)"
    "passes (sound_at k) (locked_attempt_status h status)" "passes (sound_at k) (locked_set_next_nonce E c addr nonce)"
    "passes (sound_at k) (locked_record_boot E addr c e text b)"
    unfolding locked_mark_signed_def locked_mark_broadcast_def locked_mark_mined_def locked_mark_dead_def
      locked_attempt_status_def locked_set_next_nonce_def locked_record_boot_def split_def
    by (intro passes_intros passes_set_state live keeps.passes_stmt stmts)+
qed

text \<open>Wherever a call is cut off, the rows in the file are sound.\<close>

theorem durable_sound:
  assumes "call_key w \<in> {None, Some k}"
  shows "passes (sound_at k) (durable_code E w)"
proof (cases w)
  case (Reserve c a)
  then show ?thesis using assms by (simp add: passes_intros passes_reserve)
next
  case (ReserveGasOnly c a n)
  then show ?thesis using assms by (simp add: passes_intros passes_gas_only)
qed (simp_all add: passes_intros passes_marks)

end
