(* ===== verification/Policy_Log.thy ===== *)
theory Policy_Log
  imports Policy_Nonce
begin

text \<open>
  The books know every transaction before the network does: whenever a call handed bytes to the
  endpoints, \<open>tx_attempts\<close> holds, when the call is over, the hash of those bytes and the nonce.
\<close>

section \<open>Written ahead\<close>

definition written :: "'e signer_env_scheme \<Rightarrow> tx_request \<Rightarrow> bytes \<Rightarrow> 'z signer_state_scheme \<Rightarrow> bool" where
  "written P tx raw s \<longleftrightarrow>
     sign_tx P tx = Inr raw
     \<and> (\<exists>a \<in> set (attempts (db s)). at_tx_hash a = hex0x (keccak P raw) \<and> at_account_nonce a = t_nonce tx)"

definition sent_from :: "'e signer_env_scheme \<Rightarrow> tx_request list \<Rightarrow> 'z signer_state_scheme \<Rightarrow> bool" where
  "sent_from P S s \<longleftrightarrow>
     sent_txs s = S \<or> (\<exists>tx raw. sent_txs s = S @ [tx] \<and> written P tx raw s)"

text \<open>Statements that touch neither the list of attempts nor what was sent.\<close>

abbreviation attempts_and_sent :: "'z signer_state_scheme \<Rightarrow> tx_attempt list \<times> tx_request list" where
  "attempts_and_sent s \<equiv> (attempts (db s), sent_txs s)"

lemma same_pair: "same attempts_and_sent s t \<longleftrightarrow> attempts (db t) = attempts (db s) \<and> sent_txs t = sent_txs s"
  by (auto simp: same_def)

lemma log_audit: "state_io_rel (same attempts_and_sent) (audit E f)"
  by (rule io_relI_at)
    (simp add: same_pair run_audit_spend state_io_rel_same [OF same_sent.fr_audit])

lemma log_set_state: "state_io_rel (same attempts_and_sent) (set_state E row st u)"
proof (rule io_relI_at)
  fix s t :: "'z signer_state_scheme" and r
  assume run: "run_state (set_state E row st u) s = (r, t)"
  have "attempts (db t) = attempts (db s)"
    using run by (auto simp: run_set_state Let_def split: if_splits dest: run_audit_spend)
  then show "same attempts_and_sent s t"
    using state_io_rel_same [OF same_sent.fr_set_state run] by (simp add: same_pair)
qed

lemma log_mark_dead: "state_io_rel (same attempts_and_sent) (mark_dead E row reason)"
proof -
  have "state_io_rel (same attempts_and_sent) (upd_db (return_nonce k n))" for k n
    unfolding upd_db_def by (rule same.io_writeE) (simp add: same_def)
  moreover have "state_io_rel (same attempts_and_sent) get_db"
    unfolding get_db_def by (rule same.io_readE)
  ultimately show ?thesis
    unfolding mark_dead_def by (intro io_intros log_set_state)
qed

lemma log_mark_broadcast: "state_io_rel (same attempts_and_sent) (mark_broadcast E row h)"
  unfolding mark_broadcast_def by (rule log_set_state)

lemma log_send_raw: "state_io_rel (same attempts_and_sent) (send_raw E raw)"
  by (rule io_relI_at)
    (simp add: same_pair state_io_rel_same [OF rpc_same_db.io_send_raw] state_io_rel_same [OF same_sent.io_send_raw])

lemma log_sweep_stop: "state_io_rel (same attempts_and_sent) (sweep_stop P d)"
  and log_audit_sweep: "state_io_rel (same attempts_and_sent) (audit_sweep P d)"
  unfolding sweep_stop_def audit_sweep_def by (intro io_intros log_audit)+

section \<open>The end of a road\<close>

text \<open>Nothing sent beyond \<open>S\<close> so far, and the attempt is on the books.\<close>

definition logged :: "'e signer_env_scheme \<Rightarrow> tx_request list \<Rightarrow> tx_request \<Rightarrow> bytes \<Rightarrow> 'z signer_state_scheme \<Rightarrow> bool" where
  "logged P S tx raw s \<longleftrightarrow> sent_txs s = S \<and> written P tx raw s"

abbreviation ends_sent :: "'e signer_env_scheme \<Rightarrow> tx_request list \<Rightarrow> ('z signer_state_scheme \<Rightarrow> bool) \<Rightarrow>
    ('z signer_state_scheme, 'a) py \<Rightarrow> bool" where
  "ends_sent P S I m \<equiv> spec I m (\<lambda>_. sent_from P S) (\<lambda>_. sent_from P S)"

lemma sent_from_frame: "sent_from P S s \<Longrightarrow> same attempts_and_sent s t \<Longrightarrow> sent_from P S t"
  by (auto simp: sent_from_def written_def same_pair)

lemma ends_frame:
  assumes "state_io_rel (same attempts_and_sent) m" "\<And>s. I s \<Longrightarrow> sent_from P S s"
  shows "ends_sent P S I m"
  by (rule specI) (auto intro: sent_from_frame [OF assms(2) state_io_relD [OF assms(1)]])

lemma ends_logged_send: "ends_sent P S (logged P S tx raw) (send_logged P tx raw)"
  unfolding send_logged_def
  by (rule spec_thenE [OF spec_writeE ends_frame [OF log_send_raw]])
    (auto simp: logged_def sent_from_def written_def)

lemma ends_idle: "state_io_rel (same sent_txs) m \<Longrightarrow> ends_sent P S (\<lambda>s. sent_txs s = S) m"
  by (rule specI) (auto simp: sent_from_def dest: state_io_rel_same)

text \<open>A signature that came out is on the books before anything else happens.\<close>

lemma key_signs_returns:
  assumes "run_state (key_signs P tx) s = (r, t)"
  shows "r = Inr (sign_tx P tx)" "db t = db s" "sent_txs t = sent_txs s"
  using assms by (auto simp: key_signs_def split: sum.splits)

lemma mark_signed_written:
  assumes "run_state (mark_signed P row (hex0x (keccak P raw)) q) s = (Inr u, t)" "sign_tx P tx = Inr raw"
    "t_nonce tx = account_nonce row"
  shows "written P tx raw t"
  using mark_signed_success(3) [OF assms(1)] assms(2,3) unfolding written_def by auto

text \<open>The result of a phase that signs: the bytes on the books, or the end of the request.\<close>

definition signed_logged :: "'e signer_env_scheme \<Rightarrow> tx_request list \<Rightarrow> tx_request \<Rightarrow> 'd + bytes \<times> string \<Rightarrow>
    'z signer_state_scheme \<Rightarrow> bool" where
  "signed_logged P S tx r s \<longleftrightarrow> (case r of Inl d \<Rightarrow> sent_from P S s | Inr p \<Rightarrow> logged P S tx (fst p) s)"

lemma spec_signing:
  assumes "state_io_rel (same sent_txs) m" "t_nonce tx = account_nonce row"
    "\<And>s p t. run_state m s = (Inr (Inr p), t) \<Longrightarrow>
       (\<exists>s' u. run_state (mark_signed P row (hex0x (keccak P (fst p))) (snd p)) s' = (Inr u, t))
       \<and> sign_tx P tx = Inr (fst p)"
  shows "spec (\<lambda>s. sent_txs s = S) m (signed_logged P S tx) (\<lambda>_. sent_from P S)"
proof (rule specI)
  fix s r t
  assume S: "sent_txs s = S" and run: "run_state m s = (Inr r, t)"
  have sent: "sent_txs t = S" using state_io_rel_same [OF assms(1) run] S by simp
  show "signed_logged P S tx r t"
  proof (cases r)
    case (Inl d)
    then show ?thesis using sent by (simp add: signed_logged_def sent_from_def)
  next
    case (Inr p)
    then obtain s' u where "run_state (mark_signed P row (hex0x (keccak P (fst p))) (snd p)) s' = (Inr u, t)"
      and raw: "sign_tx P tx = Inr (fst p)"
      using assms(3) run by blast
    from mark_signed_written [OF this assms(2)] show ?thesis
      using Inr sent by (simp add: signed_logged_def logged_def)
  qed
next
  fix s e t
  assume "sent_txs s = S" "run_state m s = (Inl e, t)"
  then show "sent_from P S t" using state_io_rel_same [OF assms(1)] by (simp add: sent_from_def)
qed

lemma ends_signing:
  assumes "spec I m (signed_logged P S tx) (\<lambda>_. sent_from P S)"
    "\<And>p. ends_sent P S (logged P S tx (fst p)) (f p)"
  shows "ends_sent P S I (bindE m (\<lambda>r. case r of Inl d \<Rightarrow> ok (g d) | Inr p \<Rightarrow> f p))"
proof (rule spec_bindE [OF assms(1)])
  fix r
  show "ends_sent P S (signed_logged P S tx r) (case r of Inl d \<Rightarrow> ok (g d) | Inr p \<Rightarrow> f p)"
  proof (cases r)
    case (Inl d)
    have "ends_sent P S (signed_logged P S tx (Inl d :: 'b + bytes \<times> string)) (ok (g d))"
      by (rule spec_ok) (simp add: signed_logged_def)
    then show ?thesis using Inl by simp
  next
    case (Inr p)
    then show ?thesis using assms(2) [of p] by (simp add: signed_logged_def [abs_def])
  qed
qed

lemma spec_signed_raw_logged:
  assumes "t_nonce tx = account_nonce row"
  shows "spec (\<lambda>s. sent_txs s = S) (signed_raw P tx row c) (signed_logged P S tx) (\<lambda>_. sent_from P S)"
proof (rule spec_signing [OF _ assms])
  have sign: "state_io_rel (same sent_txs) (key_signs P tx)"
    by (rule io_relI_at) (simp add: same_def key_signs_returns)
  show "state_io_rel (same sent_txs) (signed_raw P tx row c)"
    unfolding signed_raw_def Let_def
    by (intro io_intros sign same_sent.fr_policy same_sent.fr_stop same_sent.fr_go)
next
  fix s p t
  assume run: "run_state (signed_raw P tx row c) s = (Inr (Inr p), t)"
  obtain k q where key: "run_state (key_signs P tx) s = (k, q)" by (cases "run_state (key_signs P tx) s")
  note k = key_signs_returns(1) [OF key]
  obtain raw where raw: "sign_tx P tx = Inr raw"
    using run key k by (cases "sign_tx P tx") (auto simp: signed_raw_def stop_def split: sum.splits prod.splits)
  let ?h = "hex0x (keccak P raw)"
  have "run_state (mark_signed P row ?h ?h) q = (Inr (), t)" "p = (raw, ?h)"
    using run key k raw by (auto simp: signed_raw_def go_def Let_def split: sum.splits prod.splits)
  then show "(\<exists>s' u. run_state (mark_signed P row (hex0x (keccak P (fst p))) (snd p)) s' = (Inr u, t))
       \<and> sign_tx P tx = Inr (fst p)"
    using raw by auto
qed

lemma spec_sweep_sign_logged:
  assumes "t_nonce tx = account_nonce row"
  shows "spec (\<lambda>s. sent_txs s = S) (sweep_sign P tx row c) (signed_logged P S tx) (\<lambda>_. sent_from P S)"
proof (rule spec_signing [OF _ assms])
  have sign: "state_io_rel (same sent_txs) (key_signs P tx)"
    by (rule io_relI_at) (simp add: same_def key_signs_returns)
  show "state_io_rel (same sent_txs) (sweep_sign P tx row c)"
    unfolding sweep_sign_def Let_def
    by (intro io_intros sign same_sent.fr_policy same_sent.fr_sweep_stop)
next
  fix s p t
  assume run: "run_state (sweep_sign P tx row c) s = (Inr (Inr p), t)"
  obtain k q where key: "run_state (key_signs P tx) s = (k, q)" by (cases "run_state (key_signs P tx) s")
  note k = key_signs_returns(1) [OF key]
  obtain raw where raw: "sign_tx P tx = Inr raw"
    using run key k by (cases "sign_tx P tx") (auto simp: sweep_sign_def sweep_stop_def split: sum.splits prod.splits)
  let ?h = "hex0x (keccak P raw)"
  have "run_state (mark_signed P row ?h ?h) q = (Inr (), t)" "p = (raw, ?h)"
    using run key k raw by (auto simp: sweep_sign_def Let_def split: sum.splits prod.splits)
  then show "(\<exists>s' u. run_state (mark_signed P row (hex0x (keccak P (fst p))) (snd p)) s' = (Inr u, t))
       \<and> sign_tx P tx = Inr (fst p)"
    using raw by auto
qed

section \<open>Every road\<close>

definition logs_sent :: "'e signer_env_scheme \<Rightarrow> 'z signer_state_scheme \<Rightarrow> 'z signer_state_scheme \<Rightarrow> bool" where
  "logs_sent P s t \<longleftrightarrow> sent_from P (sent_txs s) t"

interpretation logging: key_effect "same sent_txs" P "logs_sent P" for P :: "'e signer_env_scheme"
  by unfold_locales (auto simp: same_def logs_sent_def sent_from_def)

lemma logs_sentI: "(\<And>S. ends_sent P S (\<lambda>s. sent_txs s = S) m) \<Longrightarrow> state_io_rel (logs_sent P) m"
proof (rule state_io_relI)
  fix r s t
  assume ends: "\<And>S. ends_sent P S (\<lambda>s. sent_txs s = S) m" and run: "run_state m s = (r, t)"
  show "logs_sent P s t"
    using spec_returns [OF ends refl, of s] spec_raises [OF ends refl, of s] run
    by (cases r) (simp_all add: logs_sent_def)
qed

lemma logs_pay_road:
  assumes "state_io_rel (same sent_txs) m"
  shows "state_io_rel (logs_sent P) (pay_road P m data gf c f)"
proof -
  have send: "ends_sent P S (logged P S tx raw) (broadcast P tx raw h row c)" for S tx raw h row
    unfolding broadcast_def stop_def go_def
    by (rule spec_tryE [OF ends_logged_send])
      (rule ends_frame, intro io_intros log_mark_broadcast log_mark_dead, assumption)+
  have end1: "ends_sent P S (logged P S tx raw)
      (bindE (broadcast P tx raw h row c) (\<lambda>q. case q of Inl d \<Rightarrow> stop d | Inr u \<Rightarrow> go h))" for S tx raw h row
    unfolding stop_def go_def
    by (rule spec_bindE [OF send]) (rule ends_frame, intro io_intros, assumption)
  have sign: "ends_sent P S (\<lambda>s. sent_txs s = S) (sign_and_send P tx row c)"
    if "t_nonce tx = account_nonce row" for S tx row
    unfolding sign_and_send_def split_def stop_def [abs_def]
    by (rule ends_signing [OF spec_signed_raw_logged [OF that] end1 [unfolded stop_def [abs_def]]])
  have "ends_sent P S (\<lambda>s. sent_txs s = S) (andthen (sign_and_send P tx row c) (\<lambda>h. ok (f h)))"
    if "t_nonce tx = account_nonce row" for S tx row
    unfolding andthen_def
    by (rule spec_bindE [OF sign [OF that]]) (rule ends_frame, intro io_intros, assumption)
  then have last: "state_io_rel (logs_sent P) (andthen (sign_and_send P tx row c) (\<lambda>h. ok (f h)))"
    if "t_nonce tx = account_nonce row" for tx row
    using that by (intro logs_sentI)
  show ?thesis
    unfolding pay_road_def
    by (rule logging.ke_andthen [OF assms], rule logging.ke_andthen [OF same_sent.fr_simulated], rule last)
      (simp add: transaction_of_def)
qed

lemma logs_sweep_road: "state_io_rel (logs_sent P) (sweep_road P to rid balance data gf)"
proof -
  let ?fin = "\<lambda>r. audit_sweep P (swept (snd r) to rid balance)"
  have send: "ends_sent P S (logged P S tx raw) (sweep_send P tx raw h row c)" for S tx raw h row c
    unfolding sweep_send_def
    by (rule spec_tryE [OF ends_logged_send])
      (rule ends_frame, intro io_intros log_mark_broadcast log_mark_dead log_sweep_stop, assumption)+
  have end1: "ends_sent P S (logged P S tx (fst r)) (andsweep (sweep_send P tx (fst r) (snd r) row c) (\<lambda>_. ?fin r))"
    for S tx row c and r :: "bytes \<times> string"
    unfolding andsweep_def
    by (rule spec_bindE [OF send]) (rule ends_frame, intro io_intros log_audit_sweep, assumption)
  have last: "state_io_rel (logs_sent P)
      (andsweep (sweep_sign P tx row c) (\<lambda>r. andsweep (sweep_send P tx (fst r) (snd r) row c) (\<lambda>_. ?fin r)))"
    if "t_nonce tx = account_nonce row" for tx row c
    unfolding andsweep_def [of "sweep_sign P tx row c"]
    by (intro logs_sentI ends_signing [OF spec_sweep_sign_logged [OF that] end1])
  show ?thesis
    unfolding sweep_road_def Let_def
    by (rule logging.ke_andsweep [OF same_sent.fr_sweep_phases(3)], rule last) (simp add: transaction_of_def)
qed

lemma logs_handle: "state_io_rel (logs_sent P) (handle P raw)"
  by (rule logging.request_road)
    (rule logging.debit_road, rule logs_pay_road, rule same_sent.fr_debit_phases,
     rule logging.expire_road, rule logs_pay_road, rule same_sent.fr_expire_phases)

lemma logs_sweep_proceeds: "state_io_rel (logs_sent P) (sweep_proceeds P)"
  by (rule logging.sweeping_road) (rule logs_sweep_road)

end
