(* ===== verification/Policy_Answer.thy ===== *)
theory Policy_Answer
  imports Policy_Log
begin

text \<open>
  What an answer of \<open>handle\<close> says: its shape (\<open>decision_ok\<close>), and that ''signed'' and ''replayed''
  tell the truth about the key and the books.
\<close>

section \<open>Everything a program returns\<close>

named_theorems yields_intros

definition yields :: "('a \<Rightarrow> bool) \<Rightarrow> ('s, 'a) py \<Rightarrow> bool" where
  "yields Q m \<longleftrightarrow> (\<forall>x. produces m x \<longrightarrow> Q x)"

lemma producesI: "run_state m s = (Inr x, t) \<Longrightarrow> produces m x"
  unfolding produces_def by blast

lemma yields_ok [yields_intros]: "Q x \<Longrightarrow> yields Q (ok x)"
  and yields_raise [yields_intros]: "yields Q (raise e)"
  by (simp_all add: yields_def)

lemma yields_tryE [yields_intros]: "(\<And>e. yields Q (h e)) \<Longrightarrow> (\<And>x. yields Q (k x)) \<Longrightarrow> yields Q (tryE m h k)"
  unfolding yields_def by (blast dest: produces_tryE)

lemma yields_bindE [yields_intros]: "(\<And>x. yields Q (f x)) \<Longrightarrow> yields Q (bindE m f)"
  unfolding bindE_def by (intro yields_tryE yields_raise)

lemma yields_thenE [yields_intros]: "yields Q n \<Longrightarrow> yields Q (thenE m n)"
  unfolding thenE_def by (intro yields_bindE)

lemma yields_if [yields_intros]:
  "(b \<Longrightarrow> yields Q m) \<Longrightarrow> (\<not> b \<Longrightarrow> yields Q n) \<Longrightarrow> yields Q (if b then m else n)"
  by simp

lemma yields_option [yields_intros]:
  "yields Q m \<Longrightarrow> (\<And>x. yields Q (f x)) \<Longrightarrow> yields Q (case v of None \<Rightarrow> m | Some x \<Rightarrow> f x)"
  by (cases v) simp_all

lemma yields_sum [yields_intros]:
  "(\<And>e. yields Q (f e)) \<Longrightarrow> (\<And>x. yields Q (g x)) \<Longrightarrow> yields Q (case v of Inl e \<Rightarrow> f e | Inr x \<Rightarrow> g x)"
  by (cases v) simp_all

lemma yields_exn [yields_intros]:
  assumes "\<And>n. yields Q (a n)" "yields Q b" "yields Q c" "yields Q d" "yields Q e" "\<And>n. yields Q (f n)"
    "yields Q g" "\<And>n. yields Q (h n)" "yields Q i" "yields Q j" "yields Q k" "yields Q l" "yields Q m"
    "\<And>n. yields Q (p n)"
  shows "yields Q (case x of CapBreach n \<Rightarrow> a n | ClockRegression \<Rightarrow> b | LedgerUnavailable \<Rightarrow> c
      | SqliteError \<Rightarrow> d | RpcUnavailable \<Rightarrow> e | Reverted n \<Rightarrow> f n | ChainUnverified \<Rightarrow> g
      | CalldataError n \<Rightarrow> h n | ConfigError \<Rightarrow> i | ValueError \<Rightarrow> j | OverflowError \<Rightarrow> k
      | AttributeError \<Rightarrow> l | TypeError \<Rightarrow> m | OtherError n \<Rightarrow> p n)"
  using assms by (cases x) simp_all

text \<open>The decision with which a phase ends the request.\<close>

abbreviation stops :: "(decision \<Rightarrow> bool) \<Rightarrow> ('s, 'a) phase \<Rightarrow> bool" where
  "stops Q m \<equiv> yields (\<lambda>r. case r of Inl d \<Rightarrow> Q d | Inr x \<Rightarrow> True) m"

lemma stops_simps [simp]: "stops Q (stop d) = Q d" "stops Q (go x)" "stops Q (raise e)"
  by (simp_all add: yields_def)

lemma yields_andthen: "stops Q m \<Longrightarrow> (\<And>x. yields Q (f x)) \<Longrightarrow> yields Q (andthen m f)"
  unfolding andthen_def yields_def
  by (fastforce elim!: produces_bindE split: sum.splits)

section \<open>The shape of an answer\<close>

definition refusal :: "decision \<Rightarrow> bool" where
  "refusal d \<longleftrightarrow>
     d_decision d = ''refused'' \<and> d_status d \<in> {400, 409, 422, 429, 500, 503} \<and> d_tx_hash d = []
     \<and> (\<exists>rest. d_body d = (''error'', JStr (d_reason_code d)) # rest)"

definition hash_answer :: "string \<Rightarrow> decision \<Rightarrow> bool" where
  "hash_answer verdict d \<longleftrightarrow>
     d_decision d = verdict \<and> d_status d = 200 \<and> d_reason_code d = []
     \<and> d_body d = [(''tx_hash'', JStr (d_tx_hash d)), (''replayed'', JBool (verdict = ''replayed''))]"

definition decision_ok :: "decision \<Rightarrow> bool" where
  "decision_ok d \<longleftrightarrow> refusal d \<or> hash_answer ''signed'' d \<or> hash_answer ''replayed'' d"

lemma refusal_refuse [simp]:
  "refusal (refuse st r c) \<longleftrightarrow> st \<in> {400, 409, 422, 429, 500, 503}"
  "refusal (refuse_retry st r c) \<longleftrightarrow> st \<in> {400, 409, 422, 429, 500, 503}"
  by (auto simp: refusal_def refuse_def refuse_retry_def)

lemma hash_answer_answer [simp]:
  "hash_answer v (answer h b w c) \<longleftrightarrow> w = v \<and> b = (v = ''replayed'')"
  by (auto simp: hash_answer_def answer_def)

lemma refusal_verdict: "refusal d \<Longrightarrow> d_decision d = ''refused''"
  and hash_answer_verdict: "hash_answer v d \<Longrightarrow> d_decision d = v"
  by (simp_all add: refusal_def hash_answer_def)

lemma stops_mono: "stops Q m \<Longrightarrow> (\<And>d. Q d \<Longrightarrow> R d) \<Longrightarrow> stops R m"
  unfolding yields_def by (fastforce split: sum.splits)

lemma stops_chained:
  "stops Q m \<Longrightarrow> (\<And>x. stops Q (f x)) \<Longrightarrow> stops Q (bindE m (\<lambda>r. case r of Inl d \<Rightarrow> stop d | Inr x \<Rightarrow> f x))"
  unfolding yields_def by (fastforce elim!: produces_bindE split: sum.splits)

lemma faults_refuse:
  "stops refusal (chain_fault c e)" "stops refusal (estimate_fault c e)" "stops refusal (reserve_fault c e)"
  unfolding chain_fault_def estimate_fault_def reserve_fault_def by (cases e; simp)+

lemma stops_through: "stops refusal m \<Longrightarrow> stops refusal (tryE m (chain_fault c) ok)"
  using faults_refuse(1) [of c] unfolding yields_def by (blast dest: produces_tryE produces_ok [THEN iffD1])

lemma checks_refuse:
  "stops refusal (debit_shape P data gas_hint digest16)"
  "stops refusal (debit_chain P call c)"
  "stops refusal (debit_signature P call ch c)"
  "stops refusal (expire_chain P cid c)"
  "stops refusal (expire_worth P ch c)"
proof -
  show "stops refusal (debit_shape P data gas_hint digest16)"
    unfolding debit_shape_def by (intro yields_intros) simp_all
  show "stops refusal (debit_chain P call c)"
    unfolding debit_chain_def by (intro stops_through, intro yields_intros) simp_all
  show "stops refusal (debit_signature P call ch c)"
    unfolding debit_signature_def by (intro yields_intros) simp_all
  show "stops refusal (expire_chain P cid c)"
    unfolding expire_chain_def by (intro stops_through, intro yields_intros) simp_all
  show "stops refusal (expire_worth P ch c)"
    unfolding expire_worth_def by (intro yields_intros) simp_all
qed

lemma roads_refuse:
  "stops refusal (gas_and_fee P addr data c)"
  "stops refusal (debit_reserve P a c)"
  "stops refusal (gas_reserve P b c)"
  "stops refusal (simulated P data row c)"
  "stops refusal (sign_and_send P tx row c)"
proof -
  have go: "stops refusal (go x)" for x by simp
  show "stops refusal (gas_and_fee P addr data c)"
    unfolding gas_and_fee_def Let_def split_def by (intro yields_intros faults_refuse) simp_all
  show "stops refusal (debit_reserve P a c)" "stops refusal (gas_reserve P b c)"
    unfolding debit_reserve_def gas_reserve_def by (intro yields_intros faults_refuse go)+
  show "stops refusal (simulated P data row c)"
    unfolding simulated_def by (intro yields_intros) simp_all
  have signed: "stops refusal (signed_raw P tx row c)"
    unfolding signed_raw_def Let_def by (intro yields_intros) simp_all
  have sent: "stops refusal (broadcast P tx raw h row c)" for raw h
    unfolding broadcast_def by (intro yields_intros) simp_all
  show "stops refusal (sign_and_send P tx row c)"
    unfolding sign_and_send_def split_def by (intro stops_chained signed sent) simp
qed

lemma refusal_ok: "refusal d \<Longrightarrow> decision_ok d"
  by (simp add: decision_ok_def)

lemma stops_ok: "stops refusal m \<Longrightarrow> stops decision_ok m"
  by (erule stops_mono) (rule refusal_ok)

lemmas phases_ok = checks_refuse [THEN stops_ok] roads_refuse [THEN stops_ok]

lemma replay_shape: "yields (\<lambda>r. case r of None \<Rightarrow> True | Some d \<Rightarrow> decision_ok d) (replay P row addr calldata c)"
  unfolding replay_def by (intro yields_intros) (simp_all add: decision_ok_def)

lemma replays_shape: "stops decision_ok (debit_replay P addr data c)" "stops decision_ok (expire_replay P cid c)"
proof -
  have "stops decision_ok (case r of Some dec \<Rightarrow> stop dec | None \<Rightarrow> go ())"
    if "case r of None \<Rightarrow> True | Some d \<Rightarrow> decision_ok d" for r
    using that by (cases r) simp_all
  then have inner: "stops decision_ok (bindE (replay P row addr calldata c) (\<lambda>r. case r of Some dec \<Rightarrow> stop dec | None \<Rightarrow> go ()))"
    for row addr calldata c
    using replay_shape unfolding yields_def by (blast elim!: produces_bindE)
  show "stops decision_ok (debit_replay P addr data c)"
    unfolding debit_replay_def by (rule yields_bindE, rule yields_option, simp, rule inner)
  show "stops decision_ok (expire_replay P cid c)"
    unfolding expire_replay_def by (intro yields_intros) (simp_all add: decision_ok_def)
qed

lemma handle_debit_shape: "yields decision_ok (handle_debit P addr data gas_hint digest16)"
  unfolding handle_debit_def Let_def split_def
  by (intro yields_andthen yields_ok replays_shape phases_ok)
    (simp_all add: decision_ok_def)

lemma handle_expire_shape: "yields decision_ok (handle_expire P addr data gas_hint digest16)"
proof (cases "decode_expire (keccak P) data")
  case (Inl e)
  then show ?thesis
    by (cases e) (auto simp: handle_expire_def intro!: yields_intros refusal_ok)
next
  case (Inr cid)
  show ?thesis
    unfolding handle_expire_def Inr sum.case Let_def split_def
    by (intro yields_if yields_andthen yields_ok replays_shape phases_ok)
    (simp_all add: decision_ok_def)
qed

lemma envelope_shape: "parse_envelope P raw = Inl d \<Longrightarrow> refusal d"
  by (auto simp: parse_envelope_def split: option.splits json.splits if_splits sum.splits)

lemma handle_shape: "yields decision_ok (handle P raw)"
proof -
  have "yields decision_ok (dispatch P env)" for env
    unfolding dispatch_def Let_def
    by (intro yields_if yields_ok handle_debit_shape handle_expire_shape) (simp add: refusal_ok)
  then have "yields decision_ok (case parse_envelope P raw of Inl dec \<Rightarrow> ok dec | Inr env \<Rightarrow> dispatch P env)"
    using envelope_shape [of P raw] by (cases "parse_envelope P raw") (auto intro!: yields_ok refusal_ok)
  then show ?thesis
    unfolding handle_def by (intro yields_bindE yields_if yields_ok refusal_ok) simp_all
qed

section \<open>Answers that carry a hash\<close>

text \<open>
  \<open>tells V Q m\<close>: when \<open>m\<close> returns a decision with verdict \<open>V\<close>, then \<open>Q\<close> holds of it, of the state
  before and of the state after.
\<close>

definition tells :: "string \<Rightarrow> (decision \<Rightarrow> 's \<Rightarrow> 's \<Rightarrow> bool) \<Rightarrow> ('s, decision) py \<Rightarrow> bool" where
  "tells V Q m \<longleftrightarrow> (\<forall>s d t. run_state m s = (Inr d, t) \<longrightarrow> d_decision d = V \<longrightarrow> Q d s t)"

definition tells_stop :: "string \<Rightarrow> (decision \<Rightarrow> 's \<Rightarrow> 's \<Rightarrow> bool) \<Rightarrow> ('s, 'a) phase \<Rightarrow> bool" where
  "tells_stop V Q m \<longleftrightarrow> (\<forall>s d t. run_state m s = (Inr (Inl d), t) \<longrightarrow> d_decision d = V \<longrightarrow> Q d s t)"

text \<open>What is said of the key survives phases that leave the key alone.\<close>

definition about_key :: "(decision \<Rightarrow> 'z signer_state_scheme \<Rightarrow> 'z signer_state_scheme \<Rightarrow> bool) \<Rightarrow> bool" where
  "about_key Q \<longleftrightarrow> (\<forall>d s u t. same key_use s u \<longrightarrow> Q d u t \<longrightarrow> Q d s t)"

lemma run_bindE_Inr:
  assumes "run_state (bindE m f) s = (Inr y, t)"
  obtains x u where "run_state m s = (Inr x, u)" "run_state (f x) u = (Inr y, t)"
proof -
  obtain r u where "run_state m s = (r, u)" by fastforce
  then show ?thesis using assms that by (cases r) simp_all
qed

lemma tells_bindE:
  assumes "about_key Q" "state_io_rel (same key_use) m" "\<And>x. tells V Q (f x)"
  shows "tells V Q (bindE m f)"
  unfolding tells_def
proof (intro allI impI)
  fix s d t
  assume run: "run_state (bindE m f) s = (Inr d, t)" and v: "d_decision d = V"
  obtain x u where x: "run_state m s = (Inr x, u)" "run_state (f x) u = (Inr d, t)"
    by (rule run_bindE_Inr [OF run])
  have "Q d u t" using assms(3) x(2) v unfolding tells_def by blast
  then show "Q d s t" using assms(1) state_io_relD [OF assms(2) x(1)] unfolding about_key_def by blast
qed

lemma tells_andthen:
  assumes "about_key Q" "state_io_rel (same key_use) m" "tells_stop V Q m" "\<And>x. tells V Q (f x)"
  shows "tells V Q (andthen m f)"
  unfolding tells_def andthen_def
proof (intro allI impI)
  fix s d t
  assume run: "run_state (bindE m (\<lambda>r. case r of Inl d \<Rightarrow> ok d | Inr x \<Rightarrow> f x)) s = (Inr d, t)" and v: "d_decision d = V"
  obtain r u where r: "run_state m s = (Inr r, u)" "run_state (case r of Inl d \<Rightarrow> ok d | Inr x \<Rightarrow> f x) u = (Inr d, t)"
    by (rule run_bindE_Inr [OF run])
  show "Q d s t"
  proof (cases r)
    case (Inl d')
    then show ?thesis using r v assms(3) unfolding tells_stop_def by simp
  next
    case (Inr x)
    then have "Q d u t" using assms(4) r(2) v unfolding tells_def by simp
    then show ?thesis using assms(1) state_io_relD [OF assms(2) r(1)] unfolding about_key_def by blast
  qed
qed

lemma tells_other: "yields (\<lambda>d. d_decision d \<noteq> V) m \<Longrightarrow> tells V Q m"
  unfolding yields_def produces_def tells_def by blast

lemma tells_stop_other: "stops (\<lambda>d. d_decision d \<noteq> V) m \<Longrightarrow> tells_stop V Q m"
  unfolding yields_def produces_def tells_stop_def by fastforce

lemma tells_stop_refusal: "stops refusal m \<Longrightarrow> V \<noteq> ''refused'' \<Longrightarrow> tells_stop V Q m"
  by (rule tells_stop_other, erule stops_mono) (simp add: refusal_def)

lemma tells_refusal: "refusal d \<Longrightarrow> V \<noteq> ''refused'' \<Longrightarrow> tells V Q (ok d)"
  by (simp add: tells_def refusal_def)

section \<open>''signed''\<close>

text \<open>One transaction was signed and handed to the endpoints; the answer is its hash, which the books hold.\<close>

definition signed_answer :: "'e signer_env_scheme \<Rightarrow> decision \<Rightarrow> 'z signer_state_scheme \<Rightarrow> 'z signer_state_scheme \<Rightarrow> bool" where
  "signed_answer P d s t \<longleftrightarrow>
     (\<exists>tx raw. signed_txs t = signed_txs s @ [tx] \<and> sent_txs t = sent_txs s @ [tx]
        \<and> d_tx_hash d = hex0x (keccak P raw) \<and> written P tx raw t)"

lemma about_key_signed: "about_key (signed_answer P)"
  by (auto simp: about_key_def signed_answer_def same_def)

lemma signed_raw_done:
  assumes run: "run_state (signed_raw P tx row c) s = (Inr (Inr p), t)" and nonce: "t_nonce tx = account_nonce row"
  shows "signed_txs t = signed_txs s @ [tx]" "sent_txs t = sent_txs s" "written P tx (fst p) t"
    "snd p = hex0x (keccak P (fst p))"
proof -
  show "signed_txs t = signed_txs s @ [tx]" "sent_txs t = sent_txs s"
    using spec_returns [OF spec_signed_raw_once [where G = "\<lambda>_. True", OF TrueI] refl run]
    by (simp_all add: signed_once_def)
  show "written P tx (fst p) t"
    using spec_returns [OF spec_signed_raw_logged [OF nonce] refl run] by (simp add: signed_logged_def logged_def)
  show "snd p = hex0x (keccak P (fst p))"
    using run by (auto simp: signed_raw_def stop_def go_def Let_def split: sum.splits prod.splits)
qed

lemma broadcast_done:
  assumes run: "run_state (broadcast P tx raw h row c) s = (Inr (Inr u), t)"
  shows "signed_txs t = signed_txs s" "sent_txs t = sent_txs s @ [tx]" "attempts (db t) = attempts (db s)"
proof -
  obtain r w where send: "run_state (send_logged P tx raw) s = (r, w)" by fastforce
  have ok: "\<exists>x. r = Inr x \<and> run_state (thenE (mark_broadcast P row h) (go ())) w = (Inr (Inr u), t)"
    using run send
    by (cases r) (auto simp: broadcast_def stop_def split: exn.splits prod.splits sum.splits)
  then obtain x where mark: "run_state (thenE (mark_broadcast P row h) (go ())) w = (Inr (Inr u), t)" by blast
  have raw: "run_state (send_raw P raw) (s\<lparr>sent_txs := sent_txs s @ [tx]\<rparr>) = (r, w)"
    using send by (simp add: send_logged_def)
  have sent: "sent_txs w = sent_txs s @ [tx]" "signed_txs w = signed_txs s" "attempts (db w) = attempts (db s)"
    using state_io_rel_same [OF same_use.io_send_raw raw] state_io_rel_same [OF log_send_raw raw] by simp_all
  have "state_io_rel (same key_use) (thenE (mark_broadcast P row h) (go ()))"
    by (intro io_intros same_use.fr_policy same_use.fr_go)
  moreover have "state_io_rel (same attempts_and_sent) (thenE (mark_broadcast P row h) (go ()))"
    unfolding go_def by (intro io_intros log_mark_broadcast)
  ultimately show "signed_txs t = signed_txs s" "sent_txs t = sent_txs s @ [tx]" "attempts (db t) = attempts (db s)"
    using state_io_rel_same [OF _ mark] sent by fastforce+
qed

lemma sign_and_send_done:
  assumes run: "run_state (sign_and_send P tx row c) s = (Inr (Inr h), t)" and nonce: "t_nonce tx = account_nonce row"
  shows "\<exists>raw. signed_txs t = signed_txs s @ [tx] \<and> sent_txs t = sent_txs s @ [tx] \<and> h = hex0x (keccak P raw)
    \<and> written P tx raw t"
proof -
  obtain r u where r: "run_state (signed_raw P tx row c) s = (Inr r, u)"
    and rest: "run_state (case r of Inl d \<Rightarrow> stop d | Inr (raw, h) \<Rightarrow>
       bindE (broadcast P tx raw h row c) (\<lambda>q. case q of Inl d \<Rightarrow> stop d | Inr u \<Rightarrow> go h)) u = (Inr (Inr h), t)"
    by (rule run_bindE_Inr [OF run [unfolded sign_and_send_def]])
  obtain raw k where p: "r = Inr (raw, k)" using rest by (cases r) (auto simp: stop_def)
  note signed = signed_raw_done [OF r [unfolded p] nonce]
  have "run_state (bindE (broadcast P tx raw k row c) (\<lambda>q. case q of Inl d \<Rightarrow> stop d | Inr u \<Rightarrow> go k)) u = (Inr (Inr h), t)"
    using rest p by simp
  then obtain q v where q: "run_state (broadcast P tx raw k row c) u = (Inr q, v)"
    and last: "run_state (case q of Inl d \<Rightarrow> stop d | Inr u \<Rightarrow> go k) v = (Inr (Inr h), t)"
    by (rule run_bindE_Inr)
  obtain x where "q = Inr x" "v = t" "h = k" using last by (cases q) (auto simp: stop_def go_def)
  then show ?thesis
    using broadcast_done [of P tx raw k row c u x v] q signed by (auto simp: written_def)
qed

lemma tells_pay_road:
  assumes "state_io_rel (same key_use) m" "stops refusal m" "\<And>h. d_tx_hash (f h) = h"
  shows "tells ''signed'' (signed_answer P) (pay_road P m data gf c f)"
proof -
  let ?tx = "\<lambda>row. transaction_of P (own_escrow P) data (fst gf) (snd gf) row"
  have last: "tells ''signed'' (signed_answer P) (andthen (sign_and_send P (?tx row) row c) (\<lambda>h. ok (f h)))" for row
    unfolding tells_def andthen_def
  proof (intro allI impI)
    fix s d t
    assume run: "run_state (bindE (sign_and_send P (?tx row) row c) (\<lambda>r. case r of Inl d \<Rightarrow> ok d | Inr h \<Rightarrow> ok (f h))) s = (Inr d, t)"
      and v: "d_decision d = ''signed''"
    obtain r u where r: "run_state (sign_and_send P (?tx row) row c) s = (Inr r, u)"
      and last: "run_state (case r of Inl d \<Rightarrow> ok d | Inr h \<Rightarrow> ok (f h)) u = (Inr d, t)"
      by (rule run_bindE_Inr [OF run])
    show "signed_answer P d s t"
    proof (cases r)
      case (Inl d')
      have "refusal d'"
        using producesI [OF r [unfolded Inl]] roads_refuse(5) [of P "?tx row" row c] unfolding yields_def by fastforce
      then show ?thesis using last Inl v by (auto simp: refusal_def)
    next
      case (Inr h)
      then show ?thesis
        using sign_and_send_done [OF r [unfolded Inr]] last assms(3)
        by (auto simp: signed_answer_def transaction_of_def)
    qed
  qed
  show ?thesis
    unfolding pay_road_def
    by (intro tells_andthen about_key_signed assms(1) tells_stop_refusal assms(2) same_use.fr_simulated
        roads_refuse(4) last) simp_all
qed

section \<open>''replayed''\<close>

text \<open>Nothing was signed or sent; the hash is the one the row of this receipt holds.\<close>

definition replay_answer :: "'e signer_env_scheme \<Rightarrow> decision \<Rightarrow> 'z signer_state_scheme \<Rightarrow> 'z signer_state_scheme \<Rightarrow> bool" where
  "replay_answer P d s t \<longleftrightarrow>
     signed_txs t = signed_txs s \<and> sent_txs t = sent_txs s
     \<and> (\<exists>row. get_row (db t) CHAIN_ID (own_escrow P) (d_receipt_id d) = Some row
          \<and> tx_hash row = d_tx_hash d \<and> row_state row \<in> {Signed, Broadcast, Mined})"

lemma about_key_replay: "about_key (replay_answer P)"
  by (auto simp: about_key_def replay_answer_def same_def)

lemma get_row_keys:
  "get_row d c e i = Some row \<Longrightarrow> chain_id row = c \<and> escrow row = e \<and> receipt_id row = i"
  by (auto simp: get_row_def dest: find_row_Some)

lemma replay_told:
  assumes run: "run_state (replay P row addr calldata c) s = (Inr (Some d), t)" and v: "d_decision d = ''replayed''"
    and row: "get_row (db s) CHAIN_ID (own_escrow P) (c_receipt_id c) = Some row"
  shows "replay_answer P d s t"
proof -
  have use: "key_use t = key_use s" using state_io_rel_same [OF same_use.fr_replay run] .
  note keys = get_row_keys [OF row]
  have verdicts: "d_decision (refuse st r c) = ''refused''" "d_decision (answer h b w c) = w"
    "d_receipt_id (answer h b w c) = c_receipt_id c" "d_tx_hash (answer h b w c) = h" for st r h b w
    by (simp_all add: refuse_def answer_def)
  show ?thesis
  proof (cases "row_state row \<in> {Broadcast, Mined} \<and> tx_hash row \<noteq> []")
    case True
    then show ?thesis using run v row use
      by (auto simp: replay_def replay_answer_def verdicts split: if_splits)
  next
    case False
    obtain r u where rec: "run_state (reconcile P) s = (r, u)" by fastforce
    have "t = u"
      using run v False rec
      by (cases r) (auto simp: replay_def verdicts get_db_def split: if_splits exn.splits option.splits)
    moreover have "\<exists>fresh. get_row (db u) (chain_id row) (escrow row) (receipt_id row) = Some fresh
        \<and> row_state fresh = Mined \<and> d = answer (tx_hash fresh) True ''replayed'' c"
      using run v False rec
      by (cases r) (auto simp: replay_def verdicts get_db_def split: if_splits exn.splits option.splits)
    ultimately show ?thesis using keys use by (auto simp: replay_answer_def verdicts)
  qed
qed

lemma tells_debit_replay:
  "tells_stop ''replayed'' (replay_answer P :: decision \<Rightarrow> 'z signer_state_scheme \<Rightarrow> _) (debit_replay P addr data c)"
  unfolding tells_stop_def
proof (intro allI impI)
  fix s t :: "'z signer_state_scheme" and d
  assume run: "run_state (debit_replay P addr data c) s = (Inr (Inl d), t)" and v: "d_decision d = ''replayed''"
  obtain row where row: "get_row (db s) CHAIN_ID (own_escrow P) (c_receipt_id c) = Some row"
    using run by (cases "get_row (db s) CHAIN_ID (own_escrow P) (c_receipt_id c)")
      (auto simp: debit_replay_def get_db_def go_def)
  have inner: "run_state (bindE (replay P row addr (hex0x (keccak P data)) c)
      (\<lambda>r. case r of Some dec \<Rightarrow> stop dec | None \<Rightarrow> go ())) s = (Inr (Inl d), t)"
    using run row by (simp add: debit_replay_def get_db_def)
  obtain r u where r: "run_state (replay P row addr (hex0x (keccak P data)) c) s = (Inr r, u)"
    and last: "run_state (case r of Some dec \<Rightarrow> stop dec | None \<Rightarrow> go ()) u = (Inr (Inl d), t)"
    by (rule run_bindE_Inr [OF inner])
  have "r = Some d" "u = t" using last by (cases r; auto simp: stop_def go_def)+
  then show "replay_answer P d s t" using replay_told [OF _ v row] r by simp
qed

lemma tells_expire_replay: "tells_stop ''replayed'' (replay_answer P) (expire_replay P cid c)"
  by (auto simp: tells_stop_def expire_replay_def get_db_def stop_def go_def replay_answer_def answer_def
      split: option.splits if_splits)

lemma tells_replay_road:
  assumes "state_io_rel (same key_use) m" "stops refusal m" "\<And>h. d_decision (f h) = ''signed''"
  shows "tells ''replayed'' Q (pay_road P m data gf c f)"
proof (rule tells_other)
  have road: "stops (\<lambda>d. d_decision d \<noteq> ''replayed'') (simulated P data row c)"
    "stops (\<lambda>d. d_decision d \<noteq> ''replayed'') (sign_and_send P tx row c)" for row tx
    by (rule stops_mono [OF roads_refuse(4)] stops_mono [OF roads_refuse(5)], simp add: refusal_def)+
  show "yields (\<lambda>d. d_decision d \<noteq> ''replayed'') (pay_road P m data gf c f)"
    unfolding pay_road_def
    by (intro yields_andthen road yields_ok, rule stops_mono [OF assms(2)]) (simp_all add: refusal_def assms(3))
qed

section \<open>Over the whole request\<close>

text \<open>The lookups of an earlier request never answer ''signed''.\<close>

lemma replays_tell:
  "stops (\<lambda>d. d_decision d \<in> {''refused'', ''replayed''}) (debit_replay P addr data c)"
  "stops (\<lambda>d. d_decision d \<in> {''refused'', ''replayed''}) (expire_replay P cid c)"
proof -
  let ?Q = "\<lambda>d. d_decision d \<in> {''refused'', ''replayed''}"
  have "yields (\<lambda>r. case r of None \<Rightarrow> True | Some d \<Rightarrow> ?Q d) (replay P row addr calldata c)" for row addr calldata c
    unfolding replay_def by (intro yields_intros) (simp_all add: refuse_def answer_def)
  moreover have "stops ?Q (case r of Some dec \<Rightarrow> stop dec | None \<Rightarrow> go ())"
    if "case r of None \<Rightarrow> True | Some d \<Rightarrow> ?Q d" for r
    using that by (cases r) simp_all
  ultimately have inner: "stops ?Q (bindE (replay P row addr calldata c) (\<lambda>r. case r of Some dec \<Rightarrow> stop dec | None \<Rightarrow> go ()))"
    for row addr calldata c
    unfolding yields_def by (blast elim!: produces_bindE)
  show "stops ?Q (debit_replay P addr data c)"
    unfolding debit_replay_def by (rule yields_bindE, rule yields_option, simp, rule inner)
  show "stops ?Q (expire_replay P cid c)"
    unfolding expire_replay_def by (intro yields_intros) (simp_all add: answer_def)
qed

lemma tells_handle:
  assumes Q: "about_key Q" and V: "V \<noteq> ''refused''"
    and "\<And>addr data c. tells_stop V Q (debit_replay P addr data c)"
    and "\<And>cid c. tells_stop V Q (expire_replay P cid c)"
    and road: "\<And>m data gf c f. state_io_rel (same key_use) m \<Longrightarrow> stops refusal m \<Longrightarrow> (\<And>h. d_tx_hash (f h) = h) \<Longrightarrow>
       (\<And>h. d_decision (f h) = ''signed'') \<Longrightarrow> tells V Q (pay_road P m data gf c f)"
  shows "tells V Q (handle P raw)"
proof -
  have debit: "tells V Q (handle_debit P addr data g h)" for addr data g h
    unfolding handle_debit_def Let_def split_def pay_road_def [symmetric]
    by (intro tells_andthen Q same_use.fr_debit_phases same_use.fr_gas_and_fee assms(3)
        tells_stop_refusal checks_refuse roads_refuse V road) (simp_all add: answer_def)
  have expire: "tells V Q (handle_expire P addr data g h)" for addr data g h
  proof (cases "decode_expire (keccak P) data")
    case (Inl e)
    then show ?thesis using V
      by (cases e) (auto simp: handle_expire_def tells_def refuse_def)
  next
    case (Inr cid)
    have over: "tells V Q (ok (refuse 422 r k))" for r k
      by (rule tells_refusal) (simp_all add: V)
    have rest: "tells V Q (if b then m else n)" if "tells V Q m" "tells V Q n" for b m n
      using that by simp
    show ?thesis
      unfolding handle_expire_def Inr sum.case Let_def split_def pay_road_def [symmetric]
      by (intro rest over tells_andthen Q same_use.fr_expire_phases same_use.fr_gas_and_fee assms(4)
        tells_stop_refusal checks_refuse roads_refuse V road) (simp_all add: answer_def)
  qed
  have dispatched: "tells V Q (dispatch P env)" for env
    using debit expire V by (auto simp: dispatch_def Let_def tells_def refuse_def)
  have parsed: "tells V Q (case parse_envelope P raw of Inl dec \<Rightarrow> ok dec | Inr env \<Rightarrow> dispatch P env)"
    using dispatched envelope_shape [of P raw] by (cases "parse_envelope P raw") (simp_all add: tells_refusal V)
  have refused: "tells V Q (ok (refuse 503 r k))" for r k
    by (rule tells_refusal) (simp_all add: V)
  have choice: "tells V Q (if b then m else n)" if "tells V Q m" "tells V Q n" for b m n
    using that by simp
  show ?thesis
    unfolding handle_def
    by (intro tells_bindE Q choice refused parsed same_use.fr_policy same.io_readE)
qed

lemma handle_signed: "tells ''signed'' (signed_answer P) (handle P raw)"
proof (rule tells_handle [OF about_key_signed])
  show "tells_stop ''signed'' (signed_answer P) (debit_replay P addr data c)" for addr data c
    by (rule tells_stop_other, rule stops_mono [OF replays_tell(1)]) auto
  show "tells_stop ''signed'' (signed_answer P) (expire_replay P cid c)" for cid c
    by (rule tells_stop_other, rule stops_mono [OF replays_tell(2)]) auto
qed (simp_all add: tells_pay_road)

lemma handle_replayed: "tells ''replayed'' (replay_answer P) (handle P raw)"
  by (rule tells_handle [OF about_key_replay])
    (simp_all add: tells_debit_replay tells_expire_replay tells_replay_road)

end
