(* ===== verification/Server.thy ===== *)
theory Server
  imports Policy_Boot
begin

text \<open>
  \<open>escrow_signer/server.py\<close>: the routes of \<open>Handler\<close>. A request is its path, the headers the
  handler asks for and the body bytes that arrive before the deadline; a response is a status and the
  members of its JSON body. Sockets are outside the model, connections and the read
  deadline in theory \<open>Connections\<close>; \<open>signing_lock\<close> makes \<open>handle\<close> and the audit record after it one step.
\<close>

record http_request =
  rq_path :: string
  rq_authorization :: "string option"
  rq_content_length :: "string option"
  rq_transfer_encoding :: "string option"
  rq_body :: bytes

type_synonym response = "int \<times> (string \<times> json) list"

definition error_body :: "string \<Rightarrow> (string \<times> json) list" where
  "error_body e = [(''error'', JStr e)]"

section \<open>R1: the bearer token\<close>

text \<open>
  \<open>hmac.compare_digest\<close> of two strings raises \<open>TypeError\<close> unless both are ASCII.
\<close>

definition is_ascii :: "string \<Rightarrow> bool" where
  "is_ascii s \<longleftrightarrow> list_all (\<lambda>c. code c < 128) s"

definition authorized :: "'e signer_env_scheme \<Rightarrow> string \<Rightarrow> exn + bool" where
  "authorized P header =
     (if \<not> starts_with ''Bearer '' header then Inr False
      else
        let given_token = py_strip (drop (length ''Bearer '') header) in
        if is_ascii given_token \<and> is_ascii (bearer_token (conf P))
        then Inr (given_token = bearer_token (conf P)) else Inl TypeError)"

section \<open>The audit record of a decision\<close>

definition some_str :: "string \<Rightarrow> string option" where
  "some_str s = (if s = [] then None else Some s)"

definition request_audit :: "'e signer_env_scheme \<Rightarrow> decision \<Rightarrow> audit_fields" where
  "request_audit P d =
     \<lparr>f_kind = ''request'', f_decision = d_decision d, f_http_status = d_status d,
      f_reason_code = d_reason_code d, f_chain_id = Some CHAIN_ID, f_escrow = Some (own_escrow P),
      f_receipt_id = some_str (d_receipt_id d), f_channel_id = some_str (d_channel_id d),
      f_amount_units = (if d_amount_units d = 0 then None else Some (d_amount_units d)),
      f_digest16 = d_digest16 d, f_tx_hash = d_tx_hash d\<rparr>"

definition decide :: "'e signer_env_scheme \<Rightarrow> decision \<Rightarrow> ('z books_scheme, response) py" where
  "decide P d =
     tryE (audit P (request_audit P d))
       (\<lambda>_. ok (if d_status d < 400 then (503, error_body ''ledger_unavailable'') else (d_status d, d_body d)))
       (\<lambda>_. ok (d_status d, d_body d))"

section \<open>POST\<close>

definition plain_refusal :: "int \<Rightarrow> string \<Rightarrow> decision" where
  "plain_refusal status reason = refuse status reason no_common"

text \<open>\<open>int(headers.get("Content-Length", "0") or 0)\<close>.\<close>

definition declared_length :: "http_request \<Rightarrow> int option" where
  "declared_length rq =
     (case rq_content_length rq of None \<Rightarrow> Some 0 | Some s \<Rightarrow> if s = [] then Some 0 else py_int s)"

definition handled :: "'e signer_env_scheme \<Rightarrow> bytes \<Rightarrow> ('z signer_state_scheme, decision) py" where
  "handled P raw = tryE (handle P raw) (\<lambda>_. ok (plain_refusal 500 ''internal_error'')) ok"

definition do_POST :: "'e signer_env_scheme \<Rightarrow> http_request \<Rightarrow> ('z signer_state_scheme, response) py" where
  "do_POST P rq =
     (if rq_path rq \<noteq> sign_path (conf P) then ok (404, error_body ''not_found'')
      else bindE (liftE (authorized P (given (rq_authorization rq) []))) (\<lambda>auth.
        if \<not> auth then decide P (plain_refusal 401 ''unauthorized'')
        else (case declared_length rq of
          None \<Rightarrow> ok (400, error_body ''malformed_length'')
        | Some declared \<Rightarrow>
            if declared < 0 \<or> given (rq_transfer_encoding rq) [] \<noteq> []
              then ok (400, error_body ''malformed_length'')
            else if MAX_BODY_BYTES < declared then decide P (plain_refusal 413 ''body_too_large'')
            else
              let raw = take (nat (min declared (MAX_BODY_BYTES + 1))) (rq_body rq) in
              if int (length raw) \<noteq> declared then ok (400, error_body ''incomplete_body'')
              else if MAX_BODY_BYTES < int (length raw) then decide P (plain_refusal 413 ''body_too_large'')
              else bindE (handled P raw) (decide P))))"

section \<open>GET\<close>

definition scalar_json :: "scalar \<Rightarrow> json" where
  "scalar_json v = (case v of SNull \<Rightarrow> JNull | SInt i \<Rightarrow> JInt i | SStr s \<Rightarrow> JStr s)"

definition health_body :: "'e signer_env_scheme \<Rightarrow> 'z signer_state_scheme \<Rightarrow> (string \<times> json) list" where
  "health_body P s =
     [(''ok'', JBool (ready s)), (''service'', JStr ''escrow-policy-signer''), (''address'', JStr (own_address P)),
      (''chain_id'', JInt CHAIN_ID), (''escrow'', JStr (own_escrow P)), (''ready'', JBool (ready s)),
      (''not_ready_reason'', JStr (not_ready_reason s)), (''halted'', JStr (halted (db s)))]"

definition stats_json :: "ledger_stats \<Rightarrow> json" where
  "stats_json t =
     JObj [(''rows'', JInt (st_rows t)), (''live'', JInt (st_live t)), (''audit_rows'', JInt (st_audit_rows t)),
           (''audit_head'', JStr (st_audit_head t)), (''halted'', JStr (st_halted t)),
           (''max_ts'', JInt (st_max_ts t)), (''now'', JInt (st_now t))]"

definition status_body :: "'e signer_env_scheme \<Rightarrow> bool \<Rightarrow> ledger_stats \<Rightarrow> (string \<times> json) list" where
  "status_body P rdy t =
     [(''address'', JStr (own_address P)), (''ready'', JBool rdy),
      (''caps'', JObj (map (\<lambda>(k, v). (k, scalar_json v)) (caps_as_json (spend_caps (conf P))))),
      (''unlimited_windows'', JList (map JStr (unlimited_windows (spend_caps (conf P))))),
      (''ledger'', stats_json t)]"

definition receipt_body :: "spend_row \<Rightarrow> (string \<times> json) list" where
  "receipt_body r =
     [(''receipt_id'', JStr (receipt_id r)), (''channel_id'', JStr (channel_id r)),
      (''amount_units'', JInt (amount_units r)), (''state'', JStr (state_str (row_state r))),
      (''tx_hash'', JStr (tx_hash r)), (''account_nonce'', JInt (account_nonce r))]"

text \<open>\<open>path.strip("/")\<close>.\<close>

definition strip_slashes :: "string \<Rightarrow> string" where
  "strip_slashes s = rev (dropWhile (\<lambda>c. c = CHR ''/'') (rev (dropWhile (\<lambda>c. c = CHR ''/'') s)))"

definition do_GET :: "'e signer_env_scheme \<Rightarrow> string \<Rightarrow> ('z signer_state_scheme, response) py" where
  "do_GET P path =
     (if path = ''/health'' then readE (\<lambda>s. (200, health_body P s))
      else if path = ''/status''
        then bindE (stats P) (\<lambda>t. readE (\<lambda>s. (200, status_body P (ready s) t)))
      else if starts_with ''/receipt/'' path
        then (case py_split (CHR ''/'') (strip_slashes path) of
                [p, rid] \<Rightarrow>
                  bindE get_db (\<lambda>d.
                    case get_row d CHAIN_ID (own_escrow P) (py_lower rid) of
                      None \<Rightarrow> ok (404, error_body ''unknown_receipt'')
                    | Some row \<Rightarrow> ok (200, receipt_body row))
              | _ \<Rightarrow> ok (400, error_body ''usage: /receipt/<receipt_id>''))
      else ok (404, error_body ''not_found''))"

end
