(* ===== verification/Session.thy ===== *)
theory Session
  imports Policy_Answer Server
begin

text \<open>
  A session of the process: \<open>main\<close> opens the books, boots once, and then serves requests and sweep
  turns one at a time under the signing lock, in any order.
\<close>

section \<open>Events\<close>

datatype session_event =
    Posted http_request
  | Fetched string
  | Swept

fun run_event :: "'e signer_env_scheme \<Rightarrow> session_event \<Rightarrow> ('z signer_state_scheme, unit) py" where
  "run_event P (Posted rq) = thenE (do_POST P rq) (ok ())"
| "run_event P (Fetched path) = thenE (do_GET P path) (ok ())"
| "run_event P Swept = sweep_cycle P"

text \<open>
  The file a process starts on: the rows are well-formed and none belongs to another key. A new file
  is so, and so is any file the ledger's own methods wrote for this key, even one a killed process
  left; the hash chains are the boot's to check and play no part here.
\<close>

definition sound_file :: "'e signer_env_scheme \<Rightarrow> ledger_db \<Rightarrow> bool" where
  "sound_file P d \<longleftrightarrow> rows_wf (session_key P) {} d \<and> own_rows (session_key P) d"

inductive served :: "'e signer_env_scheme \<Rightarrow> signer_state \<Rightarrow> bool" for P where
  booted: "sound_file P (db b) \<Longrightarrow> run_state (boot P) (new_signer b) = (Inr (), s) \<Longrightarrow> served P s"
| event: "served P s \<Longrightarrow> run_state (run_event P e) s = (r, s') \<Longrightarrow> served P s'"

inductive_cases servedE: "served P s"

lemma sound_new_file: "sound_file P empty_db"
  by (simp add: sound_file_def empty_wf [unfolded book_wf_parts] own_rows_def) (simp add: empty_db_def)

lemma sound_reachable: "reachable_books P b \<Longrightarrow> own_rows (session_key P) (db b) \<Longrightarrow> sound_file P (db b)"
  using reachable_wf [of P b "session_key P"] by (simp add: sound_file_def book_wf_parts)

lemma sound_session: "session_ok P s \<Longrightarrow> sound_file P (db s)"
  by (simp add: session_ok_def sound_file_def rows_wf_def nonces_ok_none)

section \<open>Boot\<close>

lemma quiet_evolves: "state_io_rel (quiet P) m \<Longrightarrow> state_io_rel (evolves (keccak P) (session_key P) B) m"
  by (auto simp: state_io_rel_def quiet_def)

lemma boot_evolves:
  "state_io_rel (evolves (keccak P) (session_key P) {} :: 'z signer_state_scheme \<Rightarrow> _) (boot P)"
proof -
  let ?R = "evolves (keccak P) (session_key P) {} :: 'z signer_state_scheme \<Rightarrow> 'z signer_state_scheme \<Rightarrow> bool"
  have flags: "state_io_rel ?R (set_ready b)" "state_io_rel ?R (set_reason why)" for b why
    unfolding set_ready_def set_reason_def by (intro evolves.io_writeE evolves_same; simp)+
  have chain: "state_io_rel ?R (boot_chain P)"
    unfolding boot_chain_def
    by (intro io_intros quiet_evolves quiet.fr_chain_identity quiet.fr_reconcile quiet.fr_policy)
  have finish: "state_io_rel ?R (boot_finish P b n)" for b n
    unfolding boot_finish_def
    by (intro io_intros io_statements io_set_next_nonce io_record_boot flags) simp
  show ?thesis
    unfolding boot_def split_def
    by (intro io_intros io_statements io_verify_chains flags chain finish)
qed

lemma boot_sends_nothing: "state_io_rel (same sent_txs) (boot P)"
proof -
  have flags: "state_io_rel (same sent_txs) (set_ready b)" "state_io_rel (same sent_txs) (set_reason why)" for b why
    unfolding set_ready_def set_reason_def by (intro same.io_writeE; simp add: same_def)+
  show ?thesis
    unfolding boot_def boot_chain_def boot_finish_def split_def
    by (intro io_intros same_sent.fr_all same_sent.fr_chain_identity same_sent.fr_reconcile flags)
qed

lemma boot_session:
  assumes "sound_file P (db b)" "run_state (boot P) (new_signer b) = (r, s)"
  shows "session_ok P s"
proof -
  have start: "rows_wf (session_key P) {} (db b)" "own_rows (session_key P) (db b)"
    using assms(1) by (simp_all add: sound_file_def)
  have db: "db (new_signer b) = db b" and sent: "sent_txs (new_signer b) = []"
    by (simp_all add: new_signer_def)
  have "sent_txs s = []"
    using state_io_rel_same [OF boot_sends_nothing assms(2)] sent by simp
  moreover have "(book_step (keccak P) (session_key P) {})\<^sup>*\<^sup>* (db b) (db s)"
    using state_io_relD [OF boot_evolves assms(2)] start(1) db by (simp add: evolves_def)
  ultimately show ?thesis
    using path_keeps_rows path_own_rows start by (simp add: session_ok_def sent_nonces_def)
qed

section \<open>Requests\<close>

lemma quiet_stats: "state_io_rel (quiet P) (stats P)"
  unfolding stats_def by (intro io_intros quiet.fr_policy)

text \<open>A path is two segments, \<open>receipt\<close> and an id, or \<open>do_GET\<close> answers with its usage.\<close>

lemma io_two_segments:
  assumes "\<And>p rid. state_io_rel R (f p rid)" "state_io_rel R g"
  shows "state_io_rel R (case xs of [p, rid] \<Rightarrow> f p rid | _ \<Rightarrow> g)"
  using assms by (auto split: list.split)

lemma session_event: "state_io_rel (keeps (session_ok P)) (run_event P e)"
proof -
  have audits: "state_io_rel (keeps (session_ok P)) (audit P f)" for f
    by (rule session.ke_idle [OF quiet.pn_audit])
  have decide: "state_io_rel (keeps (session_ok P)) (decide P d)" for d
    unfolding decide_def by (intro io_intros audits)
  have handled: "state_io_rel (keeps (session_ok P)) (handled P raw)" for raw
    unfolding handled_def by (intro io_intros session_handle)
  have post: "state_io_rel (keeps (session_ok P)) (do_POST P rq)" for rq
    unfolding do_POST_def Let_def by (intro io_intros decide handled)
  have fetch: "state_io_rel (keeps (session_ok P)) (do_GET P path)" for path
    unfolding do_GET_def
    by (intro io_intros io_two_segments session.ke_idle [OF quiet_stats] session.ke_idle [OF quiet.pn_get_db])
  show ?thesis
  proof (cases e)
    case Swept
    then show ?thesis by (simp only: run_event.simps sweep_cycle_def) (intro io_intros session_sweep)
  qed (simp only: run_event.simps, intro io_intros post fetch)+
qed

lemma served_ok: "served P s \<Longrightarrow> session_ok P s"
proof (induction rule: served.induct)
  case (booted b s)
  then show ?case using boot_session by blast
next
  case (event s e r s')
  show ?case by (rule state_io_rel_keeps [OF session_event event.IH event.hyps(2)])
qed

section \<open>What an event may do with the key\<close>

text \<open>
  The contract of a session: only a POST to the sign path with the right token and a body within the
  bound, or a turn of the sweep, may use the key, once, for a transaction with a nonce nothing
  before it carried; it may then hand that transaction, and nothing else, to the endpoints.
\<close>

fun allowed :: "'e signer_env_scheme \<Rightarrow> session_event \<Rightarrow> tx_request \<Rightarrow> bool" where
  "allowed P (Posted rq) tx \<longleftrightarrow>
     rq_path rq = sign_path (conf P) \<and> authorized P (given (rq_authorization rq) []) = Inr True
     \<and> (\<exists>n. int n \<le> MAX_BODY_BYTES \<and> n \<le> length (rq_body rq) \<and> request_tx_ok P (take n (rq_body rq)) tx)"
| "allowed P (Fetched path) tx \<longleftrightarrow> False"
| "allowed P Swept tx \<longleftrightarrow> sweep_tx_ok P tx"

inductive vault_step :: "'e signer_env_scheme \<Rightarrow> session_event \<Rightarrow> tx_request list \<times> tx_request list \<Rightarrow>
    tx_request list \<times> tx_request list \<Rightarrow> bool" for P e where
  idle: "vault_step P e v v"
| signs: "allowed P e tx \<Longrightarrow> vault_step P e (S, T) (S @ [tx], T)"
| pays: "allowed P e tx \<Longrightarrow> t_nonce tx \<notin> t_nonce ` set T \<Longrightarrow> vault_step P e (S, T) (S @ [tx], T @ [tx])"

lemma pays_then_idle:
  assumes "state_io_rel (pays_one G) m" "\<And>e. state_io_rel (same key_use) (h e)" "\<And>x. state_io_rel (same key_use) (k x)"
  shows "state_io_rel (pays_one G) (tryE m h k)"
proof (rule state_io_relI)
  fix a s s'
  assume run: "run_state (tryE m h k) s = (a, s')"
  obtain r t where m: "run_state m s = (r, t)" by fastforce
  have "key_use s' = key_use t"
    using run m assms(2,3) by (cases r) (auto dest: state_io_rel_same)
  then show "pays_one G s s'" using state_io_relD [OF assms(1) m] by (simp add: pays_one_def)
qed

lemma pays_bindE_idle:
  "state_io_rel (pays_one G) m \<Longrightarrow> (\<And>x. state_io_rel (same key_use) (f x)) \<Longrightarrow> state_io_rel (pays_one G) (bindE m f)"
  unfolding bindE_def by (rule pays_then_idle) (auto intro: same.io_raise)

lemma use_decide: "state_io_rel (same key_use) (decide P d)"
  unfolding decide_def by (intro io_intros same_use.fr_policy)

lemma pays_POST:
  "state_io_rel (pays_one (allowed P (Posted rq)) :: signer_state \<Rightarrow> signer_state \<Rightarrow> bool) (do_POST P rq)"
proof -
  let ?G = "allowed P (Posted rq)"
  let ?auth = "authorized P (given (rq_authorization rq) [])"
  note idle = paying.ke_idle [where G = ?G]
  have decide: "state_io_rel (pays_one ?G) (decide P d)" for d
    by (rule idle [OF use_decide])
  have answer: "state_io_rel (pays_one ?G) (ok x)" for x
    by (rule idle [OF same.io_ok])
  have handled: "state_io_rel (pays_one ?G) (bindE (handled P raw) (decide P) :: (signer_state, response) py)"
    if "rq_path rq = sign_path (conf P)" "?auth = Inr True" "raw = take n (rq_body rq)"
      "int (length raw) \<le> MAX_BODY_BYTES" for raw n
  proof (rule pays_bindE_idle [OF _ use_decide])
    have "\<exists>n. int n \<le> MAX_BODY_BYTES \<and> n \<le> length (rq_body rq) \<and> raw = take n (rq_body rq)"
      using that(3,4) by (intro exI [of _ "length raw"]) (auto simp: min_def)
    then have "state_io_rel (pays_one ?G) (handle P raw :: (signer_state, decision) py)"
      by (intro pays_one_mono [OF pays_handle]) (use that(1,2) in auto)
    then show "state_io_rel (pays_one ?G) (handled P raw :: (signer_state, decision) py)"
      unfolding handled_def by (rule pays_then_idle) (rule same.io_ok)+
  qed
  have choice: "state_io_rel (pays_one ?G) (if b then m else n)"
    if "b \<Longrightarrow> state_io_rel (pays_one ?G) m" "\<not> b \<Longrightarrow> state_io_rel (pays_one ?G) n"
    for b and m n :: "(signer_state, response) py"
    using that by simp
  show ?thesis
    unfolding do_POST_def Let_def
  proof (rule choice [OF answer paying.ke_bindE [OF same.io_liftE]])
    fix auth
    assume path: "\<not> rq_path rq \<noteq> sign_path (conf P)"
      and "produces (liftE ?auth :: (signer_state, bool) py) auth"
    then have auth: "?auth = Inr auth" by simp
    show "state_io_rel (pays_one ?G :: signer_state \<Rightarrow> signer_state \<Rightarrow> bool)
       (if \<not> auth then decide P (plain_refusal 401 ''unauthorized'')
        else case declared_length rq of None \<Rightarrow> ok (400, error_body ''malformed_length'')
          | Some declared \<Rightarrow>
              if declared < 0 \<or> given (rq_transfer_encoding rq) [] \<noteq> [] then ok (400, error_body ''malformed_length'')
              else if MAX_BODY_BYTES < declared then decide P (plain_refusal 413 ''body_too_large'')
              else if int (length (take (nat (min declared (MAX_BODY_BYTES + 1))) (rq_body rq))) \<noteq> declared
                then ok (400, error_body ''incomplete_body'')
              else if MAX_BODY_BYTES < int (length (take (nat (min declared (MAX_BODY_BYTES + 1))) (rq_body rq)))
                then decide P (plain_refusal 413 ''body_too_large'')
              else bindE (handled P (take (nat (min declared (MAX_BODY_BYTES + 1))) (rq_body rq))) (decide P))"
    proof (cases "declared_length rq")
      case None
      then show ?thesis by (simp only: option.case) (intro choice decide answer)
    next
      case (Some declared)
      then show ?thesis
        by (simp only: option.case) (intro choice decide answer handled, use path auth in auto)
    qed
  qed
qed

lemma use_stats: "state_io_rel (same key_use) (stats P)"
  by (rule same_use.fr_boot_records)

lemma use_GET: "state_io_rel (same key_use) (do_GET P path)"
  unfolding do_GET_def by (intro io_intros io_two_segments use_stats same_use.fr_policy)

lemma pays_event:
  "state_io_rel (pays_one (allowed P e) :: signer_state \<Rightarrow> signer_state \<Rightarrow> bool) (run_event P e)"
proof (cases e)
  case (Posted rq)
  show ?thesis
    unfolding Posted run_event.simps thenE_def
    by (rule pays_bindE_idle [OF pays_POST same.io_ok])
next
  case (Fetched path)
  show ?thesis
    unfolding Fetched run_event.simps by (rule paying.ke_idle) (intro io_intros use_GET)
next
  case Swept
  have "state_io_rel (pays_one (allowed P Swept) :: signer_state \<Rightarrow> signer_state \<Rightarrow> bool) (sweep_proceeds P)"
    by (rule pays_one_mono [OF pays_sweep_proceeds]) simp
  then show ?thesis
    unfolding Swept run_event.simps sweep_cycle_def by (rule pays_then_idle) (rule same.io_ok)+
qed

lemma event_vault:
  fixes s s' :: signer_state
  assumes "session_ok P s" "run_state (run_event P e) s = (r, s')"
  shows "vault_step P e (key_use s) (key_use s')"
proof -
  have "session_ok P s'" by (rule state_io_rel_keeps [OF session_event assms])
  then have "distinct (map t_nonce (sent_txs s'))" by (simp add: session_ok_def)
  moreover have "pays_one (allowed P e) s s'" by (rule state_io_relD [OF pays_event assms(2)])
  ultimately show ?thesis
    by (auto simp: pays_one_def intro: vault_step.intros)
qed

section \<open>What every session keeps\<close>

definition vault_ok :: "'e signer_env_scheme \<Rightarrow> signer_state \<Rightarrow> bool" where
  "vault_ok P s \<longleftrightarrow>
     (\<forall>tx \<in> set (signed_txs s). \<exists>e. allowed P e tx) \<and> set (sent_txs s) \<subseteq> set (signed_txs s)"

lemma boot_uses_no_key: "state_io_rel (same key_use) (boot P)"
proof -
  have flags: "state_io_rel (same key_use) (set_ready b)" "state_io_rel (same key_use) (set_reason why)" for b why
    unfolding set_ready_def set_reason_def by (intro same.io_writeE; simp add: same_def)+
  show ?thesis
    unfolding boot_def boot_chain_def boot_finish_def split_def
    by (intro io_intros same_use.fr_all same_use.fr_chain_identity same_use.fr_reconcile flags)
qed

lemma served_vault: "served P s \<Longrightarrow> vault_ok P s"
proof (induction rule: served.induct)
  case (booted b s)
  then have "key_use s = key_use (new_signer b)" by (intro state_io_rel_same [OF boot_uses_no_key])
  then show ?case by (simp add: vault_ok_def new_signer_def)
next
  case (event s e r s')
  then have "pays_one (allowed P e) s s'" by (intro state_io_relD [OF pays_event])
  then show ?case using event.IH by (auto simp: vault_ok_def pays_one_def)
qed

text \<open>Only \<open>boot\<close> writes \<open>ready\<close> and the reason; no event of a session does.\<close>

abbreviation readiness :: "'z signer_state_scheme \<Rightarrow> bool \<times> string" where
  "readiness s \<equiv> (ready s, not_ready_reason s)"

interpretation same_ready: signer_frame "same readiness :: 'z signer_state_scheme \<Rightarrow> 'z signer_state_scheme \<Rightarrow> bool"
  by unfold_locales (auto simp: same_def)

lemma event_readiness: "state_io_rel (same readiness) (run_event P e)"
proof -
  have decide: "state_io_rel (same readiness) (decide P d)" for d
    unfolding decide_def by (intro io_intros same_ready.fr_policy)
  have "state_io_rel (same readiness) (do_POST P rq)" for rq
    unfolding do_POST_def handled_def Let_def by (intro io_intros decide same_ready.fr_handle)
  moreover have "state_io_rel (same readiness) (do_GET P path)" for path
    unfolding do_GET_def by (intro io_intros io_two_segments same_ready.fr_boot_records same_ready.fr_policy)
  ultimately show ?thesis
    by (cases e) (simp_all only: run_event.simps sweep_cycle_def, (intro io_intros same_ready.fr_sweep_proceeds; assumption?)+)
qed

text \<open>While the service is not ready, nothing uses the key.\<close>

definition stays_shut :: "'z signer_state_scheme \<Rightarrow> 'z signer_state_scheme \<Rightarrow> bool" where
  "stays_shut s t \<longleftrightarrow> (\<not> ready s \<longrightarrow> \<not> ready t \<and> key_use t = key_use s)"

interpretation shut: signer_neutral "stays_shut :: 'z signer_state_scheme \<Rightarrow> 'z signer_state_scheme \<Rightarrow> bool"
  by unfold_locales (auto simp: stays_shut_def)

lemma shut_event: "state_io_rel stays_shut (run_event P e)"
proof -
  have handle: "state_io_rel stays_shut (handle P raw)" for raw
    by (rule io_relI_at) (auto simp: stays_shut_def handle_def get_db_def split: if_splits)
  have sweep: "state_io_rel stays_shut (sweep_proceeds P)"
    by (rule io_relI_at) (auto simp: stays_shut_def sweep_proceeds_def Let_def split: if_splits)
  have decide: "state_io_rel stays_shut (decide P d)" for d
    unfolding decide_def by (intro io_intros shut.fr_policy)
  have "state_io_rel stays_shut (do_POST P rq)" for rq
    unfolding do_POST_def handled_def Let_def by (intro io_intros decide handle)
  moreover have "state_io_rel stays_shut (do_GET P path)" for path
    unfolding do_GET_def by (intro io_intros io_two_segments shut.fr_boot_records shut.fr_policy)
  ultimately show ?thesis
    by (cases e) (simp_all only: run_event.simps sweep_cycle_def, (intro io_intros sweep; assumption?)+)
qed

lemma unready_uses_no_key:
  assumes "\<not> ready s" "run_state (run_event P e) s = (r, t)"
  shows "key_use t = key_use s"
  using state_io_relD [OF shut_event assms(2)] assms(1) by (simp add: stays_shut_def)

end
