(* ===== verification/Policy_Sample.thy ===== *)
theory Policy_Sample
  imports Server
begin

text \<open>
  A small deployment on which the properties of the policy are exercised: a hash that keeps the
  first 32 bytes, one endpoint whose chain has one open channel, a depositor whose signature always
  recovers, and a key that signs.
\<close>

section \<open>The chain\<close>

definition hub_addr :: string where "hub_addr = ''0xaaaaaaaaaaaaaaaaaaaaaaaaaaaaaaaaaaaaaaaa''"
definition depositor_addr :: string where "depositor_addr = ''0x1111111111111111111111111111111111111111''"

definition sample_call :: debit_call where
  "sample_call =
     \<lparr>call_channel = replicate 32 1, call_amount = 20000, call_receipt = replicate 32 2,
      call_deadline = 1000500, call_signature = replicate 32 1 @ replicate 32 2 @ [27]\<rparr>"

text \<open>Words of replies, as hexadecimal text.\<close>

definition zeros :: "nat \<Rightarrow> string" where
  "zeros n = replicate n (CHR ''0'')"

text \<open>
  \<open>getChannel\<close> in the V2 layout: no hub bound, the pinned token, 5000000 deposited, 1000000 left,
  nothing used, expires at 2000000, nonce 7, open.
\<close>

definition sample_channel_text :: string where
  "sample_channel_text =
     ''0x'' @ zeros 24 @ ''1111111111111111111111111111111111111111'' @ zeros 64
     @ zeros 24 @ ''833589fcd6edb6e08f4c7c32d4f71b54bda02913'' @ zeros 58 @ ''4c4b40'' @ zeros 58 @ ''0f4240''
     @ zeros 64 @ zeros 58 @ ''1e8480'' @ zeros 63 @ ''7'' @ zeros 64 @ zeros 64"

definition call_selector :: "json list \<Rightarrow> string" where
  "call_selector params =
     (case params of JObj (a # (k, JStr d) # kvs) # ps \<Rightarrow> take 10 d | _ \<Rightarrow> [])"

definition rpc_text :: "string \<Rightarrow> json option" where
  "rpc_text t = Some (JObj [(''result'', JStr t)])"

text \<open>The selectors of the toy hash are the first four letters of the signature.\<close>

definition sample_call_reply :: "string \<Rightarrow> string" where
  "sample_call_reply sel =
     (if sel = ''0x67657443'' then sample_channel_text                  \<comment> \<open>\<open>getC\<close>\<close>
      else if sel = ''0x69735265'' then ''0x'' @ zeros 64               \<comment> \<open>\<open>isRe\<close>\<close>
      else if sel = ''0x61757468'' then ''0x'' @ zeros 63 @ ''1''        \<comment> \<open>\<open>auth\<close>\<close>
      else if sel = ''0x64656369'' then ''0x'' @ zeros 63 @ ''6''        \<comment> \<open>\<open>deci\<close>\<close>
      else if sel = ''0x62616c61'' then ''0x'' @ zeros 58 @ ''2dc6c0''   \<comment> \<open>\<open>bala\<close>\<close>
      else if sel = ''0x646f6d61''                                     \<comment> \<open>\<open>doma\<close>\<close>
        then ''0x454950373132446f6d61696e28737472696e67206e616d652c737472696e6720''
      else ''0x'')"

definition sample_post :: "nat \<Rightarrow> string \<Rightarrow> string \<Rightarrow> json list \<Rightarrow> json option" where
  "sample_post n url method params =
     (if method = ''eth_call'' then rpc_text (sample_call_reply (call_selector params))
      else if method = ''eth_chainId'' then rpc_text ''0x2105''
      else if method = ''eth_getBlockByNumber''
        then Some (JObj [(''result'', JObj [(''baseFeePerGas'', JStr ''0x64'')])])
      else if method = ''eth_estimateGas'' then rpc_text ''0x186a0''
      else if method = ''eth_getTransactionCount'' then rpc_text ''0x5''
      else if method = ''eth_sendRawTransaction'' then rpc_text ''0x00''
      else Some (JObj [(''result'', JNull)]))"

section \<open>The signer\<close>

definition no_environ :: environ where
  "no_environ name = None"

definition sample_data_text :: string where
  "sample_data_text =
     ''0x'' @ ''6465626901010101010101010101010101010101010101010101010101010101'' @ ''01010101'' @ zeros 60 @ ''4e20020202020202020202020202020202020202020202020202020202020202'' @ ''0202''
     @ zeros 59 @ ''f4434'' @ zeros 62 @ ''a'' @ zeros 63 @ ''4101010101010101010101010101010101010101010101010101010101010101'' @ ''0102020202020202020202020202020202020202020202020202020202020202'' @ ''021b'' @ zeros 62"

definition sample_request :: json where
  "sample_request =
     JObj [(''transaction'', JObj
       [(''to'', JStr (ESCROW no_environ)), (''data'', JStr sample_data_text), (''chainId'', JInt 8453),
        (''gas'', JInt 150000), (''value'', JInt 0)])]"

definition sample_json :: "bytes \<Rightarrow> json option" where
  "sample_json raw = Some sample_request"

definition sample_key :: "tx_request \<Rightarrow> string + bytes" where
  "sample_key tx = Inr [2, word_of_int (t_nonce tx)]"

definition sample_recover :: "bytes \<Rightarrow> bytes \<Rightarrow> string option" where
  "sample_recover digest signature = Some depositor_addr"

definition sample_clock :: "nat \<Rightarrow> rat" where
  "sample_clock n = 1000000 + of_nat n"

definition sample_signer :: signer_env where
  "sample_signer =
     \<lparr>keccak = toy_hash, clock = sample_clock, witness_path = [], witness_opens = (\<lambda>_. True),
      endpoints = [''http://rpc''], http_post = sample_post, decode_utf8 = (\<lambda>_. []),
      environment = no_environ, conf = sample_settings,
      own_address = hub_addr, json_loads = sample_json,
      sign_tx = sample_key, recover_hash = sample_recover\<rparr>"

definition sample_books :: books where
  "sample_books = \<lparr>db = empty_db, clock_reads = 0, witness_lines = [], witness_tries = 0\<rparr>"

section \<open>Evaluating the road in stages\<close>

lemma nth_word_code [code]:
  "nth_word i out = (if i = 0 then take 32 out else nth_word (i - 1) (drop 32 out))"
  by (cases i) (simp_all add: nth_word_def slice_def add.commute)

text \<open>
  Code equations that name what is left to do after each phase, so that the evaluation of a concrete
  request does not look into it before its turn.
\<close>

definition after_sign :: "common \<Rightarrow> string \<Rightarrow> ('z signer_state_scheme, decision) py" where
  "after_sign c h = ok (answer h False ''signed'' c)"

definition after_simulation :: "'e signer_env_scheme \<Rightarrow> bytes \<Rightarrow> int \<Rightarrow> int \<Rightarrow> common \<Rightarrow> spend_row \<Rightarrow> unit \<Rightarrow>
    ('z signer_state_scheme, decision) py" where
  "after_simulation P data gas fee c row u =
     andthen (sign_and_send P (transaction_of P (own_escrow P) data gas fee row) row c) (after_sign c)"

definition after_reserve :: "'e signer_env_scheme \<Rightarrow> bytes \<Rightarrow> int \<Rightarrow> int \<Rightarrow> common \<Rightarrow> spend_row \<Rightarrow>
    ('z signer_state_scheme, decision) py" where
  "after_reserve P data gas fee c row = andthen (simulated P data row c) (after_simulation P data gas fee c row)"

definition after_gas :: "'e signer_env_scheme \<Rightarrow> string \<Rightarrow> bytes \<Rightarrow> int \<Rightarrow> debit_call \<Rightarrow> common \<Rightarrow> channel \<Rightarrow> int \<times> int \<Rightarrow>
    ('z signer_state_scheme, decision) py" where
  "after_gas P addr data gas_hint call c ch gf =
     andthen (debit_reserve P (debit_args P addr data gas_hint call ch c (fst gf) (snd gf)) c)
       (after_reserve P data (fst gf) (snd gf) c)"

definition after_signature :: "'e signer_env_scheme \<Rightarrow> string \<Rightarrow> bytes \<Rightarrow> int \<Rightarrow> debit_call \<Rightarrow> common \<Rightarrow> channel \<Rightarrow> unit \<Rightarrow>
    ('z signer_state_scheme, decision) py" where
  "after_signature P addr data gas_hint call c ch u =
     andthen (gas_and_fee P (own_escrow P) data c) (after_gas P addr data gas_hint call c ch)"

definition after_chain :: "'e signer_env_scheme \<Rightarrow> string \<Rightarrow> bytes \<Rightarrow> int \<Rightarrow> debit_call \<Rightarrow> common \<Rightarrow> channel \<Rightarrow>
    ('z signer_state_scheme, decision) py" where
  "after_chain P addr data gas_hint call c ch =
     andthen (debit_signature P call ch c) (after_signature P addr data gas_hint call c ch)"

definition after_replay :: "'e signer_env_scheme \<Rightarrow> string \<Rightarrow> bytes \<Rightarrow> int \<Rightarrow> debit_call \<Rightarrow> common \<Rightarrow> unit \<Rightarrow>
    ('z signer_state_scheme, decision) py" where
  "after_replay P addr data gas_hint call c u =
     andthen (debit_chain P call c) (after_chain P addr data gas_hint call c)"

definition after_shape :: "'e signer_env_scheme \<Rightarrow> string \<Rightarrow> bytes \<Rightarrow> int \<Rightarrow> string \<Rightarrow> debit_call \<Rightarrow>
    ('z signer_state_scheme, decision) py" where
  "after_shape P addr data gas_hint digest16 call =
     andthen (debit_replay P addr data (debit_common digest16 call))
       (after_replay P addr data gas_hint call (debit_common digest16 call))"

lemma handle_debit_staged [code]:
  "handle_debit P addr data gas_hint digest16 =
     andthen (debit_shape P data gas_hint digest16) (after_shape P addr data gas_hint digest16)"
  by (simp add: handle_debit_def after_shape_def [abs_def] after_replay_def [abs_def] after_chain_def [abs_def]
      after_signature_def [abs_def] after_gas_def [abs_def] after_reserve_def [abs_def] after_simulation_def [abs_def]
      after_sign_def [abs_def] Let_def split_def)

section \<open>What happens\<close>

text \<open>Boot: the books verify, the chain agrees, the allocator is set to the chain's pending count.\<close>

definition booted :: signer_state where
  "booted = snd (run_state (boot sample_signer) (new_signer sample_books))"

lemma sample_boots:
  "case run_state (boot sample_signer) (new_signer sample_books) of (r, s) \<Rightarrow>
     r = Inr () \<and> ready s \<and> map bo_reconciled (boots (db s)) = [True]
     \<and> next_nonce (db s) (CHAIN_ID, hub_addr) = 5 \<and> signed_txs s = []"
  by code_simp

definition sample_hash :: string where
  "sample_hash = ''0x0205'' @ zeros 60"

definition sample_body :: bytes where
  "sample_body = [123, 125]"

definition sample_rq :: http_request where
  "sample_rq =
     \<lparr>rq_path = ''/sign'', rq_authorization = Some ''Bearer t0ken'', rq_content_length = Some ''2'',
      rq_transfer_encoding = None, rq_body = sample_body\<rparr>"

text \<open>
  The request is checked, reserved, signed with nonce 5, recorded, broadcast and audited; the same
  request again is answered with the same hash.
\<close>

lemma sample_signed:
  "case run_state (handle sample_signer sample_body) booted of (r, s) \<Rightarrow>
     (case r of Inl e \<Rightarrow> False
      | Inr d \<Rightarrow> d_status d = 200 \<and> d_decision d = ''signed'' \<and> d_tx_hash d = sample_hash
          \<and> (case run_state (decide sample_signer d) s of (a, t) \<Rightarrow>
               a = Inr (200, [(''tx_hash'', JStr sample_hash), (''replayed'', JBool False)])
               \<and> map t_nonce (sent_txs t) = [5]
               \<and> map au_decision (audits (db t)) = [''ready'', ''signed'', ''broadcast'', ''signed'']))
     \<and> map t_nonce (signed_txs s) = [5] \<and> map t_nonce (sent_txs s) = [5]
     \<and> map row_state (spend (db s)) = [Broadcast]
     \<and> (case run_state (handle sample_signer sample_body) s of (a, t) \<Rightarrow>
          (case a of Inl e \<Rightarrow> False | Inr d \<Rightarrow> d_decision d = ''replayed'' \<and> d_tx_hash d = sample_hash))"
  by code_simp

end
