(* ===== verification/Policy_Props.thy ===== *)
theory Policy_Props
  imports Session Policy_Sample
begin

text \<open>
  The properties of the policy, the HTTP surface and a session, each over the definitions of the
  model alone, with the sample deployment as the concrete case of those that have a hypothesis.
\<close>

section \<open>The sample session\<close>

definition signed_signer :: signer_state where
  "signed_signer = snd (run_state (handle sample_signer sample_body) booted)"

definition posted :: signer_state where
  "posted = snd (run_state (do_POST sample_signer sample_rq) booted)"

lemma sample_authorized: "authorized sample_signer (given (rq_authorization sample_rq) []) = Inr True"
  by code_simp

lemma sample_length: "declared_length sample_rq = Some 2"
  by code_simp

lemma post_sample: "do_POST sample_signer sample_rq = bindE (handled sample_signer sample_body) (decide sample_signer)"
proof -
  have path: "rq_path sample_rq = sign_path (conf sample_signer)"
    by (simp add: sample_rq_def sample_signer_def sample_settings_def)
  have rest: "given (rq_transfer_encoding sample_rq) [] = []" "rq_body sample_rq = sample_body" "length sample_body = 2"
    by (simp_all add: sample_rq_def given_def sample_body_def)
  have "take 2 sample_body = sample_body" by (simp add: sample_body_def)
  then show ?thesis
    unfolding do_POST_def sample_authorized sample_length using path rest
    by (intro state.expand) (simp add: fun_eq_iff MAX_BODY_BYTES_def Let_def)
qed

lemma sample_handled:
  obtains d where "run_state (handle sample_signer sample_body) booted = (Inr d, signed_signer)"
    "d_status d = 200" "d_decision d = ''signed''" "d_tx_hash d = sample_hash"
    "run_state (decide sample_signer d) signed_signer
       = (Inr (200, [(''tx_hash'', JStr sample_hash), (''replayed'', JBool False)]), posted)"
    "map t_nonce (sent_txs posted) = [5]"
    "map au_decision (audits (db posted)) = [''ready'', ''signed'', ''broadcast'', ''signed'']"
proof -
  obtain r s where run: "run_state (handle sample_signer sample_body) booted = (r, s)" by fastforce
  then have s: "s = signed_signer" by (simp add: signed_signer_def)
  show thesis
  proof (cases r)
    case (Inl e)
    then show thesis using sample_signed run by simp
  next
    case (Inr d)
    obtain a t where dec: "run_state (decide sample_signer d) s = (a, t)" by fastforce
    have t: "t = posted"
      using run Inr dec unfolding posted_def post_sample by (simp add: handled_def)
    show thesis
      using that [of d] sample_signed run Inr dec s t by simp
  qed
qed

lemma sample_posted:
  "run_state (do_POST sample_signer sample_rq) booted
     = (Inr (200, [(''tx_hash'', JStr sample_hash), (''replayed'', JBool False)]), posted)"
  "map t_nonce (sent_txs posted) = [5]"
  "map au_decision (audits (db posted)) = [''ready'', ''signed'', ''broadcast'', ''signed'']"
  by (rule sample_handled, simp add: post_sample handled_def)+

lemma sample_served: "served sample_signer booted" "served sample_signer posted"
proof -
  have run: "run_state (boot sample_signer) (new_signer sample_books) = (Inr (), booted)"
    using sample_boots by (auto simp: booted_def split: prod.splits)
  show served: "served sample_signer booted"
    by (rule served.booted [OF _ run]) (simp add: sample_books_def sound_new_file)
  show "served sample_signer posted"
    by (rule served.event [OF served, where e = "Posted sample_rq"]) (simp add: sample_posted(1))
qed

lemma sample_replayed:
  obtains d t where "run_state (handle sample_signer sample_body) signed_signer = (Inr d, t)"
    "d_decision d = ''replayed''" "d_tx_hash d = sample_hash"
proof -
  obtain e where "run_state (handle sample_signer sample_body) booted = (Inr e, signed_signer)"
    by (rule sample_handled)
  moreover obtain r t where again: "run_state (handle sample_signer sample_body) signed_signer = (r, t)" by fastforce
  ultimately show thesis using sample_signed that by (cases r) auto
qed

section \<open>What gets signed\<close>


text \<open>
  C18. A sweep signs at most one transaction: a transfer of the pinned token to the configured
  treasury, which is not this key, for the balance just read from chain, at least the minimum.
\<close>

theorem sweep_signs_only_transfer:
  "(let t = snd (run_state (sweep_proceeds P) (s :: signer_state)) in
     signed_txs t = signed_txs s \<and> sent_txs t = sent_txs s
     \<or> (\<exists>tx. sweep_tx_ok P tx \<and> signed_txs t = signed_txs s @ [tx]
          \<and> (sent_txs t = sent_txs s \<or> sent_txs t = sent_txs s @ [tx])))"
proof -
  have "pays_one (sweep_tx_ok P) s (snd (run_state (sweep_proceeds P) s))"
    by (rule state_io_relD [OF pays_sweep_proceeds]) (rule prod.collapse [symmetric])
  then show ?thesis by (auto simp: pays_one_def Let_def)
qed

text \<open>
  C6. Whatever a request or a sweep hands to the endpoints is on the books when the call is over,
  as an attempt with the hash of the very bytes and their nonce: the hash is recorded before the
  send, on every path out.
\<close>

theorem sends_are_logged:
  "(let t = snd (run_state (handle P raw) s) in
     sent_txs t = sent_txs s
     \<or> (\<exists>tx bytes a. sent_txs t = sent_txs s @ [tx] \<and> sign_tx P tx = Inr bytes \<and> a \<in> set (attempts (db t))
          \<and> at_tx_hash a = hex0x (keccak P bytes) \<and> at_account_nonce a = t_nonce tx))
   \<and> (let t = snd (run_state (sweep_proceeds P) s) in
     sent_txs t = sent_txs s
     \<or> (\<exists>tx bytes a. sent_txs t = sent_txs s @ [tx] \<and> sign_tx P tx = Inr bytes \<and> a \<in> set (attempts (db t))
          \<and> at_tx_hash a = hex0x (keccak P bytes) \<and> at_account_nonce a = t_nonce tx))"
proof -
  have "logs_sent P s (snd (run_state (handle P raw) s))" "logs_sent P s (snd (run_state (sweep_proceeds P) s))"
    by (rule state_io_relD [OF logs_handle] state_io_relD [OF logs_sweep_proceeds], rule prod.collapse [symmetric])+
  then show ?thesis by (auto simp: logs_sent_def sent_from_def written_def Let_def)
qed

section \<open>One nonce, one transaction\<close>

text \<open>
  C2. Over a whole session, from boot on and through any interleaving of requests, reads and sweep
  turns with any replies from the endpoints, no two transactions handed to the endpoints carry the
  same account nonce.
\<close>

theorem session_nonces_distinct:
  assumes "served P s"
  shows "distinct (map t_nonce (sent_txs s))"
  using served_ok [OF assms] by (simp add: session_ok_def)

theorem session_nonces_distinct_witness:
  "distinct (map t_nonce (sent_txs posted)) \<and> map t_nonce (sent_txs posted) = [5]"
  using session_nonces_distinct [OF sample_served(2)] sample_posted(2) by simp

text \<open>
  C3. Every event of a session refines a step of the abstract vault: nothing happens to the key, or
  it signs one transaction the event is entitled to, or it also sends that one with a nonce no
  transaction before it carried. A GET is entitled to nothing, a POST only with the token on the
  sign path and a body within the bound.
\<close>

theorem event_refines_vault:
  assumes "served P s" "run_state (run_event P e) s = (r, t)"
  shows "vault_step P e (signed_txs s, sent_txs s) (signed_txs t, sent_txs t)"
  by (rule event_vault [OF served_ok [OF assms(1)] assms(2)])

lemma sample_event: "run_state (run_event sample_signer (Posted sample_rq)) booted = (Inr (), posted)"
  by (simp add: sample_posted(1))

theorem event_refines_vault_witness:
  "vault_step sample_signer (Posted sample_rq) (signed_txs booted, sent_txs booted) (signed_txs posted, sent_txs posted)
   \<and> length (sent_txs posted) = 1"
  using event_refines_vault [OF sample_served(1) sample_event] sample_posted(2) by (auto simp: map_eq_Cons_conv)

text \<open>
  C19. Every transaction the key signs in a session moves no native token, is of type 2 on chain
  8453, goes to the pinned escrow or the pinned token, and stays within the gas cap and the
  configured fee ceiling.
\<close>

theorem session_tx_bounds:
  assumes "served P s" "tx \<in> set (signed_txs s)"
  shows "t_value tx = 0 \<and> t_chain_id tx = 8453 \<and> t_type tx = 2 \<and> t_to tx \<in> {own_escrow P, TOKEN}
    \<and> t_gas tx \<le> GAS_HARD_CAP \<and> t_max_fee tx \<le> max_fee_wei_ceiling (conf P)
    \<and> t_priority tx = priority_fee_wei (conf P)"
proof -
  obtain e where "allowed P e tx"
    using served_vault [OF assms(1)] assms(2) by (auto simp: vault_ok_def)
  then have "(\<exists>data. tx_frame P (own_escrow P) data tx) \<or> (\<exists>data. tx_frame P TOKEN data tx)"
    by (cases e) (auto simp: request_tx_ok_def debit_tx_ok_def expire_tx_ok_def sweep_tx_ok_def)
  then show ?thesis by (auto simp: tx_frame_def)
qed

theorem session_tx_bounds_witness:
  "t_value (hd (sent_txs posted)) = 0 \<and> t_nonce (hd (sent_txs posted)) = 5"
proof -
  have one: "sent_txs posted \<noteq> []" "t_nonce (hd (sent_txs posted)) = 5"
    using sample_posted(2) by (auto simp: map_eq_Cons_conv)
  moreover have "set (sent_txs posted) \<subseteq> set (signed_txs posted)"
    using served_vault [OF sample_served(2)] by (simp add: vault_ok_def)
  ultimately have "hd (sent_txs posted) \<in> set (signed_txs posted)"
    using hd_in_set by blast
  from session_tx_bounds [OF sample_served(2) this] one show ?thesis by simp
qed

section \<open>What an answer says\<close>

text \<open>
  Every decision of \<open>handle\<close> is a refusal with a status in 400, 409, 422, 429, 500 or 503, no hash,
  and the reason as its body's error, or a 200 with the hash and whether it is a replay.
\<close>

theorem request_decision_shape:
  assumes "run_state (handle P raw) s = (Inr d, t)"
  shows "d_decision d = ''refused'' \<and> d_status d \<in> {400, 409, 422, 429, 500, 503} \<and> d_tx_hash d = []
      \<and> hd (d_body d) = (''error'', JStr (d_reason_code d))
    \<or> d_decision d \<in> {''signed'', ''replayed''} \<and> d_status d = 200 \<and> d_reason_code d = []
      \<and> d_body d = [(''tx_hash'', JStr (d_tx_hash d)), (''replayed'', JBool (d_decision d = ''replayed''))]"
proof -
  have "decision_ok d"
    using handle_shape producesI [OF assms] unfolding yields_def by blast
  then show ?thesis by (auto simp: decision_ok_def refusal_def hash_answer_def)
qed

theorem request_decision_shape_witness:
  "\<exists>d. fst (run_state (handle sample_signer sample_body) booted) = Inr d \<and> d_status d = 200 \<and> d_tx_hash d = sample_hash
    \<and> d_body d = [(''tx_hash'', JStr sample_hash), (''replayed'', JBool False)]"
proof -
  obtain d where d: "run_state (handle sample_signer sample_body) booted = (Inr d, signed_signer)"
    "d_status d = 200" "d_decision d = ''signed''" "d_tx_hash d = sample_hash"
    by (rule sample_handled)
  from request_decision_shape [OF d(1)] d show ?thesis by auto
qed

text \<open>
  C12. ''signed'' is true: the call signed one transaction, handed it to the endpoints, and the hash it
  answers is that of the signed bytes, which \<open>tx_attempts\<close> holds.
\<close>

theorem signed_answer_true:
  assumes "run_state (handle P raw) s = (Inr d, t)" "d_decision d = ''signed''"
  shows "\<exists>tx bytes a. signed_txs t = signed_txs s @ [tx] \<and> sent_txs t = sent_txs s @ [tx] \<and> sign_tx P tx = Inr bytes
    \<and> d_tx_hash d = hex0x (keccak P bytes) \<and> a \<in> set (attempts (db t))
    \<and> at_tx_hash a = d_tx_hash d \<and> at_account_nonce a = t_nonce tx"
  using handle_signed assms unfolding tells_def signed_answer_def written_def by metis

theorem signed_answer_true_witness:
  "sent_txs signed_signer \<noteq> []"
proof -
  obtain d where d: "run_state (handle sample_signer sample_body) booted = (Inr d, signed_signer)"
    "d_decision d = ''signed''"
    by (rule sample_handled)
  from signed_answer_true [OF d] show ?thesis by auto
qed

text \<open>
  C17. ''replayed'' is true: nothing was signed or sent, and the hash is the one the books hold, in a
  signed, broadcast or mined row, for the receipt the decision names.
\<close>

theorem replayed_answer_true:
  assumes "run_state (handle P raw) s = (Inr d, t)" "d_decision d = ''replayed''"
  shows "signed_txs t = signed_txs s \<and> sent_txs t = sent_txs s
    \<and> (\<exists>row. get_row (db t) CHAIN_ID (own_escrow P) (d_receipt_id d) = Some row
         \<and> tx_hash row = d_tx_hash d \<and> row_state row \<in> {Signed, Broadcast, Mined})"
  using handle_replayed assms unfolding tells_def replay_answer_def by metis

theorem replayed_answer_true_witness:
  "\<exists>d t. run_state (handle sample_signer sample_body) signed_signer = (Inr d, t) \<and> d_tx_hash d = sample_hash
    \<and> sent_txs t = sent_txs signed_signer"
proof -
  obtain d t where d: "run_state (handle sample_signer sample_body) signed_signer = (Inr d, t)"
    "d_decision d = ''replayed''" "d_tx_hash d = sample_hash"
    by (rule sample_replayed)
  from replayed_answer_true [OF d(1,2)] d show ?thesis by blast
qed

section \<open>Refusing\<close>

text \<open>
  Until boot has finished, and while the books are halted, \<open>handle\<close> refuses with 503 before it
  looks at the body, and changes nothing at all.
\<close>

theorem unready_refuses:
  assumes "\<not> ready s \<or> halted (db s) \<noteq> []"
  shows "\<exists>why. run_state (handle P raw) s = (Inr (refuse 503 why no_common), s)
    \<and> (halted (db s) \<noteq> [] \<longrightarrow> why = ''clock_regression'')"
  using assms by (auto simp: handle_def get_db_def)

theorem unready_refuses_witness:
  "\<exists>why. run_state (handle sample_signer sample_body) (new_signer sample_books)
     = (Inr (refuse 503 why no_common), new_signer sample_books)"
  using unready_refuses [of "new_signer sample_books" sample_signer sample_body] by (auto simp: new_signer_def)

lemma audit_adds_one:
  assumes "run_state (audit E f) s = (r, t)"
  shows "(audits (db t) = audits (db s)
      \<or> (\<exists>a. audits (db t) = audits (db s) @ [a] \<and> au_kind a = or_default (f_kind f) ''request''
           \<and> au_decision a = or_default (f_decision f) ''refused'' \<and> au_http_status a = f_http_status f
           \<and> au_reason_code a = f_reason_code f \<and> au_receipt_id a = f_receipt_id f \<and> au_tx_hash a = f_tx_hash f))
    \<and> boots (db t) = boots (db s)"
proof (cases "regressed E s")
  case True
  then show ?thesis using assms by (auto simp: run_audit halted_on_def halt_db_def)
next
  case False
  then show ?thesis
    using assms
    by (auto simp: run_audit Let_def append_audit_def audit_record_def split: if_splits dest!: witness_db)
qed

lemma authorized_raises: "authorized P h = Inl e \<Longrightarrow> e = TypeError"
  by (auto simp: authorized_def Let_def split: if_splits)

text \<open>
  C30. A POST whose token is not accepted changes nothing but the audit log, and that by at most one
  record. A token that is compared and differs is answered 401, with one record of the refusal (or, when
  the record fails, with none); a token the comparison cannot take, for a character outside ASCII, ends
  the request with a \<open>TypeError\<close>, no answer and no record. No reservation, no attempt, no nonce, no boot
  record, no RPC exchange, no use of the key either way (the clock guard of the record may tick or halt).
\<close>

theorem unauthorized_only_audits:
  assumes "rq_path rq = sign_path (conf P)" "authorized P (given (rq_authorization rq) []) \<noteq> Inr True"
  shows "\<exists>r t. run_state (do_POST P rq) s = (r, t)
    \<and> (authorized P (given (rq_authorization rq) []) = Inr False \<and> r = Inr (401, [(''error'', JStr ''unauthorized'')])
        \<and> (audits (db t) = audits (db s)
           \<or> (\<exists>a. audits (db t) = audits (db s) @ [a] \<and> au_kind a = ''request'' \<and> au_decision a = ''refused''
                \<and> au_http_status a = 401 \<and> au_reason_code a = ''unauthorized'' \<and> au_receipt_id a = None \<and> au_tx_hash a = []))
       \<or> authorized P (given (rq_authorization rq) []) = Inl TypeError \<and> r = Inl TypeError \<and> t = s)
    \<and> spend (db t) = spend (db s) \<and> nonce_alloc (db t) = nonce_alloc (db s) \<and> attempts (db t) = attempts (db s)
    \<and> boots (db t) = boots (db s) \<and> exchanges t = exchanges s \<and> signed_txs t = signed_txs s \<and> sent_txs t = sent_txs s"
proof (cases "authorized P (given (rq_authorization rq) [])")
  case (Inl e)
  then have "run_state (do_POST P rq) s = (Inl TypeError, s)"
    using assms(1) authorized_raises [OF Inl] by (simp add: do_POST_def)
  then show ?thesis using Inl authorized_raises [OF Inl] by (intro exI [of _ "Inl TypeError"] exI [of _ s]) simp
next
  case (Inr b)
  then have no: "authorized P (given (rq_authorization rq) []) = Inr False" using assms(2) by simp
  let ?d = "plain_refusal 401 ''unauthorized''" and ?r = "Inr (401, [(''error'', JStr ''unauthorized'')])"
  obtain q u where audit: "run_state (audit P (request_audit P ?d)) s = (q, u)" by fastforce
  have answer: "run_state (do_POST P rq) s = (?r, u)"
    using audit assms(1) no
    by (cases q) (simp_all add: do_POST_def decide_def plain_refusal_def refuse_def)
  have more: "books.more u = books.more s"
    by (rule state_io_rel_same [OF ledger_more.fr_audit audit])
  then have "exchanges u = exchanges s" "signed_txs u = signed_txs s" "sent_txs u = sent_txs s"
    by (cases u; cases s; simp)+
  then show ?thesis
    using answer no run_audit_spend [OF audit] audit_adds_one [OF audit]
    by (intro exI [of _ ?r] exI [of _ u])
      (simp add: request_audit_def plain_refusal_def refuse_def no_common_def some_str_def or_default_def)
qed

theorem unauthorized_only_audits_witness:
  "(\<exists>t. run_state (do_POST sample_signer (sample_rq\<lparr>rq_authorization := Some ''Bearer token''\<rparr>)) booted
     = (Inr (401, [(''error'', JStr ''unauthorized'')]), t) \<and> sent_txs t = sent_txs booted)
   \<and> run_state (do_POST sample_signer (sample_rq\<lparr>rq_authorization := Some (''Bearer '' @ [CHR 0xE9])\<rparr>)) booted
     = (Inl TypeError, booted)"
proof
  have path: "rq_path (sample_rq\<lparr>rq_authorization := h\<rparr>) = sign_path (conf sample_signer)" for h
    by (simp add: sample_rq_def sample_signer_def sample_settings_def)
  have "authorized sample_signer (given (Some ''Bearer token'') []) = Inr False" by code_simp
  then show "\<exists>t. run_state (do_POST sample_signer (sample_rq\<lparr>rq_authorization := Some ''Bearer token''\<rparr>)) booted
     = (Inr (401, [(''error'', JStr ''unauthorized'')]), t) \<and> sent_txs t = sent_txs booted"
    using unauthorized_only_audits [OF path [of "Some ''Bearer token''"], of booted] by auto
  have "authorized sample_signer (given (Some (''Bearer '' @ [CHR 0xE9])) []) = Inl TypeError" by code_simp
  then show "run_state (do_POST sample_signer (sample_rq\<lparr>rq_authorization := Some (''Bearer '' @ [CHR 0xE9])\<rparr>)) booted
     = (Inl TypeError, booted)"
    using unauthorized_only_audits [OF path [of "Some (''Bearer '' @ [CHR 0xE9])"], of booted] by auto
qed

section \<open>The books of record\<close>

lemma audit_success:
  assumes "run_state (audit E f) s = (Inr x, t)"
  shows "\<exists>a. audits (db t) = audits (db s) @ [a] \<and> au_kind a = or_default (f_kind f) ''request''
    \<and> au_decision a = or_default (f_decision f) ''refused'' \<and> au_http_status a = f_http_status f
    \<and> au_tx_hash a = f_tx_hash f"
  using assms
  by (auto simp: run_audit Let_def append_audit_def audit_record_def tick_db_def split: if_splits dest!: witness_db)

lemma bindE_liftE: "bindE (liftE (Inr x)) f = f x" "bindE (liftE (Inl e)) f = raise e"
  by (intro state.expand ext; simp)+

lemma post_decided:
  assumes "run_state (do_POST P rq) s = (Inr (st, body), t)" "st < 400"
  shows "\<exists>raw d u. run_state (handle P raw) s = (Inr d, u) \<and> run_state (decide P d) u = (Inr (st, body), t)"
proof -
  have plain: "\<not> run_state (decide P (plain_refusal n why)) u = (Inr (st, body), t)" if "400 \<le> n" for n why and u :: "'a signer_state_scheme"
    using that assms(2)
    by (auto simp: decide_def plain_refusal_def refuse_def split: prod.splits sum.splits)
  obtain raw where raw: "run_state (bindE (handled P raw) (decide P)) s = (Inr (st, body), t)"
    using assms plain
    by (cases "authorized P (given (rq_authorization rq) [])"; cases "declared_length rq")
      (auto simp: do_POST_def bindE_liftE Let_def simp del: run_bindE split: if_splits)
  obtain d u where d: "run_state (handled P raw) s = (Inr d, u)" "run_state (decide P d) u = (Inr (st, body), t)"
    by (rule run_bindE_Inr [OF raw])
  then have "run_state (handle P raw) s = (Inr d, u)"
    using plain [of 500] by (auto simp: handled_def split: prod.splits sum.splits)
  then show ?thesis using d by blast
qed

text \<open>
  C28. A POST answered with success is on the audit chain: its last record is this request's, with the
  status and the verdict of the answer and the hash that the body carries.
\<close>

theorem success_is_audited:
  assumes "run_state (do_POST P rq) s = (Inr (st, body), t)" "st < 400"
  shows "st = 200 \<and> audits (db t) \<noteq> [] \<and> au_kind (last (audits (db t))) = ''request''
    \<and> au_http_status (last (audits (db t))) = st \<and> au_decision (last (audits (db t))) \<in> {''signed'', ''replayed''}
    \<and> body = [(''tx_hash'', JStr (au_tx_hash (last (audits (db t))))),
              (''replayed'', JBool (au_decision (last (audits (db t))) = ''replayed''))]"
proof -
  obtain raw d u where handle: "run_state (handle P raw) s = (Inr d, u)"
    and decide: "run_state (decide P d) u = (Inr (st, body), t)"
    using post_decided [OF assms] by blast
  obtain x where audit: "run_state (audit P (request_audit P d)) u = (Inr x, t)" and d: "st = d_status d" "body = d_body d"
    using decide assms(2) by (auto simp: decide_def split: prod.splits sum.splits if_splits)
  obtain a where a: "audits (db t) = audits (db u) @ [a]" "au_kind a = or_default (f_kind (request_audit P d)) ''request''"
    "au_decision a = or_default (f_decision (request_audit P d)) ''refused''"
    "au_http_status a = f_http_status (request_audit P d)" "au_tx_hash a = f_tx_hash (request_audit P d)"
    using audit_success [OF audit] by blast
  have "decision_ok d" using handle_shape producesI [OF handle] unfolding yields_def by blast
  then have "hash_answer ''signed'' d \<or> hash_answer ''replayed'' d"
    using assms(2) d by (auto simp: decision_ok_def refusal_def)
  then show ?thesis
    using a d by (auto simp: request_audit_def hash_answer_def or_default_def)
qed

theorem success_is_audited_witness:
  "au_kind (last (audits (db posted))) = ''request'' \<and> au_http_status (last (audits (db posted))) = 200"
  using success_is_audited [OF sample_posted(1)] by simp

text \<open>
  No GET writes: whatever the path, the tables, the RPC pool, the readiness and the records of the
  key are as before.
\<close>

theorem get_changes_nothing:
  fixes s :: "'z signer_state_scheme"
  shows "(let t = snd (run_state (do_GET P path) s) in
     db t = db s \<and> exchanges t = exchanges s \<and> v1_escrows t = v1_escrows s \<and> ready t = ready s
     \<and> chain_ok_until t = chain_ok_until s \<and> signed_txs t = signed_txs s \<and> sent_txs t = sent_txs s)"
proof -
  let ?f = "\<lambda>s. (db s, books.more s)"
  have reads: "state_io_rel (same ?f) get_db" "state_io_rel (same ?f) (wall E)" for E :: "'e signer_env_scheme"
    unfolding get_db_def wall_def read_clock_def by (auto simp: state_io_rel_def same_def)
  have "state_io_rel (same ?f) (do_GET P path :: ('z signer_state_scheme, response) py)"
    unfolding do_GET_def stats_def by (intro io_intros io_two_segments reads)
  from state_io_rel_same [OF this prod.collapse [symmetric]]
  have "db (snd (run_state (do_GET P path) s)) = db s" "books.more (snd (run_state (do_GET P path) s)) = books.more s"
    by simp_all
  then show ?thesis
    by (cases "snd (run_state (do_GET P path) s)"; cases s; simp)
qed

end
