(* ===== verification/Migration.thy ===== *)
theory Migration
  imports "HOL-Library.Multiset" Ledger_History
begin

text \<open>
  \<open>migrations/001_narrow_chain_rebaseline.py\<close>: the script that re-tags spend rows hashed under the
  retired wide rule, run by hand on the database of a stopped signer. \<open>main\<close> is \<open>rebaseline\<close>: its
  result is the exit status, or the exception that leaves it, with the database it leaves.
\<close>

section \<open>The two rules\<close>

definition narrow_payload :: "'r spend_row_scheme \<Rightarrow> payload" where
  "narrow_payload r = spend_payload r"

text \<open>\<open>WIDE_EXTRA\<close> with the values of the row, and the hardcoded state.\<close>

definition wide_extra :: "'r spend_row_scheme \<Rightarrow> payload" where
  "wide_extra r =
     [(''gas_limit'', SInt (gas_limit r)), (''hub_gas_hint'', SInt (hub_gas_hint r)),
      (''max_fee_wei'', SInt (max_fee_wei r)), (''account_nonce'', SInt (account_nonce r))]"

definition wide_payload :: "'r spend_row_scheme \<Rightarrow> payload" where
  "wide_payload r = spend_payload r @ wide_extra r @ [(''state'', SStr ''reserved'')]"

definition wide_tag :: "hashfn \<Rightarrow> db_row \<Rightarrow> string" where
  "wide_tag H r = row_hash H (or_default (prev_row_hash r) genesis) (wide_payload r)"

section \<open>The plan\<close>

text \<open>An element of \<open>plan\<close>, and the loop that builds it; \<open>None\<close> is the exit with status 2.\<close>

record retag =
  rt_seq :: int
  rt_chain_id :: int
  rt_escrow :: string
  rt_receipt_id :: string
  rt_channel_id :: string
  rt_amount :: int
  rt_prev :: string
  rt_new :: string

definition retag_of :: "string \<Rightarrow> string \<Rightarrow> db_row \<Rightarrow> retag" where
  "retag_of head new r =
     \<lparr>rt_seq = seq r, rt_chain_id = chain_id r, rt_escrow = escrow r, rt_receipt_id = receipt_id r,
      rt_channel_id = channel_id r, rt_amount = amount_units r, rt_prev = head, rt_new = new\<rparr>"

fun retag_plan :: "hashfn \<Rightarrow> string \<Rightarrow> db_row list \<Rightarrow> (string \<times> retag list) option" where
  "retag_plan H head [] = Some (head, [])"
| "retag_plan H head (r # rs) =
     (let narrow = row_hash H head (narrow_payload r) in
      if row_tag r = narrow then retag_plan H narrow rs
      else if row_tag r \<noteq> wide_tag H r then None
      else map_option (\<lambda>(h, plan). (h, retag_of head narrow r # plan)) (retag_plan H narrow rs))"

section \<open>Applying it\<close>

text \<open>\<open>UPDATE spend SET row_hash = ?, prev_row_hash = ? WHERE seq = ?\<close>.\<close>

definition retag_row :: "retag \<Rightarrow> db_row \<Rightarrow> db_row" where
  "retag_row p r = (if seq r = rt_seq p then r\<lparr>row_tag := rt_new p, prev_row_hash := rt_prev p\<rparr> else r)"

definition apply_plan :: "retag list \<Rightarrow> db_row list \<Rightarrow> db_row list" where
  "apply_plan plan rows = fold (\<lambda>p. map (retag_row p)) plan rows"

definition audit_tail :: "ledger_db \<Rightarrow> string \<times> int" where
  "audit_tail d =
     (audit_head d, case map au_seq (audits d) of [] \<Rightarrow> 0 | n # ns \<Rightarrow> foldl max n ns)"

definition migration_reason :: "nat \<Rightarrow> string" where
  "migration_reason n =
     ''001_narrow_chain_rebaseline: re-tagged '' @ int_str (int n) @ '' row(s) verified under the wide rule''"

definition migration_record :: "db_row \<Rightarrow> nat \<Rightarrow> ledger_db \<Rightarrow> audit_row" where
  "migration_record lst n d =
     (case audit_tail d of (a_head, a_seq) \<Rightarrow>
       \<lparr>au_seq = a_seq + 1, au_ts = ts lst, au_kind = ''migration'', au_decision = ''rebaseline'',
        au_http_status = 0, au_reason_code = migration_reason n, au_chain_id = Some (chain_id lst),
        au_escrow = Some (escrow lst), au_receipt_id = Some [], au_channel_id = Some [],
        au_amount_units = Some 0, au_digest16 = [], au_tx_hash = [], au_prev_hash = a_head,
        au_row_hash = []\<rparr>)"

text \<open>The statements between \<open>BEGIN IMMEDIATE\<close> and \<open>COMMIT\<close>; \<open>None\<close> is a binding that raises.\<close>

definition write_plan :: "hashfn \<Rightarrow> db_row list \<Rightarrow> string \<Rightarrow> retag list \<Rightarrow> ledger_db \<Rightarrow> ledger_db option" where
  "write_plan H rows head plan d =
     (let d1 = d\<lparr>spend := apply_plan plan (spend d), spend_head := head\<rparr>;
          a = migration_record (last rows) (length plan) d1;
          a_hash = row_hash H (audit_head d1) (audit_payload a)
      in if \<not> sql_int (au_seq a) then None
         else Some (d1\<lparr>audits := audits d1 @ [a\<lparr>au_row_hash := a_hash\<rparr>], audit_head := a_hash\<rparr>))"

text \<open>
  \<open>begins\<close> says whether \<open>BEGIN IMMEDIATE\<close> gets the write lock. When it does not, the handler's
  \<open>ROLLBACK\<close> has no transaction to undo and raises in its turn.
\<close>

definition rebaseline :: "hashfn \<Rightarrow> bool \<Rightarrow> bool \<Rightarrow> ledger_db \<Rightarrow> (exn + int) \<times> ledger_db" where
  "rebaseline H apply begins d =
     (let rows = sort_key seq (spend d) in
      case retag_plan H genesis rows of
        None \<Rightarrow> (Inr 2, d)
      | Some (head, plan) \<Rightarrow>
          if plan = [] then (Inr 0, d)
          else if \<not> apply then (Inr 0, d)
          else if \<not> begins then (Inl SqliteError, d)
          else (case write_plan H rows head plan d of
                  None \<Rightarrow> (Inr 1, d)
                | Some d' \<Rightarrow> (Inr 0, d')))"

section \<open>What the plan does to the rows\<close>

lemma retag_row_frame [simp]:
  "seq (retag_row p r) = seq r" "spend_payload (retag_row p r) = spend_payload r"
  by (simp_all add: retag_row_def spend_payload_def)

text \<open>The row a whole plan makes of one row.\<close>

definition retagged :: "retag list \<Rightarrow> db_row \<Rightarrow> db_row" where
  "retagged plan = fold retag_row plan"

lemma retagged_frame [simp]:
  "seq (retagged plan r) = seq r" "spend_payload (retagged plan r) = spend_payload r"
  by (induction plan arbitrary: r) (simp_all add: retagged_def)

lemma apply_plan_map: "apply_plan plan rows = map (retagged plan) rows"
  by (induction plan arbitrary: rows) (simp_all add: apply_plan_def retagged_def)

lemma retagged_other: "seq r \<notin> rt_seq ` set plan \<Longrightarrow> retagged plan r = r"
  by (induction plan) (auto simp: retagged_def retag_row_def)

lemma retagged_Cons: "retagged (p # plan) r = retagged plan (retag_row p r)"
  by (simp add: retagged_def)

lemma plan_seqs: "retag_plan H head rs = Some (h, plan) \<Longrightarrow> rt_seq ` set plan \<subseteq> seq ` set rs"
  by (induction rs arbitrary: head plan)
    (fastforce simp: Let_def retag_of_def split: if_splits)+

lemma plan_verifies:
  assumes "retag_plan H head rs = Some (h, plan)" "distinct (map seq rs)"
  shows "verify_chain H spend_payload row_tag head (map (retagged plan) rs) = Inr h"
  using assms
proof (induction rs arbitrary: head plan)
  case (Cons r rs)
  let ?n = "row_hash H head (spend_payload r)"
  have fresh: "seq r \<notin> seq ` set rs" and dist: "distinct (map seq rs)" using Cons.prems(2) by auto
  have other: "seq x \<noteq> seq r" if "x \<in> set rs" for x using that fresh by (metis imageI)
  show ?case
  proof (cases "row_tag r = ?n")
    case True
    then have plan: "retag_plan H ?n rs = Some (h, plan)" using Cons.prems(1) by (simp add: narrow_payload_def)
    then have "retagged plan r = r" using plan_seqs fresh by (intro retagged_other) blast
    then show ?thesis using Cons.IH [OF plan dist] True by simp
  next
    case False
    then obtain q where plan: "retag_plan H ?n rs = Some (h, q)" and eq: "plan = retag_of head ?n r # q"
      using Cons.prems(1) by (auto simp: Let_def narrow_payload_def split: if_splits)
    have "retagged plan r = retag_row (retag_of head ?n r) r"
      unfolding eq retagged_Cons using plan_seqs [OF plan] fresh by (intro retagged_other) auto
    then have tag: "row_tag (retagged plan r) = ?n" by (simp add: retag_row_def retag_of_def)
    have rest: "map (retagged plan) rs = map (retagged q) rs"
      using other by (simp add: eq retagged_Cons retag_row_def retag_of_def)
    show ?thesis using Cons.IH [OF plan dist] by (simp add: tag rest)
  qed
qed simp

text \<open>A chain that verifies needs no plan, and a plan without elements means the chain verifies.\<close>

lemma verified_plan: "verify_chain H spend_payload row_tag head rs = Inr h \<Longrightarrow> retag_plan H head rs = Some (h, [])"
  by (induction rs arbitrary: head) (auto simp: Let_def narrow_payload_def split: if_splits)

lemma map_retagged_Nil: "map (retagged []) rs = rs"
  by (simp add: retagged_def)

lemma plan_authentic:
  assumes "retag_plan H head rs = Some (h, plan)" "p \<in> set plan"
  shows "\<exists>r \<in> set rs. seq r = rt_seq p \<and> row_tag r = wide_tag H r"
  using assms
  by (induction rs arbitrary: head plan) (fastforce simp: Let_def retag_of_def split: if_splits)+

lemma plan_refuses:
  "retag_plan H head rs = None \<Longrightarrow> \<exists>r \<in> set rs. row_tag r \<noteq> wide_tag H r"
  by (induction rs arbitrary: head) (auto simp: Let_def split: if_splits)

lemma sort_key_map:
  fixes k :: "'a \<Rightarrow> int"
  assumes "\<And>x. k (f x) = k x"
  shows "sort_key k (map f xs) = map f (sort_key k xs)"
proof -
  have "insort_key k (f x) (map f ys) = map f (insort_key k x ys)" for x ys
    by (induction ys) (simp_all add: assms)
  then show ?thesis by (induction xs) simp_all
qed

lemma sort_key_last:
  fixes k :: "'a \<Rightarrow> int"
  assumes "\<And>x. x \<in> set xs \<Longrightarrow> k x \<le> k a"
  shows "sort_key k (xs @ [a]) = sort_key k xs @ [a]"
proof (rule properties_for_sort_key)
  show "filter (\<lambda>x. k b = k x) (sort_key k xs @ [a]) = filter (\<lambda>x. k b = k x) (xs @ [a])" for b
    using sort_key_stable [of k "k b" xs] by (simp add: eq_commute)
qed (use assms in \<open>auto simp: sorted_append\<close>)

lemma audit_tail_above: "a \<in> set (audits d) \<Longrightarrow> au_seq a \<le> snd (audit_tail d)"
  by (cases "audits d") (auto simp: audit_tail_def foldl_max_le)


lemma retagged_content [simp]: "to_row (retagged plan r) = to_row r"
proof -
  have "to_row (retag_row p r) = to_row r" for p r
    by (simp add: retag_row_def to_row_def spend_row.truncate_def)
  then show ?thesis by (induction plan arbitrary: r) (simp_all add: retagged_def)
qed

section \<open>What the migration leaves\<close>

lemma rebaseline_cases:
  assumes "rebaseline H ap begins d = (r, d')"
  obtains (unchanged) "d' = d" "r = Inr 0 \<Longrightarrow> ap \<Longrightarrow> \<exists>h. retag_plan H genesis (sort_key seq (spend d)) = Some (h, [])"
  | (applied) head plan where "ap" "begins" "r = Inr 0" "plan \<noteq> []"
      "retag_plan H genesis (sort_key seq (spend d)) = Some (head, plan)"
      "write_plan H (sort_key seq (spend d)) head plan d = Some d'"
  using assms by (auto simp: rebaseline_def Let_def split: option.splits if_splits)

lemma migration_record_fields [simp]:
  "au_seq (migration_record l n d) = snd (audit_tail d) + 1" "au_kind (migration_record l n d) = ''migration''"
  "au_decision (migration_record l n d) = ''rebaseline''" "au_reason_code (migration_record l n d) = migration_reason n"
  "migration_record l n (d\<lparr>spend := rs, spend_head := h\<rparr>) = migration_record l n d"
  by (simp_all add: migration_record_def audit_tail_def)

lemma write_plan_fields:
  assumes "write_plan H rows head plan d = Some d'"
  shows "spend d' = map (retagged plan) (spend d)" "spend_head d' = head"
    "\<exists>a. audits d' = audits d @ [a\<lparr>au_row_hash := audit_head d'\<rparr>] \<and> au_seq a = snd (audit_tail d) + 1
       \<and> audit_head d' = row_hash H (audit_head d) (audit_payload a)
       \<and> au_kind a = ''migration'' \<and> au_decision a = ''rebaseline'' \<and> au_reason_code a = migration_reason (length plan)"
    "d'\<lparr>spend := spend d, spend_head := spend_head d, audits := audits d, audit_head := audit_head d\<rparr> = d"
proof -
  let ?a = "migration_record (last rows) (length plan) d"
  have eq: "d' = d\<lparr>spend := map (retagged plan) (spend d), spend_head := head,
      audits := audits d @ [?a\<lparr>au_row_hash := row_hash H (audit_head d) (audit_payload ?a)\<rparr>],
      audit_head := row_hash H (audit_head d) (audit_payload ?a)\<rparr>"
    using assms by (simp add: write_plan_def Let_def apply_plan_map split: if_splits)
  show "spend d' = map (retagged plan) (spend d)" "spend_head d' = head"
    "d'\<lparr>spend := spend d, spend_head := spend_head d, audits := audits d, audit_head := audit_head d\<rparr> = d"
    by (simp_all add: eq)
  show "\<exists>a. audits d' = audits d @ [a\<lparr>au_row_hash := audit_head d'\<rparr>] \<and> au_seq a = snd (audit_tail d) + 1
       \<and> audit_head d' = row_hash H (audit_head d) (audit_payload a)
       \<and> au_kind a = ''migration'' \<and> au_decision a = ''rebaseline'' \<and> au_reason_code a = migration_reason (length plan)"
    by (intro exI [of _ ?a]) (simp add: eq)
qed

lemma verify_audit_append:
  assumes "verify_audit H d = Inr h" "au_seq a = snd (audit_tail d) + 1"
    and "audits d' = audits d @ [a\<lparr>au_row_hash := row_hash H h (audit_payload a)\<rparr>]"
  shows "verify_audit H d' = Inr (row_hash H h (audit_payload a))"
proof -
  have "sort_key au_seq (audits d') =
      sort_key au_seq (audits d) @ [a\<lparr>au_row_hash := row_hash H h (audit_payload a)\<rparr>]"
    unfolding assms(3) using audit_tail_above assms(2) by (intro sort_key_last) fastforce
  moreover have "audit_payload (a\<lparr>au_row_hash := x\<rparr>) = audit_payload a" for x
    by (simp add: audit_payload_def)
  ultimately show ?thesis using assms(1) by (simp add: verify_audit_def)
qed

text \<open>
  C24. An exit with status 0 after \<open>--apply\<close> leaves books that a signer accepts: the spend chain
  verifies, with the stored head where anything was written, the audit chain verifies if it did
  before, and a second run finds nothing to do.
\<close>

theorem migrated_books_verify:
  assumes "rebaseline H True begins d = (Inr 0, d')" "distinct (map seq (spend d))"
  shows "(\<exists>h. verify_spend H d' = Inr h \<and> (d' = d \<or> spend_head d' = h))
    \<and> (verify_audit H d = Inr (audit_head d) \<longrightarrow> verify_audit H d' = Inr (audit_head d'))
    \<and> rebaseline H True begins' d' = (Inr 0, d')"
proof -
  have rest: "rebaseline H True begins' d' = (Inr 0, d')" if "verify_spend H d' = Inr h" for h
    using verified_plan that by (simp add: rebaseline_def verify_spend_def)
  have dist: "distinct (map seq (sort_key seq (spend d)))"
    using assms(2) by (simp add: distinct_map)
  show ?thesis
    using assms(1)
  proof (cases rule: rebaseline_cases)
    case unchanged
    then obtain h where "retag_plan H genesis (sort_key seq (spend d)) = Some (h, [])" by blast
    from plan_verifies [OF this dist] have "verify_spend H d' = Inr h"
      by (simp add: unchanged(1) verify_spend_def map_retagged_Nil)
    then show ?thesis using rest unchanged(1) by blast
  next
    case (applied head plan)
    have "verify_spend H d' = Inr head"
      using plan_verifies [OF applied(5) dist]
      by (simp add: verify_spend_def write_plan_fields(1) [OF applied(6)] sort_key_map)
    moreover have "verify_audit H d' = Inr (audit_head d')" if "verify_audit H d = Inr (audit_head d)"
      using write_plan_fields(3) [OF applied(6)] verify_audit_append [OF that] by metis
    ultimately show ?thesis using rest write_plan_fields(2) [OF applied(6)] by blast
  qed
qed

text \<open>
  C23. The safety property the script states for itself: nothing of a row changes but its tag and
  link, and those only if the stored tag was right under the rule that wrote it; the rest of the
  database keeps its content but for one audit row that names the migration. Any exit but 0, and
  every run without \<open>--apply\<close>, writes nothing.
\<close>

theorem migration_retags_only_authentic:
  assumes "rebaseline H ap begins d = (r, d')" "distinct (map seq (spend d))"
  shows "list_all2 (\<lambda>x y. to_row y = to_row x \<and> (y \<noteq> x \<longrightarrow> row_tag x = wide_tag H x)) (spend d) (spend d')
    \<and> d'\<lparr>spend := spend d, spend_head := spend_head d, audits := audits d, audit_head := audit_head d\<rparr> = d
    \<and> (r \<noteq> Inr 0 \<or> \<not> ap \<longrightarrow> d' = d)
    \<and> (d' = d \<or> (\<exists>a. audits d' = audits d @ [a] \<and> au_kind a = ''migration'' \<and> au_decision a = ''rebaseline''))"
  using assms(1)
proof (cases rule: rebaseline_cases)
  case unchanged
  then show ?thesis by (simp add: list_all2_same)
next
  case (applied head plan)
  have "row_tag x = wide_tag H x" if "x \<in> set (spend d)" "retagged plan x \<noteq> x" for x
  proof -
    have "seq x \<in> rt_seq ` set plan" using that(2) retagged_other by blast
    then obtain p where "p \<in> set plan" "seq x = rt_seq p" by auto
    with plan_authentic [OF applied(5)] obtain y where y: "y \<in> set (spend d)" "seq y = seq x" "row_tag y = wide_tag H y"
      by auto
    then have "y = x" using assms(2) that(1) by (metis distinct_map_inj)
    with y show ?thesis by simp
  qed
  then have "list_all2 (\<lambda>x y. to_row y = to_row x \<and> (y \<noteq> x \<longrightarrow> row_tag x = wide_tag H x)) (spend d) (spend d')"
    by (auto simp: write_plan_fields(1) [OF applied(6)] list.rel_map intro!: list.rel_refl_strong)
  moreover have "\<exists>a. audits d' = audits d @ [a] \<and> au_kind a = ''migration'' \<and> au_decision a = ''rebaseline''"
    using write_plan_fields(3) [OF applied(6)] by force
  ultimately show ?thesis using write_plan_fields(4) [OF applied(6)] applied(1,3) by simp
qed

text \<open>Books whose rows are well-formed and whose audit chain verifies come out of it as a sound file.\<close>

lemma migrated_rows_ok:
  assumes "rows_ok d" "spend d' = map (retagged plan) (spend d)" "max_seq d' = max_seq d" "max_ts d' = max_ts d"
  shows "rows_ok d'"
proof -
  have same: "seq (retagged plan r) = seq r" "ts (retagged plan r) = ts r" "row_key (retagged plan r) = row_key r"
    "nonce_slot (retagged plan r) = nonce_slot r" "row_state (retagged plan r) = row_state r" for r
    using retagged_content [of plan r]
    by (simp_all add: to_row_def spend_row.truncate_def row_key_def nonce_slot_def)
  have "filter (\<lambda>r. row_state r \<noteq> Dead) (map (retagged plan) (spend d))
      = map (retagged plan) (filter (\<lambda>r. row_state r \<noteq> Dead) (spend d))"
    by (simp add: filter_map comp_def same)
  then show ?thesis using assms by (simp add: rows_ok_def nonce_index_ok_def comp_def same)
qed

lemma migrated_rows:
  assumes "rebaseline H True begins d = (Inr 0, d')" "rows_ok d"
  shows "rows_ok d' \<and> map to_row (spend d') = map to_row (spend d)"
  using assms(1)
proof (cases rule: rebaseline_cases)
  case (applied head plan)
  note fields = write_plan_fields [OF applied(6)]
  have "max_seq d' = max_seq d" "max_ts d' = max_ts d"
    using arg_cong [OF fields(4), of max_seq] arg_cong [OF fields(4), of max_ts] by simp_all
  then show ?thesis using migrated_rows_ok [OF assms(2) fields(1)] fields(1) by simp
qed (use assms(2) in simp_all)

lemma migrated_sound:
  assumes "rebaseline H True begins d = (Inr 0, d')" "d' \<noteq> d" "rows_ok d"
    and "sorted_wrt (<) (map au_seq (audits d))" "verify_audit H d = Inr (audit_head d)"
  shows "rows_ok d' \<and> chains_ok H d' \<and> map to_row (spend d') = map to_row (spend d)"
  using assms(1)
proof (cases rule: rebaseline_cases)
  case (applied head plan)
  note fields = write_plan_fields [OF applied(6)]
  have sorted: "sorted_wrt (<) (map seq (spend d))" using assms(3) by (simp add: rows_ok_def)
  then have order: "sort_key seq (spend d) = spend d" by (rule sort_key_sorted)
  have dist: "distinct (map seq (spend d))" using sorted by (simp add: strict_sorted_iff)
  have spend: "verify_chain H spend_payload row_tag genesis (spend d') = Inr (spend_head d')"
    using plan_verifies [OF applied(5)] dist by (simp add: order fields(1,2))
  obtain a where a: "audits d' = audits d @ [a\<lparr>au_row_hash := audit_head d'\<rparr>]" "au_seq a = snd (audit_tail d) + 1"
    "audit_head d' = row_hash H (audit_head d) (audit_payload a)"
    using fields(3) by blast
  have asorted: "sorted_wrt (<) (map au_seq (audits d'))"
    using assms(4) audit_tail_above a(1,2) by (fastforce simp: sorted_wrt_append)
  have "verify_audit H d' = Inr (audit_head d')"
    using verify_audit_append [OF assms(5) a(2)] a(1,3) by simp
  then have "verify_chain H audit_payload au_row_hash genesis (audits d') = Inr (audit_head d')"
    using sort_key_sorted [OF asorted] by (simp add: verify_audit_def)
  moreover have "max_seq d' = max_seq d" "max_ts d' = max_ts d"
    using arg_cong [OF fields(4), of max_seq] arg_cong [OF fields(4), of max_ts] by simp_all
  ultimately show ?thesis
    using migrated_rows_ok [OF assms(3) fields(1)] spend asorted fields(1) by (simp add: chains_ok_def)
qed (use assms(2) in simp)

section \<open>What the migration accepts and refuses\<close>

lemma wide_migrates:
  assumes "\<And>r. r \<in> set (spend d) \<Longrightarrow> row_tag r = wide_tag H r" "sql_int (snd (audit_tail d) + 1)"
  obtains e where "rebaseline H True True d = (Inr 0, e)"
proof -
  let ?rs = "sort_key seq (spend d)"
  have "row_tag r = wide_tag H r" if "r \<in> set ?rs" for r using that assms(1) by simp
  then obtain head plan where "retag_plan H genesis ?rs = Some (head, plan)"
    using plan_refuses by (cases "retag_plan H genesis ?rs") fastforce+
  then have "\<exists>e. rebaseline H True True d = (Inr 0, e)"
    using assms(2)
    by (simp add: rebaseline_def write_plan_def Let_def migration_record_def audit_tail_def)
  then show thesis using that by blast
qed

text \<open>
  C39. Each wide row is checked against the link stored in the row itself, and that link against
  nothing. So from books of authentic wide rows any rows can be removed: the migration re-tags what
  is left, and the books pass the integrity check, which would have refused them before and
  refuses such a removal from narrow books.
\<close>

theorem migration_accepts_removed_rows:
  assumes "\<And>r. r \<in> set (spend d) \<Longrightarrow> row_tag r = wide_tag H r" "distinct (map seq (spend d))"
    and "spend d' = filter P (spend d)" "sql_int (snd (audit_tail d') + 1)"
  shows "\<exists>e h. rebaseline H True True d' = (Inr 0, e)
    \<and> map to_row (spend e) = map to_row (filter P (spend d)) \<and> verify_spend H e = Inr h"
proof -
  obtain e where e: "rebaseline H True True d' = (Inr 0, e)"
    by (rule wide_migrates [of d' H]) (use assms(1,3,4) in auto)
  have dist: "distinct (map seq (spend d'))"
    using assms(2,3) by (simp add: distinct_map_filter)
  have "map to_row (spend e) = map to_row (spend d')"
    using e by (cases rule: rebaseline_cases) (simp_all add: write_plan_fields(1))
  then show ?thesis using migrated_books_verify [OF e dist] e assms(3) by auto
qed

definition wide_keys :: "string list" where
  "wide_keys =
     spend_keys @ [''gas_limit'', ''hub_gas_hint'', ''max_fee_wei'', ''account_nonce'', ''state'']"

interpretation wide_chain: hash_chain "wide_payload :: db_row \<Rightarrow> payload" row_tag wide_keys
  by unfold_locales (simp_all add: wide_payload_def wide_extra_def spend_payload_def wide_keys_def spend_keys_def)

lemma revived_link:
  "prev_row_hash (revive_row hint a n r) = prev_row_hash r" "row_tag (revive_row hint a n r) = row_tag r"
  "spend_payload (revive_row hint a n r) = spend_payload r" "account_nonce (revive_row hint a n r) = n"
  by (simp_all add: revive_row_def spend_payload_def)

lemma wide_tag_binds_nonce:
  assumes "account_nonce r \<noteq> n" "CHR ''{'' \<notin> set (prev_row_hash r)"
    and "inj_on H {link_input (or_default (prev_row_hash r) genesis) (wide_payload x) | x. x = r \<or> x = revive_row hint a n r}"
  shows "wide_tag H (revive_row hint a n r) \<noteq> wide_tag H r"
proof
  let ?p = "or_default (prev_row_hash r) genesis" and ?r = "revive_row hint a n r"
  assume "wide_tag H ?r = wide_tag H r"
  then have "H (link_input ?p (wide_payload ?r)) = H (link_input ?p (wide_payload r))"
    by (simp add: wide_tag_def row_hash_link revived_link)
  then have "link_input ?p (wide_payload ?r) = link_input ?p (wide_payload r)"
    by (rule inj_onD [OF assms(3)]) blast+
  moreover have "CHR ''{'' \<notin> set ?p" using assms(2) no_brace_genesis by (simp add: or_default_def)
  ultimately have "wide_payload ?r = wide_payload r"
    using link_input_inject wide_chain.payload_inject by blast
  then show False using assms(1) by (simp add: wide_payload_def wide_extra_def revived_link)
qed

lemma plan_head:
  "retag_plan H h rs = Some (h', plan) \<Longrightarrow> h' = chain_head H spend_payload h rs"
  by (induction rs arbitrary: h plan) (auto simp: Let_def narrow_payload_def split: if_splits)

lemma plan_append_None:
  assumes "row_tag r \<noteq> row_hash H (chain_head H spend_payload h pre) (spend_payload r)" "row_tag r \<noteq> wide_tag H r"
  shows "retag_plan H h (pre @ r # rs) = None"
  using assms by (induction pre arbitrary: h) (auto simp: Let_def narrow_payload_def)

text \<open>
  C40. "It uses the insert-time values for the mutable fields": the script reads the current ones. A
  row written under the wide rule and revived by \<open>reserve\<close> since, with a fresh account nonce, is
  therefore refused as tampering together with the rest of its books, although every statement that
  touched it was the signer's own (unless \<open>keccak\<close> collides).
\<close>

theorem migration_refuses_revived_row:
  assumes "sort_key seq (spend d) = pre @ revive_row hint a n r # rs"
    and "row_tag r = wide_tag H r" "row_tag r \<noteq> row_hash H (chain_head H spend_payload genesis pre) (spend_payload r)"
    and "account_nonce r \<noteq> n" "CHR ''{'' \<notin> set (prev_row_hash r)"
    and "inj_on H {link_input (or_default (prev_row_hash r) genesis) (wide_payload x) | x. x = r \<or> x = revive_row hint a n r}"
  shows "rebaseline H ap begins d = (Inr 2, d)"
proof -
  have "retag_plan H genesis (pre @ revive_row hint a n r # rs) = None"
    using assms(2,3) wide_tag_binds_nonce [OF assms(4,5,6)]
    by (intro plan_append_None) (simp_all add: revived_link)
  then show ?thesis by (simp add: rebaseline_def assms(1))
qed

section \<open>Books the old rule wrote\<close>

definition wide_row :: "string \<Rightarrow> int \<Rightarrow> db_row" where
  "wide_row prev n =
     (let r = \<lparr>chain_id = 8453, escrow = ''0xe5'', receipt_id = ''0x0'' @ int_str n, seq = n,
               ts = 1000000 + n, channel_id = ''0xc1'', depositor = ''0xd1'', token = ''0x70'',
               amount_units = 10000, deadline = 1000500, channel_nonce = n, calldata_keccak = ''0xcc'',
               to_addr = ''0xe5'', gas_limit = 200000, hub_gas_hint = 180000, max_fee_wei = 1000,
               account_nonce = n, from_addr = ''0xaa'', row_state = Dead, tx_hash = ''0x11'',
               fee_wei_spent = 7, dead_reason = [], prev_row_hash = prev, row_tag = []\<rparr>
      in r\<lparr>row_tag := wide_tag toy_hash r\<rparr>)"

definition wide_books :: ledger_db where
  "wide_books =
     (let r1 = wide_row genesis 1; r2 = wide_row (row_tag r1) 2; r3 = wide_row (row_tag r2) 3
      in empty_db\<lparr>spend := [r1, r2, r3], max_seq := 3, max_ts := 1000003, spend_head := row_tag r3\<rparr>)"

lemma wide_row_authentic: "row_tag (wide_row p n) = wide_tag toy_hash (wide_row p n)"
  by (simp add: wide_row_def Let_def wide_tag_def wide_payload_def wide_extra_def spend_payload_def)

lemma wide_row_seq [simp]: "seq (wide_row p n) = n"
  by (simp add: wide_row_def Let_def)

lemma wide_books_fields:
  "\<exists>p q. spend wide_books = [wide_row genesis 1, wide_row p 2, wide_row q 3]"
  "audits wide_books = []" "audit_head wide_books = genesis" "max_seq wide_books = 3"
  unfolding wide_books_def Let_def by (simp; blast) (simp_all add: empty_db_def)

lemma wide_books_ok:
  "r \<in> set (spend wide_books) \<Longrightarrow> row_tag r = wide_tag toy_hash r" "map seq (spend wide_books) = [1, 2, 3]"
  "distinct (map seq (spend wide_books))"
  "audit_tail (wide_books\<lparr>spend := rs\<rparr>) = (genesis, 0)" "audit_tail wide_books = (genesis, 0)"
proof -
  obtain p q where rows: "spend wide_books = [wide_row genesis 1, wide_row p 2, wide_row q 3]"
    using wide_books_fields(1) by blast
  show "row_tag r = wide_tag toy_hash r" if "r \<in> set (spend wide_books)"
    using that wide_row_authentic by (auto simp: rows)
  show "map seq (spend wide_books) = [1, 2, 3]" "distinct (map seq (spend wide_books))" by (simp_all add: rows)
qed (simp_all add: audit_tail_def wide_books_fields)

lemma wide_books_migrate:
  obtains e where "rebaseline toy_hash True True wide_books = (Inr 0, e)"
  by (rule wide_migrates [of wide_books toy_hash]) (simp_all add: wide_books_ok sql_int_def)

theorem migrated_books_verify_witness:
  "\<exists>e h. rebaseline toy_hash True True wide_books = (Inr 0, e) \<and> verify_spend toy_hash e = Inr h
     \<and> verify_audit toy_hash e = Inr (audit_head e) \<and> rebaseline toy_hash True False e = (Inr 0, e)"
proof -
  obtain e where e: "rebaseline toy_hash True True wide_books = (Inr 0, e)" by (rule wide_books_migrate)
  have "verify_audit toy_hash wide_books = Inr (audit_head wide_books)"
    by (simp add: verify_audit_def wide_books_fields)
  with migrated_books_verify [OF e wide_books_ok(3), of False] e show ?thesis by blast
qed

theorem migration_retags_only_authentic_witness:
  "\<exists>e. rebaseline toy_hash True True wide_books = (Inr 0, e) \<and> length (spend e) = 3 \<and> max_seq e = 3"
proof -
  obtain e where e: "rebaseline toy_hash True True wide_books = (Inr 0, e)" by (rule wide_books_migrate)
  note migration_retags_only_authentic [OF e wide_books_ok(3)]
  then have "length (spend e) = length (spend wide_books)"
    "max_seq (e\<lparr>spend := spend wide_books, spend_head := spend_head wide_books, audits := audits wide_books,
       audit_head := audit_head wide_books\<rparr>) = max_seq wide_books"
    using list_all2_lengthD by fastforce+
  with e show ?thesis using arg_cong [OF wide_books_ok(2), of length] by (simp add: wide_books_fields)
qed

theorem migration_accepts_removed_rows_witness:
  "\<exists>e h. rebaseline toy_hash True True (wide_books\<lparr>spend := filter (\<lambda>r. seq r \<noteq> 2) (spend wide_books)\<rparr>) = (Inr 0, e)
     \<and> map seq (spend wide_books) = [1, 2, 3] \<and> length (spend e) = 2 \<and> verify_spend toy_hash e = Inr h"
proof -
  let ?d = "wide_books\<lparr>spend := filter (\<lambda>r. seq r \<noteq> 2) (spend wide_books)\<rparr>"
  obtain e h where e: "rebaseline toy_hash True True ?d = (Inr 0, e)" "verify_spend toy_hash e = Inr h"
    and rows: "map to_row (spend e) = map to_row (filter (\<lambda>r. seq r \<noteq> 2) (spend wide_books))"
    using migration_accepts_removed_rows [OF wide_books_ok(1,3), of ?d "\<lambda>r. seq r \<noteq> 2"]
    by (auto simp: wide_books_ok sql_int_def)
  have "length (spend e) = 2"
    using arg_cong [OF rows, of length] wide_books_fields(1) by auto
  with e show ?thesis by (simp add: wide_books_ok(2))
qed

theorem migration_refuses_revived_row_witness:
  "rebaseline toy_hash True True (empty_db\<lparr>spend := [revive_row False sample_args 9 (wide_row genesis 1)]\<rparr>)
     = (Inr 2, empty_db\<lparr>spend := [revive_row False sample_args 9 (wide_row genesis 1)]\<rparr>)"
proof (rule migration_refuses_revived_row [where pre = "[]" and rs = "[]"])
  let ?r = "wide_row genesis 1"
  have "toy_hash (link_input (or_default (prev_row_hash ?r) genesis) (wide_payload ?r))
      \<noteq> toy_hash (link_input (or_default (prev_row_hash ?r) genesis) (wide_payload (revive_row False sample_args 9 ?r)))"
    by code_simp
  then show "inj_on toy_hash {link_input (or_default (prev_row_hash ?r) genesis) (wide_payload x) | x.
      x = ?r \<or> x = revive_row False sample_args 9 ?r}"
    by (auto simp: inj_on_def)
  have "row_tag ?r \<noteq> row_hash toy_hash genesis (spend_payload ?r)" by code_simp
  then show "row_tag ?r \<noteq> row_hash toy_hash (chain_head toy_hash spend_payload genesis []) (spend_payload ?r)"
    by simp
  show "account_nonce ?r \<noteq> 9" "CHR ''{'' \<notin> set (prev_row_hash ?r)"
    by (simp_all add: wide_row_def Let_def no_brace_genesis)
qed (simp_all add: wide_row_authentic)

end
