(* ===== verification/Entry.thy ===== *)
theory Entry
  imports Policy_Sample Session Migration
begin

text \<open>
  \<open>escrow_signer/__main__.py\<close>: the process from its environment variables to its exit status. The
  services it finds around it are those of \<open>W\<close>; \<open>Account.from_key\<close>, the file system under SQLite
  and the requests and sweep turns that arrive are arguments.
\<close>

section \<open>Start\<close>

text \<open>
  \<open>Ledger.__init__\<close>: a database that SQLite cannot open is \<open>LedgerUnavailable\<close>; a new file gets its
  tables, the clock row and the two chain heads; an existing one keeps what it holds.
\<close>

definition open_ledger :: "(string \<Rightarrow> exn + books option) \<Rightarrow> string \<Rightarrow> exn + books" where
  "open_ledger opens path =
     (case opens path of
        Inl e \<Rightarrow> Inl (if e = SqliteError then LedgerUnavailable else e)
      | Inr None \<Rightarrow> Inr \<lparr>db = empty_db, clock_reads = 0, witness_lines = [], witness_tries = 0\<rparr>
      | Inr (Some b) \<Rightarrow> Inr b)"

text \<open>The signer built from the settings: an account is an address and what it signs.\<close>

type_synonym account = "string \<times> (tx_request \<Rightarrow> string + bytes)"

definition deployed :: "signer_env \<Rightarrow> environ \<Rightarrow> settings \<Rightarrow> account \<Rightarrow> signer_env" where
  "deployed W environ s account =
     W\<lparr>witness_path := audit_witness_path s, endpoints := rpc_urls s, environment := environ, conf := s,
       own_address := fst account, sign_tx := snd account\<rparr>"

text \<open>
  \<open>serve_forever\<close> until it is interrupted: what a request or a sweep turn raises ends its thread or its
  turn, not the process.
\<close>

definition serve :: "'e signer_env_scheme \<Rightarrow> session_event list \<Rightarrow> signer_state \<Rightarrow> signer_state" where
  "serve P es s = fold (\<lambda>e s. snd (run_state (run_event P e) s)) es s"

text \<open>
  \<open>main\<close>: the exit status or the exception that ends the process, with the signer and the state it ends
  in once there is one.
\<close>

definition main :: "signer_env \<Rightarrow> (string \<Rightarrow> exn + account) \<Rightarrow> (string \<Rightarrow> exn + books option) \<Rightarrow> environ \<Rightarrow>
    session_event list \<Rightarrow> (exn + int) \<times> (signer_env \<times> signer_state) option" where
  "main W from_key opens environ es =
     (case load environ of
        Inl e \<Rightarrow> (if e = ConfigError then Inr 2 else Inl e, None)
      | Inr s \<Rightarrow>
          (case open_ledger opens (db_path s) of
             Inl e \<Rightarrow> (if e = LedgerUnavailable then Inr 3 else Inl e, None)
           | Inr b \<Rightarrow>
               if rpc_urls s = [] then (Inl ValueError, None)
               else (case from_key (private_key s) of
                  Inl e \<Rightarrow> (Inl e, None)
                | Inr account \<Rightarrow>
                    let P = deployed W environ s account in
                    (case run_state (boot P) (new_signer b) of
                       (Inl e, t) \<Rightarrow> (Inl e, Some (P, t))
                     | (Inr u, t) \<Rightarrow> (Inr 0, Some (P, serve P es t))))))"

text \<open>
  The thread \<open>proceeds-sweep\<close>, when nothing else runs: a turn, a sleep, and again until \<open>stop\<close> is set.
  The list holds what \<open>stop.is_set()\<close> says before each turn; when it ends, so has the process.
\<close>

fun run_sweeps :: "'e signer_env_scheme \<Rightarrow> bool list \<Rightarrow> (signer_state, unit) py" where
  "run_sweeps P [] = ok ()"
| "run_sweeps P (flag # flags) = (if flag then ok () else thenE (sweep_cycle P) (run_sweeps P flags))"

section \<open>What a process does\<close>

lemma serve_simps [simp]:
  "serve P [] s = s" "serve P (es @ [e]) s = snd (run_state (run_event P e) (serve P es s))"
  by (simp_all add: serve_def)

lemma serve_Cons: "serve P (e # es) s = serve P es (snd (run_state (run_event P e) s))"
  by (simp add: serve_def)

lemma run_sweep_cycle: "run_state (sweep_cycle P) s = (Inr (), snd (run_state (sweep_cycle P) s))"
  by (simp add: sweep_cycle_def split: prod.split sum.split)

text \<open>The loop outlives every bad turn: it only ends when it is told to.\<close>

lemma run_sweeps_serves:
  "run_state (run_sweeps P flags) s = (Inr (), serve P (replicate (length (takeWhile Not flags)) Swept) s)"
proof (induction flags arbitrary: s)
  case (Cons flag flags)
  then show ?case using run_sweep_cycle [of P s] by (auto simp: serve_Cons split: prod.split sum.split)
qed simp

lemma serve_event:
  obtains r where "run_state (run_event P e) (serve P es s) = (r, serve P (es @ [e]) s)"
  by (cases "run_state (run_event P e) (serve P es s)") auto

lemma serve_served: "served P s \<Longrightarrow> served P (serve P es s)"
proof (induction es rule: rev_induct)
  case (snoc e es)
  then show ?case using serve_event [of P e es s] by (metis served.event)
qed simp

lemma serve_allowed:
  assumes "served P s" "tx \<in> set (signed_txs (serve P es s))"
  shows "tx \<in> set (signed_txs s) \<or> (\<exists>e \<in> set es. allowed P e tx)"
  using assms(2)
proof (induction es rule: rev_induct)
  case (snoc e es)
  obtain r where run: "run_state (run_event P e) (serve P es s) = (r, serve P (es @ [e]) s)" by (rule serve_event)
  have "vault_step P e (key_use (serve P es s)) (key_use (serve P (es @ [e]) s))"
    by (rule event_vault [OF served_ok [OF serve_served [OF assms(1)]] run])
  then have "tx \<in> set (signed_txs (serve P es s)) \<or> allowed P e tx"
    using snoc.prems by cases auto
  then show ?case using snoc.IH by auto
qed simp

lemma main_starts:
  assumes "main W from_key opens environ es = (c, Some (P, t))"
  obtains s b account r u where "load environ = Inr s" "open_ledger opens (db_path s) = Inr b"
    "from_key (private_key s) = Inr account" "P = deployed W environ s account"
    "run_state (boot P) (new_signer b) = (r, u)"
    "(\<exists>e. r = Inl e \<and> c = Inl e \<and> t = u) \<or> r = Inr () \<and> c = Inr 0 \<and> t = serve P es u"
  using assms
  by (auto simp: main_def Let_def split: sum.splits if_splits prod.splits)

lemma deployed_fields [simp]:
  "conf (deployed W environ s account) = s" "environment (deployed W environ s account) = environ"
  "own_address (deployed W environ s account) = fst account" "own_escrow (deployed W environ s account) = ESCROW environ"
  by (simp_all add: deployed_def own_escrow_def)

lemma loaded_escrow:
  assumes "load environ = Inr s"
  shows "ESCROW environ \<in> snd ` set DEPLOYMENTS"
proof -
  obtain a where "map_of DEPLOYMENTS (DEPLOYMENT environ) = Some a" using load_Inr_conj [OF assms] by auto
  then show ?thesis by (auto simp: ESCROW_def dest!: map_of_SomeD intro: rev_image_eqI)
qed

lemma start_allowed:
  assumes "main W from_key opens environ es = (c, Some (P, t))"
    and "\<And>b. opens (db_path (conf P)) = Inr (Some b) \<Longrightarrow> sound_file P (db b)"
  shows "load environ = Inr (conf P)" "own_escrow P \<in> snd ` set DEPLOYMENTS" "session_ok P t" "vault_ok P t"
    "\<forall>tx \<in> set (signed_txs t). \<exists>e \<in> set es. allowed P e tx" "c = Inr 0 \<and> served P t \<or> (\<exists>e. c = Inl e)"
proof -
  from assms(1) obtain s b account r u where start: "load environ = Inr s" "open_ledger opens (db_path s) = Inr b"
    "P = deployed W environ s account" "run_state (boot P) (new_signer b) = (r, u)"
    and served: "(\<exists>e. r = Inl e \<and> c = Inl e \<and> t = u) \<or> r = Inr () \<and> c = Inr 0 \<and> t = serve P es u"
    by (rule main_starts)
  show "load environ = Inr (conf P)" "own_escrow P \<in> snd ` set DEPLOYMENTS"
    using start(1,3) loaded_escrow by simp_all
  have sound: "sound_file P (db b)"
  proof (cases "opens (db_path s)")
    case (Inr found)
    then show ?thesis
      using start(2,3) assms(2) by (cases found) (auto simp: open_ledger_def sound_new_file)
  qed (use start(2) in \<open>simp add: open_ledger_def\<close>)
  have booted: "session_ok P u" "signed_txs u = []" "sent_txs u = []"
    using boot_session [OF sound start(4)] state_io_rel_same [OF boot_uses_no_key start(4)]
    by (simp_all add: new_signer_def)
  have "session_ok P t \<and> vault_ok P t \<and> (\<forall>tx \<in> set (signed_txs t). \<exists>e \<in> set es. allowed P e tx)
      \<and> (c = Inr 0 \<and> served P t \<or> (\<exists>e. c = Inl e))"
    using served
  proof (elim disjE exE conjE)
    assume ok: "r = Inr ()" "c = Inr 0" "t = serve P es u"
    then have "served P u" using sound start(4) by (blast intro: served.booted)
    then show ?thesis
      using ok(2,3) serve_served serve_allowed booted(2) served_ok served_vault by fastforce
  qed (use booted in \<open>simp add: vault_ok_def\<close>)
  then show "session_ok P t" "vault_ok P t" "\<forall>tx \<in> set (signed_txs t). \<exists>e \<in> set es. allowed P e tx"
    "c = Inr 0 \<and> served P t \<or> (\<exists>e. c = Inl e)"
    by blast+
qed

section \<open>A sample process\<close>

lemma deployed_keccak: "keccak (deployed W environ s account) = keccak W"
  by (simp add: deployed_def)

lemma main_keccak: "main W from_key opens environ es = (c, Some (P, t)) \<Longrightarrow> keccak P = keccak W"
  by (erule main_starts) (simp add: deployed_keccak)

definition sample_process :: signer_env where
  "sample_process = deployed sample_signer sample_environ sample_settings (hub_addr, sample_key)"

lemma sample_process_boots:
  "fst (run_state (boot sample_process) (new_signer sample_books)) = Inr ()"
  by code_simp

lemma sample_main:
  obtains t where "main sample_signer (\<lambda>_. Inr (hub_addr, sample_key)) (\<lambda>_. Inr (Some sample_books)) sample_environ
      [Posted sample_rq, Swept] = (Inr 0, Some (sample_process, t))"
proof -
  have books: "open_ledger (\<lambda>_. Inr (Some sample_books)) path = Inr sample_books" for path
    by (simp add: open_ledger_def)
  have urls: "rpc_urls sample_settings \<noteq> []" by (simp add: sample_settings_def)
  obtain t where run: "run_state (boot sample_process) (new_signer sample_books) = (Inr (), t)"
    using sample_process_boots by (cases "run_state (boot sample_process) (new_signer sample_books)") auto
  have "main sample_signer (\<lambda>_. Inr (hub_addr, sample_key)) (\<lambda>_. Inr (Some sample_books)) sample_environ [Posted sample_rq, Swept]
      = (Inr 0, Some (sample_process, serve sample_process [Posted sample_rq, Swept] t))"
    using run by (simp add: main_def load_sample books urls sample_process_def Let_def)
  then show thesis by (rule that)
qed

text \<open>
  Nothing is served and no database is touched unless the configuration loads: a refused
  configuration ends the process with status 2, a database that cannot be opened with status 3, and
  no other status comes before serving.
\<close>

theorem main_exit_status:
  "(fst (main W from_key opens environ es) = Inr 2) = (load environ = Inl ConfigError)
    \<and> (fst (main W from_key opens environ es) = Inr 3)
        = (\<exists>s. load environ = Inr s \<and> open_ledger opens (db_path s) = Inl LedgerUnavailable)
    \<and> main W from_key opens environ es \<noteq> (Inr 0, None)"
  by (auto simp: main_def Let_def split: sum.splits if_splits prod.splits)

end
