(* ===== verification/Signing_Lock.thy ===== *)
theory Signing_Lock
  imports Policy_Props Entry Locks
begin

text \<open>
  \<open>signing_lock\<close> of \<open>escrow_signer/server.py\<close>: the threads of the HTTP server and the thread of the sweep,
  each decision and each sweep turn phase by phase under the one lock they share. Whatever the phases
  are interleaved with, the signer is left as by the events of a session, one after the other.

  The ledger's own lock is nested inside and is the subject of \<open>Locks\<close>; here a phase is one step.
\<close>

section \<open>The phases of a decision\<close>

definition nextC :: "('s, decision + 'a) stmts \<Rightarrow> ('a \<Rightarrow> ('s, decision) stmts) \<Rightarrow> ('s, decision) stmts" where
  "nextC t f = bindC t (\<lambda>r. case r of Inl d \<Rightarrow> gives d | Inr x \<Rightarrow> f x)"

lemma carries_sum [carries_intros]:
  "(\<And>e. carries (f e) (f' e)) \<Longrightarrow> (\<And>x. carries (g x) (g' x)) \<Longrightarrow>
     carries (case v of Inl e \<Rightarrow> f e | Inr x \<Rightarrow> g x) (case v of Inl e \<Rightarrow> f' e | Inr x \<Rightarrow> g' x)"
  by (cases v) simp_all

lemma carries_next [carries_intros]:
  "carries t m \<Longrightarrow> (\<And>x. carries (f x) (g x)) \<Longrightarrow> carries (nextC t f) (andthen m g)"
  unfolding nextC_def andthen_def by (intro carries_intros)

definition signing_phases :: "'e signer_env_scheme \<Rightarrow> tx_request \<Rightarrow> spend_row \<Rightarrow> common \<Rightarrow> ('z signer_state_scheme, decision + string) stmts" where
  "signing_phases P tx row c =
     bindC (stmt (signed_raw P tx row c)) (\<lambda>r.
       case r of
         Inl d \<Rightarrow> gives (Inl d)
       | Inr (raw, h) \<Rightarrow>
           bindC (stmt (broadcast P tx raw h row c)) (\<lambda>q. case q of Inl d \<Rightarrow> gives (Inl d) | Inr u \<Rightarrow> gives (Inr h)))"

definition debit_phases :: "'e signer_env_scheme \<Rightarrow> string \<Rightarrow> bytes \<Rightarrow> int \<Rightarrow> string \<Rightarrow> ('z signer_state_scheme, decision) stmts" where
  "debit_phases P addr data gas_hint digest16 =
     nextC (stmt (debit_shape P data gas_hint digest16)) (\<lambda>call.
     let c = debit_common digest16 call in
     nextC (stmt (debit_replay P addr data c)) (\<lambda>_.
     nextC (stmt (debit_chain P call c)) (\<lambda>ch.
     nextC (stmt (debit_signature P call ch c)) (\<lambda>_.
     nextC (stmt (gas_and_fee P (own_escrow P) data c)) (\<lambda>(gas, max_fee).
     nextC (stmt (debit_reserve P (debit_args P addr data gas_hint call ch c gas max_fee) c)) (\<lambda>row.
     nextC (stmt (simulated P data row c)) (\<lambda>_.
     nextC (signing_phases P (transaction_of P (own_escrow P) data gas max_fee row) row c) (\<lambda>h.
       gives (answer h False ''signed'' c)))))))))"

definition expire_phases :: "'e signer_env_scheme \<Rightarrow> string \<Rightarrow> bytes \<Rightarrow> int \<Rightarrow> string \<Rightarrow> ('z signer_state_scheme, decision) stmts" where
  "expire_phases P addr data gas_hint digest16 =
     (case decode_expire (keccak P) data of
        Inl e \<Rightarrow>
          (case e of
             CalldataError reason \<Rightarrow> gives (refuse 422 reason (no_common\<lparr>c_digest16 := digest16\<rparr>))
           | _ \<Rightarrow> fail e)
      | Inr cid \<Rightarrow>
          let c = \<lparr>c_digest16 = digest16, c_receipt_id = [], c_channel_id = hex0x cid, c_amount = 0\<rparr> in
          if GAS_HARD_CAP < gas_hint then gives (refuse 422 ''hub_gas_anomalous'' c)
          else
            nextC (stmt (expire_replay P cid c)) (\<lambda>_.
            nextC (stmt (expire_chain P cid c)) (\<lambda>ch.
            nextC (stmt (expire_worth P ch c)) (\<lambda>_.
            nextC (stmt (gas_and_fee P (own_escrow P) data c)) (\<lambda>(gas, max_fee).
            nextC (stmt (gas_reserve P (expire_args P addr data cid gas max_fee) c)) (\<lambda>row.
            nextC (stmt (simulated P data row c)) (\<lambda>_.
            nextC (signing_phases P (transaction_of P (own_escrow P) data gas max_fee row) row c) (\<lambda>h.
              gives (answer h False ''signed'' (c\<lparr>c_receipt_id := expire_key P cid\<rparr>))))))))))"

definition request_phases :: "'e signer_env_scheme \<Rightarrow> bytes \<Rightarrow> ('z signer_state_scheme, decision) stmts" where
  "request_phases P raw =
     bindC (stmt get_db) (\<lambda>d.
       if halted d \<noteq> [] then gives (refuse 503 ''clock_regression'' no_common)
       else bindC (stmt (readE ready)) (\<lambda>rdy.
         if \<not> rdy then bindC (stmt (readE not_ready_reason)) (\<lambda>why. gives (refuse 503 (or_default why ''boot_reconciliation'') no_common))
         else (case parse_envelope P raw of
           Inl dec \<Rightarrow> gives dec
         | Inr env \<Rightarrow>
             let data = e_data env; digest16 = take 16 (hex_str (keccak P data)); sel = slice 0 4 data in
             if sel = EXPIRE_SELECTOR (keccak P) then expire_phases P (e_to env) data (e_gas env) digest16
             else if sel \<noteq> DEBIT_SELECTOR (keccak P)
               then gives (refuse 422 ''selector_not_allowed'' (no_common\<lparr>c_digest16 := digest16\<rparr>))
             else debit_phases P (e_to env) data (e_gas env) digest16)))"

text \<open>\<open>do_POST\<close> from the point where the body has been read: the decision, and \<open>_decide\<close>, under the lock.\<close>

definition decision_phases :: "'e signer_env_scheme \<Rightarrow> bytes \<Rightarrow> ('z signer_state_scheme, response) stmts" where
  "decision_phases P raw =
     serialized (bindC (catch (request_phases P raw) (\<lambda>_. gives (plain_refusal 500 ''internal_error'')) gives)
       (\<lambda>d. stmt (decide P d)))"

lemma carries_signing: "carries (signing_phases P tx row c) (sign_and_send P tx row c)"
  unfolding signing_phases_def sign_and_send_def stop_def go_def split_def by (intro carries_intros)

lemma carries_debit: "carries (debit_phases P addr data g h) (handle_debit P addr data g h)"
  unfolding debit_phases_def handle_debit_def Let_def split_def by (intro carries_intros carries_signing)

lemma carries_exn:
  assumes "\<And>r. carries (f r) (f' r)" "\<And>e. carries (g e) (g' e)"
  shows "carries (case x of CalldataError r \<Rightarrow> f r | _ \<Rightarrow> g x) (case x of CalldataError r \<Rightarrow> f' r | _ \<Rightarrow> g' x)"
  using assms by (cases x) simp_all

lemma carries_expire: "carries (expire_phases P addr data g h) (handle_expire P addr data g h)"
proof (cases "decode_expire (keccak P) data")
  case (Inl e)
  then show ?thesis
    unfolding expire_phases_def handle_expire_def by (cases e) (simp_all add: carries_gives carries_fail)
next
  case (Inr cid)
  then show ?thesis
    unfolding expire_phases_def handle_expire_def Let_def split_def
    by (simp only: sum.case) (intro carries_intros carries_signing)
qed

lemma carries_request: "carries (request_phases P raw) (handle P raw)"
  unfolding request_phases_def handle_def dispatch_def Let_def
  by (intro carries_intros carries_debit carries_expire)

lemma carries_decision: "carries (decision_phases P raw) (bindE (handled P raw) (decide P))"
  unfolding decision_phases_def handled_def by (intro carries_intros carries_request)

section \<open>The phases of a sweep turn\<close>

definition nextS :: "('s, decision option + 'a) stmts \<Rightarrow> ('a \<Rightarrow> ('s, decision option) stmts) \<Rightarrow> ('s, decision option) stmts" where
  "nextS t f = bindC t (\<lambda>r. case r of Inl d \<Rightarrow> gives d | Inr x \<Rightarrow> f x)"

lemma carries_nextS [carries_intros]:
  "carries t m \<Longrightarrow> (\<And>x. carries (f x) (g x)) \<Longrightarrow> carries (nextS t f) (andsweep m g)"
  unfolding nextS_def andsweep_def by (intro carries_intros)

definition sweep_phases :: "'e signer_env_scheme \<Rightarrow> ('z signer_state_scheme, decision option) stmts" where
  "sweep_phases P =
     (let to = py_strip (sweep_to (conf P)) in
      bindC (stmt (readE ready)) (\<lambda>rdy.
        if to = [] \<or> \<not> rdy then gives None
        else if py_lower to = py_lower (own_address P) then gives None
        else bindC (stmt get_db) (\<lambda>d.
          bindC (stmt (settle_sweeps P (unresolved d))) (\<lambda>clear.
            if \<not> clear then gives None
            else
              nextS (stmt (sweep_balance P)) (\<lambda>balance.
              bindC (stmt (liftE (encode_transfer (keccak P) to balance))) (\<lambda>data.
              nextS (stmt (sweep_gas P data (sweep_common [] balance))) (\<lambda>(gas, max_fee).
              bindC (stmt (wall P)) (\<lambda>now.
              bindC (stmt (liftE (sweep_key P to now balance))) (\<lambda>rid.
              let c = sweep_common rid balance in
              nextS (stmt (sweep_reserve P (sweep_args P rid data gas max_fee) c)) (\<lambda>row.
              let tx = (transaction_of P TOKEN data gas max_fee row)\<lparr>t_value := 0\<rparr> in
              nextS (stmt (sweep_sign P tx row c)) (\<lambda>(raw, h).
              nextS (stmt (sweep_send P tx raw h row c)) (\<lambda>_.
                stmt (audit_sweep P (swept h to rid balance))))))))))))))"

text \<open>One turn of \<open>run_sweeps\<close>: the lock inside the \<open>try\<close>.\<close>

definition sweep_turn :: "'e signer_env_scheme \<Rightarrow> ('z signer_state_scheme, unit) stmts" where
  "sweep_turn P = catch (serialized (sweep_phases P)) (\<lambda>_. gives ()) (\<lambda>_. gives ())"

lemma carries_sweep: "carries (sweep_phases P) (sweep_proceeds P)"
  unfolding sweep_phases_def sweep_proceeds_def sweep_transfer_def Let_def split_def
  by (intro carries_intros)

lemma carries_turn: "carries (sweep_turn P) (sweep_cycle P)"
  unfolding sweep_turn_def sweep_cycle_def by (intro carries_intros carries_sweep)

section \<open>The signer behind its lock\<close>

text \<open>What waits for the lock: a request whose body has been read, or the sweep.\<close>

datatype lock_call = Decide bytes | Turn

fun run_locked :: "'e signer_env_scheme \<Rightarrow> lock_call \<Rightarrow> ('z signer_state_scheme, response option) py" where
  "run_locked P (Decide raw) = bindE (bindE (handled P raw) (decide P)) (\<lambda>r. ok (Some r))"
| "run_locked P Turn = bindE (sweep_cycle P) (\<lambda>_. ok None)"

fun locked_code :: "'e signer_env_scheme \<Rightarrow> lock_call \<Rightarrow> ('z signer_state_scheme, response option) stmts" where
  "locked_code P (Decide raw) = answering Some (decision_phases P raw)"
| "locked_code P Turn = answering (\<lambda>_. None) (sweep_turn P)"

lemma locked_runs: "run_task (locked_code P c) s = run_state (run_locked P c) s"
proof (cases c)
  case (Decide raw)
  then show ?thesis using carries_run [OF carries_decision, of P raw s]
    by (auto simp del: run_bindE simp: run_bindE [of "bindE (handled P raw) (decide P)"] split: prod.split sum.split)
next
  case Turn
  then show ?thesis using carries_run [OF carries_turn, of P s]
    by (auto split: prod.split sum.split)
qed

lemma locked_locked: "well_locked (locked_code P c)"
proof (cases c)
  case (Decide raw)
  then show ?thesis
    using carries_balanced [OF carries_request]
    by (auto simp: decision_phases_def intro!: well_locked_answering balanced_code)
next
  case Turn
  then show ?thesis
    unfolding Turn locked_code.simps sweep_turn_def answering_def bindC_def catch_def seq_task_assoc
    by (intro well_locked_serialized carries_balanced [OF carries_sweep])
       (simp add: fail_def gives_def split: sum.split)
qed

interpretation signing: locked_object "locked_code P" "\<lambda>c. run_state (run_locked P c)" for P :: "'e signer_env_scheme"
  by unfold_locales (rule locked_locked, rule locked_runs)

definition signing_machine :: "'e signer_env_scheme \<Rightarrow> 'z signer_state_scheme \<Rightarrow> lock_call list list \<Rightarrow> ('z signer_state_scheme, exn + response option) machine" where
  "signing_machine P s calls = machine_of s (map (map (locked_code P)) calls)"

text \<open>The event of a session that a call under the lock is.\<close>

definition posted_body :: "'e signer_env_scheme \<Rightarrow> string \<Rightarrow> bytes \<Rightarrow> http_request" where
  "posted_body P token_header raw =
     \<lparr>rq_path = sign_path (conf P), rq_authorization = Some token_header,
      rq_content_length = Some (int_str (int (length raw))), rq_transfer_encoding = None, rq_body = raw\<rparr>"

fun event_of :: "'e signer_env_scheme \<Rightarrow> string \<Rightarrow> lock_call \<Rightarrow> session_event" where
  "event_of P h (Decide raw) = Posted (posted_body P h raw)"
| "event_of P h Turn = Swept"

definition reaches_lock :: "lock_call \<Rightarrow> bool" where
  "reaches_lock c \<longleftrightarrow> (case c of Decide raw \<Rightarrow> int (length raw) \<le> MAX_BODY_BYTES | Turn \<Rightarrow> True)"

lemma int_str_nonempty: "int_str i \<noteq> []"
proof
  assume "int_str i = []"
  then have "py_int [] = Some i" using py_int_int_str [of i] by simp
  moreover have "py_int [] = None" by code_simp
  ultimately show False by simp
qed

lemma post_reaches_decision:
  assumes "authorized P h = Inr True" "int (length raw) \<le> MAX_BODY_BYTES"
  shows "do_POST P (posted_body P h raw) = bindE (handled P raw) (decide P)"
proof -
  have "declared_length (posted_body P h raw) = Some (int (length raw))"
    by (simp add: declared_length_def posted_body_def int_str_nonempty py_int_int_str)
  then show ?thesis
    using assms by (intro state.expand) (simp add: fun_eq_iff do_POST_def posted_body_def given_def Let_def)
qed

lemma locked_event:
  fixes s :: signer_state
  assumes "authorized P h = Inr True" "reaches_lock c"
  shows "snd (run_state (run_locked P c) s) = snd (run_state (run_event P (event_of P h c)) s)"
proof (cases c)
  case (Decide raw)
  then show ?thesis using assms by (simp add: reaches_lock_def post_reaches_decision split: prod.split sum.split)
next
  case Turn
  then show ?thesis by (simp split: prod.split sum.split)
qed

lemma calls_taken:
  assumes "i < length qs" "qs ! i = (c # cs, xs)"
  shows "mset (concat (map fst qs)) = add_mset c (mset (concat (map fst (qs[i := (cs, ys)]))))"
proof -
  have "qs = take i qs @ qs ! i # drop (Suc i) qs" using assms(1) by (rule id_take_nth_drop)
  then have "mset (concat (map fst qs)) = mset (concat (map fst (take i qs @ qs ! i # drop (Suc i) qs)))" by simp
  then show ?thesis using assms by (simp add: upd_conv_take_nth_drop)
qed

lemma serial_session:
  fixes s s' :: signer_state
  assumes "(call_step (\<lambda>c. run_state (run_locked P c)))\<^sup>*\<^sup>* (s, qs) (s', qs')"
    and "authorized P h = Inr True" "\<And>c. c \<in># mset (concat (map fst qs)) \<Longrightarrow> reaches_lock c"
  shows "\<exists>es. s' = serve P (map (event_of P h) es) s
    \<and> mset es + mset (concat (map fst qs')) = mset (concat (map fst qs))"
  using assms(1)
proof (induction rule: rtranclp_induct2)
  case refl
  show ?case by (rule exI [of _ "[]"]) simp
next
  case (step t us t' us')
  then obtain es where es: "t = serve P (map (event_of P h) es) s"
    "mset es + mset (concat (map fst us)) = mset (concat (map fst qs))" by blast
  from step.hyps(2) show ?case
  proof cases
    case (call i c cs xs r)
    note taken = calls_taken [OF call(2,3), of "xs @ [r]"]
    have "c \<in># mset es + mset (concat (map fst us))" unfolding taken by simp
    then have "reaches_lock c" using assms(3) unfolding es(2) by blast
    then have "t' = snd (run_state (run_event P (event_of P h c)) t)"
      using locked_event [OF assms(2), of c t] call(4) by simp
    then have "t' = serve P (map (event_of P h) (es @ [c])) s" using es(1) by simp
    moreover have "mset (es @ [c]) + mset (concat (map fst us')) = mset (concat (map fst qs))"
      using es(2) taken call(1) by simp
    ultimately show ?thesis by blast
  qed
qed

text \<open>
  C4. The threads of the process make a session. Requests whose body has been read and turns of the
  sweep wait for the one lock in any number of threads, and their phases (each chain read, the
  reservation, the simulation, signing, sending, the audit record) are interleaved in any way it
  allows. Whenever it is free, the signer is as after the events of those calls that were made, one
  after the other in some order; so it is the state of a session, with everything shown of sessions.
\<close>

theorem threads_make_session:
  assumes "served P s" "authorized P h = Inr True" "list_all (list_all reaches_lock) calls"
    and "thread_step\<^sup>*\<^sup>* (signing_machine P s calls) m" "owner m = None"
  shows "served P (shared m)
    \<and> (\<exists>made left. shared m = serve P (map (event_of P h) made) s
         \<and> mset made + mset left = mset (concat calls) \<and> (answered m \<longrightarrow> left = []))"
proof -
  obtain qs where run: "(call_step (\<lambda>c. run_state (run_locked P c)))\<^sup>*\<^sup>* (s, map (\<lambda>cs. (cs, [])) calls) (shared m, qs)"
    and qs: "list_all2 matches (threads m) qs"
    using signing.atomic [OF assms(4) [unfolded signing_machine_def] assms(5)] by blast
  have "reaches_lock c" if "c \<in># mset (concat (map fst (map (\<lambda>cs. (cs, [])) calls)))" for c
    using that assms(3) by (auto simp: list_all_iff)
  then obtain es where es: "shared m = serve P (map (event_of P h) es) s"
    "mset es + mset (concat (map fst qs)) = mset (concat calls)"
    using serial_session [OF run assms(2)] by (auto simp: comp_def)
  have none: "fst e = []" if "answered m" "e \<in> set qs" for e
  proof -
    from that(2) obtain i where i: "i < length qs" "qs ! i = e" by (auto simp: in_set_conv_nth)
    then have "matches (threads m ! i) e" "threads m ! i \<in> set (threads m)"
      using list_all2_nthD2 [OF qs, of i] list_all2_lengthD [OF qs] by simp_all
    then show ?thesis using that(1) by (simp add: answered_def matches_def)
  qed
  have "concat (map fst qs) = []" if "answered m" using none [OF that] by simp
  moreover have "served P (shared m)" unfolding es(1) by (rule serve_served [OF assms(1)])
  ultimately show ?thesis using es by blast
qed

theorem threads_make_session_witness:
  "\<exists>m. thread_step\<^sup>*\<^sup>* (signing_machine sample_signer booted [[Decide sample_body], [Turn], [Decide sample_body]]) m
     \<and> answered m \<and> served sample_signer (shared m)"
proof -
  let ?calls = "[[Decide sample_body], [Turn], [Decide sample_body]]"
  obtain m where m: "thread_step\<^sup>*\<^sup>* (signing_machine sample_signer booted ?calls) m" "answered m"
    using signing.never_stuck(2) unfolding signing_machine_def by blast
  have "list_all (list_all reaches_lock) ?calls" by (simp add: reaches_lock_def sample_body_def MAX_BODY_BYTES_def)
  from threads_make_session [OF sample_served(1) _ this m(1)] m show ?thesis
    using sample_authorized by (auto simp: answered_def)
qed

end
