(* ===== verification/File_Life.thy ===== *)
theory File_Life
  imports "HOL-Library.Sublist" Durable Signing_Lock
begin

text \<open>
  The database file over the lives of the processes that open it, and what the process of \<open>__main__.py\<close>
  does to it and with its key, also when it is killed in the middle of a request: by a signal, or on
  the way out, when the daemon threads of the server and of the sweep are cut off where they are.
\<close>

section \<open>The life of a database file\<close>

text \<open>
  What may happen to the file of one key: it is new, or it comes out of the migration of an older
  file, which is one transaction; a process with the key makes a call of the ledger, to its end or
  only up to some durable statement, after which the process may be gone; an operator clears a halt.
  \<open>k\<close> is the chain and the address of the key; each process may meet other services, with the same
  \<open>keccak\<close>. A process killed while it creates the tables leaves a file whose creation the next one completes.
\<close>

inductive file_life :: "hashfn \<Rightarrow> nonce_key \<Rightarrow> ledger_db \<Rightarrow> bool" for H k where
  created: "file_life H k empty_db"
| migrated: "rows_ok d \<Longrightarrow> own_rows k d \<Longrightarrow> rebaseline H True begins d = (Inr 0, d') \<Longrightarrow> file_life H k d'"
| called: "file_life H k (db s) \<Longrightarrow> keccak P = H \<Longrightarrow> session_key P = k \<Longrightarrow> call_key w \<in> {None, Some k} \<Longrightarrow>
     u \<in> visits (durable_code (P :: signer_env) w) (s :: signer_state) \<Longrightarrow> file_life H k (db u)"
| cleared: "file_life H k (db b) \<Longrightarrow> run_state clear_halt (b :: books) = (r, b') \<Longrightarrow> file_life H k (db b')"

lemma own_rows_shown: "own_rows k d \<longleftrightarrow> (\<forall>r \<in> set (map to_row (spend d)). (chain_id r, from_addr r) = k)"
  by (simp add: own_rows_def to_row_def spend_row.truncate_def)

lemma file_life_sound: "file_life H k d \<Longrightarrow> file_ok k d"
proof (induction rule: file_life.induct)
  case created
  then show ?case by (simp add: file_ok_def rows_ok_def own_rows_def nonce_index_ok_def) (simp add: empty_db_def)
next
  case (migrated d begins d')
  then show ?case using migrated_rows [OF migrated(3,1)] by (simp add: file_ok_def own_rows_shown)
next
  case (called s P w u)
  from passesD [OF durable_sound [OF called.hyps(4)] called.hyps(5)] called.IH
  show ?case by (simp add: keeps_def)
next
  case (cleared b r b')
  then have "db b' = (db b)\<lparr>is_halted := False, halt_reason := []\<rparr>" by (auto simp: clear_halt_def)
  then show ?case by (intro file_ok_same [OF cleared.IH]) simp_all
qed

lemma file_life_session: "file_life (keccak W) (session_key P) d \<Longrightarrow> sound_file P d"
  using file_life_sound [of "keccak W" "session_key P" d]
  by (simp add: sound_file_def file_ok_def rows_wf_def nonces_ok_none)

section \<open>What a process does to the file and with its key\<close>

text \<open>
  The file stays within its life, and what was signed or sent before stays recorded: both lists only grow.
\<close>

definition endures :: "signer_env \<Rightarrow> signer_state \<Rightarrow> signer_state \<Rightarrow> bool" where
  "endures P s t \<longleftrightarrow>
     (file_life (keccak P) (session_key P) (db s) \<longrightarrow> file_life (keccak P) (session_key P) (db t))
     \<and> prefix (signed_txs s) (signed_txs t) \<and> prefix (sent_txs s) (sent_txs t)"

lemma endures_grows: "db t = db s \<Longrightarrow> prefix (signed_txs s) (signed_txs t) \<Longrightarrow> prefix (sent_txs s) (sent_txs t) \<Longrightarrow> endures P s t"
  by (simp add: endures_def)

interpretation endures: effect_preorder "endures P" for P :: signer_env
  unfolding endures_def by unfold_locales (auto intro: prefix_order.trans)

lemma use_run_call: "state_io_rel (same key_use) (run_call P w)"
  by (cases w) (simp_all add: same_use.fr_all same.io_thenE same.io_ok)

lemma endures_call:
  assumes "call_key w \<in> {None, Some (session_key P)}"
  shows "state_io_rel (endures P) (run_call P w)"
proof (rule io_relI_at)
  fix s t :: signer_state and r
  assume run: "run_state (run_call P w) s = (r, t)"
  have "file_life (keccak P) (session_key P) (db t)" if "file_life (keccak P) (session_key P) (db s)"
  proof (rule file_life.called [OF that])
    show "t \<in> visits (durable_code P w) s"
      using visits_end [of "durable_code P w" s] run by (simp add: durable_runs)
  qed (use assms in simp_all)
  then show "endures P s t" using state_io_rel_same [OF use_run_call run] by (simp add: endures_def)
qed

lemma endures_same_end:
  assumes "state_io_rel (endures P) (thenE m (ok ()))"
  shows "state_io_rel (endures P) m"
proof (rule io_relI_at)
  fix s t :: signer_state and r
  assume "run_state m s = (r, t)"
  then have "snd (run_state (thenE m (ok ())) s) = t" by (auto split: sum.split)
  then show "endures P s t" using state_io_relD [OF assms prod.collapse [symmetric]] by metis
qed

interpretation endures: policy_neutral "endures P" P for P :: signer_env
proof
  fix s :: signer_state and n vs u
  show "endures P s (s\<lparr>exchanges := n\<rparr>)" "endures P s (s\<lparr>v1_escrows := vs\<rparr>)" "endures P s (s\<lparr>chain_ok_until := u\<rparr>)"
    by (simp_all add: endures_grows)
next
  fix a c n
  assume "args_key a = (CHAIN_ID, own_address P)"
  then have key: "call_key (Reserve c a) \<in> {None, Some (session_key P)}"
    "call_key (ReserveGasOnly c a n) \<in> {None, Some (session_key P)}" by (simp_all add: session_key_def)
  show "state_io_rel (endures P) (reserve P c a)" "state_io_rel (endures P) (reserve_gas_only P c a n)"
    using endures_call [OF key(1)] endures_call [OF key(2)] by (simp_all add: endures_same_end)
next
  show "state_io_rel (endures P) (get_db)" "state_io_rel (endures P) (read_clock P)" "state_io_rel (endures P) (wall P)"
    by (auto simp: state_io_rel_def endures_grows read_clock_def wall_def)
qed (use endures_call [of "Audit _" P] endures_call [of "MarkSigned _ _ _" P] endures_call [of "MarkBroadcast _ _" P]
    endures_call [of "MarkMined _ _ _" P] endures_call [of "MarkDead _ _" P] endures_call [of "AttemptStatus _ _" P]
  in simp_all)

lemma endures_key:
  "state_io_rel (endures P) (key_signs P tx)" "state_io_rel (endures P) (send_logged P tx raw)"
  unfolding key_signs_def send_logged_def
  by (intro io_intros endures.io_writeE endures.fr_policy endures_grows; simp)+

lemma endures_signs:
  "state_io_rel (endures P) (signed_raw P tx row c)" "state_io_rel (endures P) (broadcast P tx raw h row c)"
  "state_io_rel (endures P) (sweep_sign P tx row c)" "state_io_rel (endures P) (sweep_send P tx raw h row c)"
  unfolding signed_raw_def broadcast_def sweep_sign_def sweep_send_def Let_def
  by (intro io_intros endures_key endures.fr_policy endures.fr_stop endures.fr_go endures.fr_sweep_stop)+

lemma endures_decide: "state_io_rel (endures P) (decide P d)"
  unfolding decide_def by (intro io_intros endures.fr_policy)

lemma endures_boot: "state_io_rel (endures P) (boot P)"
proof -
  have flags: "state_io_rel (endures P) (set_ready b)" "state_io_rel (endures P) (set_reason why)" for b why
    unfolding set_ready_def set_reason_def by (intro endures.io_writeE endures_grows; simp)+
  have writes: "state_io_rel (endures P) (set_next_nonce P c addr n)" "state_io_rel (endures P) (record_boot P addr c e js b)"
    for c addr n e js b
    using endures_call [of "SetNextNonce c addr n" P] endures_call [of "RecordBoot addr c e js b" P] by simp_all
  have verify: "state_io_rel (endures P) (verify_chains P)"
    unfolding verify_chains_def by (intro io_intros endures.fr_policy)
  show ?thesis
    unfolding boot_def boot_chain_def boot_finish_def split_def
    by (intro io_intros flags writes verify endures.fr_policy endures.fr_chain_identity endures.fr_reconcile)
qed

section \<open>Where an event can be cut off\<close>

text \<open>
  A request and a sweep turn as the phases of theory \<open>Signing_Lock\<close>, the checks of \<open>do_POST\<close> before them
  included: each phase is a step, and between any two of them the process may be killed.
\<close>

definition post_phases :: "'e signer_env_scheme \<Rightarrow> http_request \<Rightarrow> ('z signer_state_scheme, response) stmts" where
  "post_phases P rq =
     (if rq_path rq \<noteq> sign_path (conf P) then gives (404, error_body ''not_found'')
      else bindC (stmt (liftE (authorized P (given (rq_authorization rq) [])))) (\<lambda>auth.
        if \<not> auth then stmt (decide P (plain_refusal 401 ''unauthorized''))
        else (case declared_length rq of
          None \<Rightarrow> gives (400, error_body ''malformed_length'')
        | Some declared \<Rightarrow>
            if declared < 0 \<or> given (rq_transfer_encoding rq) [] \<noteq> []
              then gives (400, error_body ''malformed_length'')
            else if MAX_BODY_BYTES < declared then stmt (decide P (plain_refusal 413 ''body_too_large''))
            else
              let raw = take (nat (min declared (MAX_BODY_BYTES + 1))) (rq_body rq) in
              if int (length raw) \<noteq> declared then gives (400, error_body ''incomplete_body'')
              else if MAX_BODY_BYTES < int (length raw) then stmt (decide P (plain_refusal 413 ''body_too_large''))
              else decision_phases P raw)))"

fun event_phases :: "'e signer_env_scheme \<Rightarrow> session_event \<Rightarrow> ('z signer_state_scheme, unit) stmts" where
  "event_phases P (Posted rq) = thenC (post_phases P rq) (gives ())"
| "event_phases P (Fetched path) = stmt (run_event P (Fetched path))"
| "event_phases P Swept = sweep_turn P"

lemma carries_post: "carries (post_phases P rq) (do_POST P rq)"
  unfolding post_phases_def do_POST_def Let_def by (intro carries_intros carries_decision)

lemma carries_event: "carries (event_phases P e) (run_event P e)"
  by (cases e) (simp_all only: event_phases.simps run_event.simps; intro carries_intros carries_post carries_turn)+

context effect_preorder
begin

lemma passes_nextC [passes_intros]: "passes R t \<Longrightarrow> (\<And>x. passes R (f x)) \<Longrightarrow> passes R (nextC t f)"
  unfolding nextC_def by (intro passes_bindC passes_sum passes_leaf)

lemma passes_nextS [passes_intros]: "passes R t \<Longrightarrow> (\<And>x. passes R (f x)) \<Longrightarrow> passes R (nextS t f)"
  unfolding nextS_def by (intro passes_bindC passes_sum passes_leaf)

end

lemma endures_debit: "passes (endures P) (debit_phases P addr data g h)"
  and endures_expire: "passes (endures P) (expire_phases P addr data g h)"
proof -
  have exn: "passes (endures P) (case e of CalldataError reason \<Rightarrow> gives (f reason) | _ \<Rightarrow> fail e)" for e f
    by (cases e) (simp_all add: endures.passes_leaf)
  have signing: "passes (endures P) (signing_phases P tx row c)" for tx row c
    unfolding signing_phases_def split_def by (intro passes_intros endures.passes_stmt endures_signs)
  show "passes (endures P) (debit_phases P addr data g h)" "passes (endures P) (expire_phases P addr data g h)"
    unfolding debit_phases_def expire_phases_def Let_def split_def
    by (intro passes_intros exn signing endures.passes_stmt endures.fr_debit_phases endures.fr_expire_phases
        endures.fr_gas_and_fee endures.fr_simulated)+
qed

lemma endures_fetch: "state_io_rel (endures P) (run_event P (Fetched path))"
proof -
  have stats: "state_io_rel (endures P) (stats P)"
    unfolding stats_def by (intro io_intros endures.fr_policy)
  show ?thesis
    unfolding run_event.simps do_GET_def by (intro io_intros io_two_segments stats endures.fr_policy)
qed

lemma endures_event: "passes (endures P) (event_phases P e)"
proof -
  have post: "passes (endures P) (post_phases P rq)" for rq
    unfolding post_phases_def decision_phases_def request_phases_def Let_def
    by (intro passes_intros endures.passes_stmt endures.fr_policy io_intros endures_decide endures_debit endures_expire)
  have sweep: "passes (endures P) (sweep_turn P)"
    unfolding sweep_turn_def sweep_phases_def Let_def split_def
    by (intro passes_intros endures.passes_stmt endures.fr_policy io_intros endures.fr_settle_sweeps
        endures.fr_sweep_phases endures_signs endures.fr_audit_sweep)
  show ?thesis
    by (cases e) (simp_all only: event_phases.simps; intro passes_intros post sweep endures.passes_stmt endures_fetch)+
qed

text \<open>Run to its end, an event is its phases; so its effect on the file and the key is theirs.\<close>

lemma endures_run: "run_state (run_event P e) s = (r, t) \<Longrightarrow> endures P s t"
  using passesD [OF endures_event visits_end [of "event_phases P e" s]] by (simp add: carries_run [OF carries_event])

lemma endures_serve: "endures P s (serve P es s)"
proof (induction es rule: rev_induct)
  case (snoc e es)
  obtain r where "run_state (run_event P e) (serve P es s) = (r, serve P (es @ [e]) s)" by (rule serve_event)
  then show ?case by (rule endures.effect_trans [OF snoc.IH endures_run])
qed (simp add: endures.effect_refl)

section \<open>The process\<close>

lemma main_endures:
  assumes "main W from_key (\<lambda>_. Inr (Some b)) environ es = (c, Some (P, t))"
  shows "endures P (new_signer b) t"
proof -
  from assms obtain s :: settings and b' r u where start: "open_ledger (\<lambda>_. Inr (Some b)) (db_path s) = Inr b'"
    and boot: "run_state (boot P) (new_signer b') = (r, u)"
    and t: "(\<exists>e. r = Inl e \<and> c = Inl e \<and> t = u) \<or> r = Inr () \<and> c = Inr 0 \<and> t = serve P es u"
    by (rule main_starts)
  have "b' = b" using start by (simp add: open_ledger_def)
  then have "endures P (new_signer b) u" using state_io_relD [OF endures_boot boot] by simp
  then show ?thesis using t endures_serve endures.effect_trans by blast
qed

text \<open>
  A process killed in one more event: what it signed and sent so far is among what the event would
  have signed and sent at its end.
\<close>

lemma killed_allowed:
  fixes P :: signer_env
  assumes served: "served P t"
    and asked: "\<forall>tx \<in> set (signed_txs t). \<exists>e \<in> set es. allowed P e tx" "set (sent_txs t) \<subseteq> set (signed_txs t)"
    and life: "file_life (keccak P) (session_key P) (db t)" and u: "u \<in> visits (event_phases P e) t"
  shows "(\<forall>tx \<in> set (signed_txs u) \<union> set (sent_txs u). \<exists>e' \<in> set (es @ [e]). allowed P e' tx)
    \<and> distinct (map t_nonce (sent_txs u)) \<and> file_life (keccak P) (session_key P) (db u)"
proof -
  let ?final = "serve P [e] t"
  have "snd (run_task (event_phases P e) t) = ?final" by (simp add: carries_run [OF carries_event] serve_Cons)
  with passesD [OF endures_event u] have past: "endures P t u" and onward: "endures P u ?final" by simp_all
  have "served P ?final" by (rule serve_served [OF served])
  then have ok: "session_ok P ?final" "vault_ok P ?final" using served_ok served_vault by blast+
  have allowed: "\<exists>e' \<in> set (es @ [e]). allowed P e' tx" if "tx \<in> set (signed_txs ?final)" for tx
    using serve_allowed [OF served that] asked(1) by auto
  have "set (signed_txs u) \<subseteq> set (signed_txs ?final)" "set (sent_txs u) \<subseteq> set (signed_txs ?final)"
    "distinct (map t_nonce (sent_txs u))"
    using onward ok by (auto simp: endures_def vault_ok_def session_ok_def prefix_def)
  then show ?thesis using allowed past life by (auto simp: endures_def)
qed

text \<open>
  C5. From the environment to the signatures, over restarts and kills. Take a file at any point of its
  life, whatever processes wrote it and wherever in a call they were killed, any variables, any answers
  of the chain and any events: a process with the key of the file that got as far as booting ran on
  the settings it loaded and a compiled-in escrow, and every transaction its key signed was asked for
  by one of its events, in the way the contract of a session allows; it handed no other transaction
  to the endpoints, and no two with the same nonce; and it left the file such that all of this holds
  again for the next process. If it is killed inside a further event, after any of its phases, the
  same holds of what it had signed and sent by then, and of the file it leaves.
\<close>

theorem main_signs_only_allowed:
  assumes "file_life (keccak W) (session_key P) (db b)"
    and "main W from_key (\<lambda>_. Inr (Some b)) environ es = (c, Some (P, t))"
  shows "(c = Inr 0 \<and> served P t \<or> (\<exists>e. c = Inl e))
    \<and> load environ = Inr (conf P) \<and> own_escrow P \<in> snd ` set DEPLOYMENTS
    \<and> (\<forall>tx \<in> set (signed_txs t). \<exists>e \<in> set es. allowed P e tx)
    \<and> distinct (map t_nonce (sent_txs t)) \<and> set (sent_txs t) \<subseteq> set (signed_txs t)
    \<and> sound_file P (db t) \<and> file_life (keccak W) (session_key P) (db t)
    \<and> (c = Inr 0 \<longrightarrow> (\<forall>e. \<forall>u \<in> visits (event_phases P e) t.
          (\<forall>tx \<in> set (signed_txs u) \<union> set (sent_txs u). \<exists>e' \<in> set (es @ [e]). allowed P e' tx)
          \<and> distinct (map t_nonce (sent_txs u)) \<and> file_life (keccak W) (session_key P) (db u)))"
proof -
  have same: "keccak P = keccak W" by (rule main_keccak [OF assms(2)])
  have "sound_file P (db b)" by (rule file_life_session [OF assms(1)])
  with start_allowed [OF assms(2)] have start: "load environ = Inr (conf P)" "own_escrow P \<in> snd ` set DEPLOYMENTS"
    "session_ok P t" "vault_ok P t" "\<forall>tx \<in> set (signed_txs t). \<exists>e \<in> set es. allowed P e tx"
    "c = Inr 0 \<and> served P t \<or> (\<exists>e. c = Inl e)" by auto
  then have sent: "set (sent_txs t) \<subseteq> set (signed_txs t)" "distinct (map t_nonce (sent_txs t))" "sound_file P (db t)"
    using sound_session by (simp_all add: session_ok_def vault_ok_def)
  have life: "file_life (keccak P) (session_key P) (db t)"
    using main_endures [OF assms(2)] assms(1) same by (simp add: endures_def new_signer_def)
  have killed: "(\<forall>tx \<in> set (signed_txs u) \<union> set (sent_txs u). \<exists>e' \<in> set (es @ [e]). allowed P e' tx)
      \<and> distinct (map t_nonce (sent_txs u)) \<and> file_life (keccak P) (session_key P) (db u)"
    if "c = Inr 0" "u \<in> visits (event_phases P e) t" for e u
    using start(6) that(1) by (intro killed_allowed [OF _ start(5) sent(1) life that(2)]) auto
  show ?thesis using start sent life killed unfolding same by blast
qed

theorem main_signs_only_allowed_witness:
  "\<exists>t. main sample_signer (\<lambda>_. Inr (hub_addr, sample_key)) (\<lambda>_. Inr (Some sample_books)) sample_environ [Posted sample_rq, Swept]
         = (Inr 0, Some (sample_process, t))
     \<and> (\<forall>tx \<in> set (signed_txs t). allowed sample_process (Posted sample_rq) tx \<or> allowed sample_process Swept tx)
     \<and> (\<forall>u \<in> visits (event_phases sample_process Swept) t. distinct (map t_nonce (sent_txs u)))"
proof -
  obtain t where run: "main sample_signer (\<lambda>_. Inr (hub_addr, sample_key)) (\<lambda>_. Inr (Some sample_books)) sample_environ
      [Posted sample_rq, Swept] = (Inr 0, Some (sample_process, t))" by (rule sample_main)
  have "file_life (keccak sample_signer) (session_key sample_process) (db sample_books)"
    using file_life.created by (simp add: sample_books_def)
  from main_signs_only_allowed [OF this run]
  have "\<forall>tx \<in> set (signed_txs t). \<exists>e \<in> set [Posted sample_rq, Swept]. allowed sample_process e tx"
    "\<forall>u \<in> visits (event_phases sample_process Swept) t. distinct (map t_nonce (sent_txs u))" by blast+
  with run show ?thesis by auto
qed

end
