(* ===== verification/Chainio_Props.thy ===== *)
theory Chainio_Props
  imports Chainio
begin

text \<open>
  What the chain reads promise: the first endpoint that answers decides, nothing is read out of an
  outage, and the V1 and V2 layouts of a channel are told apart by their length.
\<close>

section \<open>Rotation over the endpoints\<close>



lemma run_post [simp]:
  "run_state (post E url method params) s =
     (Inr (http_post E (exchanges s) url method params), s\<lparr>exchanges := Suc (exchanges s)\<rparr>)"
  by (simp add: post_def)





text \<open>
  The rotation ends: one JSON-RPC call makes at most one HTTP exchange per endpoint, whatever the
  replies, and with an endpoint configured it makes at least one.
\<close>

theorem call_method_exchanges:
  "exchanges (snd (run_state (call_method E method params) s)) \<le> exchanges s + length (endpoints E)
   \<and> (endpoints E = [] \<or> exchanges s < exchanges (snd (run_state (call_method E method params) s)))"
proof -
  have steps: "exchanges s \<le> exchanges (snd (run_state (try_endpoints E urls method params) s))
      \<and> exchanges (snd (run_state (try_endpoints E urls method params) s)) \<le> exchanges s + length urls
      \<and> (urls = [] \<or> exchanges s < exchanges (snd (run_state (try_endpoints E urls method params) s)))" for urls
  proof (induction urls arbitrary: s)
    case Nil
    then show ?case by simp
  next
    case (Cons url urls)
    let ?s = "s\<lparr>exchanges := Suc (exchanges s)\<rparr>"
    show ?case
      using Cons.IH [of ?s] by (auto simp: post_def split: option.splits sum.splits)
  qed
  show ?thesis using steps [of "endpoints E"] by (simp add: call_method_def)
qed

section \<open>Receipts\<close>

text \<open>
  C31. "Not collected" is never read out of a failure. When \<open>receipt_used\<close> answers \<open>False\<close>, either the
  escrow answered \<open>isReceiptUsed\<close> for the channel with a zero word; or the V1 question was answered, with a
  zero word or with no bytes at all, and it was put only because the caller named no channel (the
  rows of a sweep), or the escrow is remembered as V1, or both \<open>isReceiptUsed\<close> and the V2-only
  \<open>SETTLE_WINDOW\<close> have just reverted.
\<close>

theorem receipt_unused_needs_answer:
  fixes s s' :: "'z rpc_state_scheme"
  assumes "run_state (receipt_used E esc rid cid) s = (Inr False, s')"
  shows "(\<exists>c out. cid = Some c \<and> py_lower esc \<notin> set (v1_escrows s)
            \<and> run_state (eth_call E esc (selector (keccak E) IS_RECEIPT_USED_SIG @ c @ rid) []) s = (Inr out, s')
            \<and> 32 \<le> length out \<and> from_bytes (last_word out) = 0)
    \<or> (\<exists>(v :: 'z rpc_state_scheme) out.
          run_state (eth_call E esc (selector (keccak E) USED_RECEIPTS_SIG @ rid) []) v = (Inr out, s')
          \<and> (out = [] \<or> from_bytes (last_word out) = 0)
          \<and> ((cid = None \<or> py_lower esc \<in> set (v1_escrows s)) \<and> v = s
             \<or> (\<exists>c n t m u. cid = Some c
                  \<and> run_state (eth_call E esc (selector (keccak E) IS_RECEIPT_USED_SIG @ c @ rid) []) s = (Inl (Reverted n), t)
                  \<and> run_state (eth_call E esc (selector (keccak E) SETTLE_WINDOW_SIG) []) t = (Inl (Reverted m), u)
                  \<and> v = u\<lparr>v1_escrows := py_lower esc # v1_escrows u\<rparr>)))"
proof -
  have v1: "\<exists>out. run_state (eth_call E esc (selector (keccak E) USED_RECEIPTS_SIG @ rid) []) v = (Inr out, s')
      \<and> (out = [] \<or> from_bytes (last_word out) = 0)"
    if "run_state (used_receipts E esc rid) v = (Inr False, s')" for v
    using that by (auto simp: used_receipts_def split: prod.splits sum.splits if_splits)
  show ?thesis
  proof (cases "cid = None \<or> py_lower esc \<in> set (v1_escrows s)")
    case True
    then have "run_state (used_receipts E esc rid) s = (Inr False, s')"
      using assms by (cases cid) (simp_all add: receipt_used_def)
    from v1 [OF this] show ?thesis using True by blast
  next
    case False
    then obtain c where c: "cid = Some c" and new: "py_lower esc \<notin> set (v1_escrows s)" by auto
    obtain r t where first: "run_state (eth_call E esc (selector (keccak E) IS_RECEIPT_USED_SIG @ c @ rid) []) s = (r, t)"
      by fastforce
    show ?thesis
    proof (cases r)
      case (Inr out)
      then show ?thesis using assms c new first by (auto simp: receipt_used_def split: if_splits)
    next
      case (Inl e)
      then obtain n where e: "e = Reverted n"
        using assms c new first by (cases e) (auto simp: receipt_used_def is_reverted_def)
      obtain q u where second: "run_state (eth_call E esc (selector (keccak E) SETTLE_WINDOW_SIG) []) t = (q, u)"
        by fastforce
      obtain e2 where q: "q = Inl e2"
        using assms c new first second Inl e by (cases q) (auto simp: receipt_used_def is_reverted_def)
      then obtain m where e2: "e2 = Reverted m"
        using assms c new first second Inl e by (cases e2) (auto simp: receipt_used_def is_reverted_def)
      have "run_state (used_receipts E esc rid) (u\<lparr>v1_escrows := py_lower esc # v1_escrows u\<rparr>) = (Inr False, s')"
        using assms c new first second Inl e q e2 by (simp add: receipt_used_def is_reverted_def)
      from v1 [OF this] show ?thesis using c first second Inl e q e2 by blast
    qed
  qed
qed

section \<open>The layouts of a channel\<close>

lemma nth_word_concat:
  assumes "\<forall>w \<in> set ws. length w = 32" "i < length ws"
  shows "nth_word i (concat ws) = ws ! i"
proof -
  have len: "length (concat us) = length us * 32" if "\<forall>w \<in> set us. length w = 32" for us :: "bytes list"
    using that by (induction us) simp_all
  have split: "concat ws = concat (take i ws) @ ws ! i @ concat (drop (Suc i) ws)"
    using id_take_nth_drop [OF assms(2)] by (metis concat.simps(2) concat_append)
  have "length (concat (take i ws)) = i * 32"
    using assms len [of "take i ws"] by (auto dest: in_set_takeD)
  moreover have "length (ws ! i) = 32" using assms by simp
  ultimately show ?thesis
    unfolding nth_word_def slice_def by (subst split) simp
qed

lemma length_words: "\<forall>w \<in> set ws. length w = 32 \<Longrightarrow> length (concat ws) = 32 * length (ws :: bytes list)"
  by (induction ws) simp_all

text \<open>
  \<open>getChannel\<close> reads both layouts right: from the nine words of V1 the status is the ninth, from
  the ten words of V2 it is the tenth, after \<open>closableAt\<close>; the other fields are the same words, the
  addresses their last twenty bytes.
\<close>

theorem parse_channel_layouts:
  assumes "\<forall>w \<in> set ws. length w = 32" "length ws = 9 \<or> length ws = 10"
  shows "ch_status (parse_channel (concat ws)) = from_bytes (last ws)
    \<and> ch_v2 (parse_channel (concat ws)) = (length ws = 10)
    \<and> ch_closable_at (parse_channel (concat ws)) = (if length ws = 10 then from_bytes (ws ! 8) else 0)
    \<and> ch_depositor (parse_channel (concat ws)) = hex0x (drop 12 (ws ! 0))
    \<and> ch_hub (parse_channel (concat ws)) = hex0x (drop 12 (ws ! 1))
    \<and> ch_token (parse_channel (concat ws)) = hex0x (drop 12 (ws ! 2))
    \<and> ch_balance (parse_channel (concat ws)) = from_bytes (ws ! 4)
    \<and> ch_used_amount (parse_channel (concat ws)) = from_bytes (ws ! 5)
    \<and> ch_expires_at (parse_channel (concat ws)) = from_bytes (ws ! 6)
    \<and> ch_nonce (parse_channel (concat ws)) = from_bytes (ws ! 7)"
proof -
  have word: "nth_word i (concat ws) = ws ! i" if "i < 9" for i
    using assms(2) that by (intro nth_word_concat assms(1)) auto
  have ninth: "nth_word 9 (concat ws) = ws ! 9" if "length ws = 10"
    using that by (intro nth_word_concat assms(1)) auto
  have "last ws = (if length ws = 10 then ws ! 9 else ws ! 8)"
  proof -
    have "ws \<noteq> []" using assms(2) by auto
    then show ?thesis using assms(2) by (auto simp: last_conv_nth)
  qed
  moreover have "10 * 32 \<le> length (concat ws) \<longleftrightarrow> length ws = 10"
    using assms(2) by (auto simp: length_words [OF assms(1)])
  ultimately show ?thesis
    using word ninth assms(2) by (auto simp: parse_channel_def addr_of_def Let_def)
qed

theorem parse_channel_layouts_witness:
  "ch_status (parse_channel (concat (replicate 9 (zero_bytes 32) @ [replicate 32 1]))) = from_bytes (replicate 32 1)"
  using parse_channel_layouts [of "replicate 9 (zero_bytes 32) @ [replicate 32 1]"]
  by (auto simp: zero_bytes_def)

end
