(* ===== verification/Boot_Props.thy ===== *)
theory Boot_Props
  imports Policy_Props Chainio_Props
begin

text \<open>
  The properties of \<open>boot\<close> and of a process that booted into its refusing state, and what modelling
  showed of the paths around them.
\<close>

section \<open>What a finished boot has established\<close>

lemma chain_identity_checked:
  assumes "produces (verify_chain_identity P True :: (signer_state, unit) py) u"
  shows "produces (rpc_chain_id P :: (signer_state, int) py) CHAIN_ID
    \<and> produces (chain_separator P (own_escrow P) :: (signer_state, bytes) py) (own_separator P)
    \<and> produces (hub_authorized P (own_escrow P) (own_address P) :: (signer_state, bool) py) True
    \<and> produces (token_decimals P TOKEN :: (signer_state, int) py) TOKEN_DECIMALS"
  using assms unfolding verify_chain_identity_def
  by (simp, elim produces_bindE) (auto split: if_splits elim!: produces_bindE)

lemma boot_chain_checked:
  assumes "produces (boot_chain P :: (signer_state, bool \<times> int) py) (rec, n)"
  shows "produces (verify_chain_identity P True :: (signer_state, unit) py) ()
    \<and> produces (transaction_count P (own_address P) ''pending'' :: (signer_state, int) py) n"
  using assms unfolding boot_chain_def thenE_def
  by (elim produces_bindE) (auto elim!: produces_bindE)

lemma ready_boot_chain: "state_io_rel (same readiness) (boot_chain P)"
  unfolding boot_chain_def
  by (intro io_intros same_ready.fr_chain_identity same_ready.fr_reconcile same_ready.fr_policy)

lemma boot_finish_sets:
  assumes run: "run_state (boot_finish P rec n) s = (r, t)" and idle: "\<not> ready s" and "ready t"
  shows "r = Inr ()" "spend (db t) = spend (db s)" "attempts (db t) = attempts (db s)"
    "next_nonce (db t) (session_key P) = max n (highest_nonce (unresolved (db s)) + 1)"
proof -
  let ?k = "max n (highest_nonce (unresolved (db s)) + 1)"
  let ?tail = "thenE (audit P (boot_audit P)) (thenE (set_ready True) (set_reason []))"
  let ?boot = "record_boot P (own_address P) CHAIN_ID (own_escrow P) (caps_json (spend_caps (conf P))) rec"
  obtain q u where nonce: "run_state (set_next_nonce P CHAIN_ID (own_address P) ?k) s = (q, u)" by fastforce
  obtain q2 v where rec: "run_state ?boot u = (q2, v)" by fastforce
  obtain q3 w where audit: "run_state (audit P (boot_audit P)) v = (q3, w)" by fastforce
  have "ready u = ready s" "ready v = ready u" "ready w = ready v"
    using state_io_rel_same [OF same_ready.fr_boot_records(1) nonce]
      state_io_rel_same [OF same_ready.fr_boot_records(2) rec]
      state_io_rel_same [OF same_ready.fr_audit audit] by simp_all
  then have "isl q \<or> isl q2 \<or> isl q3 \<Longrightarrow> \<not> ready t"
    using run nonce rec audit idle
    by (cases q; cases q2; cases q3) (auto simp: boot_finish_def get_db_def)
  then obtain a b c where ok: "q = Inr a" "q2 = Inr b" "q3 = Inr c"
    using assms(3) by (cases q; cases q2; cases q3) auto
  have t: "r = Inr ()" "db t = db w"
    using run nonce rec audit ok by (auto simp: boot_finish_def get_db_def set_ready_def set_reason_def)
  have first: "spend (db u) = spend (db s)" "attempts (db u) = attempts (db s)" "next_nonce (db u) (session_key P) = ?k"
    using nonce ok by (auto simp: set_next_nonce_def next_nonce_def session_key_def tick_db_def split: if_splits)
  have second: "spend (db v) = spend (db u)" "attempts (db v) = attempts (db u)" "nonce_alloc (db v) = nonce_alloc (db u)"
    using rec ok by (auto simp: record_boot_def tick_db_def split: if_splits)
  show "r = Inr ()" "spend (db t) = spend (db s)" "attempts (db t) = attempts (db s)"
    "next_nonce (db t) (session_key P) = ?k"
    using t first second run_audit_spend [OF audit] by (simp_all add: next_nonce_def)
qed

lemma boot_ready_parts:
  fixes s t :: signer_state
  assumes "run_state (boot P) s = (r, t)" "ready t"
  shows "run_state (verify_chains P) s = (Inr (), s)" "halted (db s) = []"
    "\<exists>rec n u. run_state (boot_chain P) (s\<lparr>ready := False\<rparr>) = (Inr (rec, n), u)
       \<and> run_state (boot_finish P rec n) u = (r, t)"
proof -
  let ?s = "s\<lparr>ready := False\<rparr>"
  have at: "run_state (verify_chains P) x = (fst (run_state (verify_chains P) s), x)" if "db x = db s" for x :: signer_state
    using that by (simp add: verify_chains_def get_db_def)
  have reason: "run_state (set_reason why) x = (Inr (), x\<lparr>not_ready_reason := why\<rparr>)" for why and x :: signer_state
    by (simp add: set_reason_def)
  obtain q where q: "fst (run_state (verify_chains P) s) = q" by blast
  have ok: "q = Inr () \<and> halted (db s) = []"
    using assms at [of ?s] q reason
    by (cases q) (auto simp: boot_def set_ready_def get_db_def split: if_splits)
  then show "run_state (verify_chains P) s = (Inr (), s)" "halted (db s) = []"
    using at [of s] q by simp_all
  obtain p u where chain: "run_state (boot_chain P) ?s = (p, u)" by fastforce
  have "\<not> ready u" using state_io_rel_same [OF ready_boot_chain chain] by simp
  then have "\<exists>rec n. p = Inr (rec, n) \<and> run_state (boot_finish P rec n) u = (r, t)"
    using assms at [of ?s] q ok chain reason
    by (cases p) (auto simp: boot_def set_ready_def get_db_def split: exn.splits)
  then show "\<exists>rec n u. run_state (boot_chain P) ?s = (Inr (rec, n), u) \<and> run_state (boot_finish P rec n) u = (r, t)"
    using chain by blast
qed

lemma highest_nonce_le: "r \<in> set rows \<Longrightarrow> account_nonce r \<le> highest_nonce rows"
proof -
  assume "r \<in> set rows"
  then obtain n ns where "map account_nonce rows = n # ns" "account_nonce r \<in> set (n # ns)"
    by (cases rows) auto
  then show ?thesis by (auto simp: highest_nonce_def foldl_max_le)
qed

lemma unresolved_nonces:
  assumes "r \<in> set (spend d)" "live (row_state r)"
  shows "account_nonce r \<le> highest_nonce (unresolved d)"
proof -
  have "to_row r \<in> set (unresolved d)" using assms by (auto simp: unresolved_def)
  from highest_nonce_le [OF this] show ?thesis by simp
qed

text \<open>
  C15. When boot leaves the service ready, it has returned, both hash chains of the books it opened
  verify and no halt was recorded; the endpoints named chain 8453, the pinned escrow's domain
  separator, this key as an authorized hub and six decimals; and the nonce the next reservation
  will get is at least the chain's pending count and above every live row's.
\<close>

theorem boot_ready_means:
  fixes s t :: signer_state
  assumes "run_state (boot P) s = (r, t)" "ready t"
  shows "r = Inr () \<and> run_state (verify_chains P) s = (Inr (), s) \<and> halted (db s) = []
    \<and> produces (rpc_chain_id P :: (signer_state, int) py) 8453
    \<and> produces (chain_separator P (own_escrow P) :: (signer_state, bytes) py) (own_separator P)
    \<and> produces (hub_authorized P (own_escrow P) (own_address P) :: (signer_state, bool) py) True
    \<and> produces (token_decimals P TOKEN :: (signer_state, int) py) 6
    \<and> (\<exists>n. produces (transaction_count P (own_address P) ''pending'' :: (signer_state, int) py) n
         \<and> n \<le> next_nonce (db t) (8453, own_address P))
    \<and> (\<forall>row \<in> set (spend (db t)). live (row_state row) \<longrightarrow> account_nonce row < next_nonce (db t) (8453, own_address P))"
proof -
  note parts = boot_ready_parts [OF assms]
  obtain rec n u where chain: "run_state (boot_chain P) (s\<lparr>ready := False\<rparr>) = (Inr (rec, n), u)"
    and finish: "run_state (boot_finish P rec n) u = (r, t)"
    using parts(3) by blast
  have "\<not> ready u" using state_io_rel_same [OF ready_boot_chain chain] by simp
  note sets = boot_finish_sets [OF finish this assms(2)]
  have checked: "produces (verify_chain_identity P True :: (signer_state, unit) py) ()"
    "produces (transaction_count P (own_address P) ''pending'' :: (signer_state, int) py) n"
    using boot_chain_checked [OF producesI [OF chain]] by simp_all
  have key: "session_key P = (8453, own_address P)" by (simp add: session_key_def CHAIN_ID_def)
  have "account_nonce row < next_nonce (db t) (8453, own_address P)"
    if "row \<in> set (spend (db t))" "live (row_state row)" for row
    using unresolved_nonces [of row "db u"] that sets(2,4) key by auto
  moreover have "n \<le> next_nonce (db t) (8453, own_address P)" using sets(4) key by simp
  ultimately show ?thesis
    using sets(1) parts(1,2) checked chain_identity_checked [OF checked(1)]
    by (auto simp: CHAIN_ID_def TOKEN_DECIMALS_def)
qed

lemma sample_boot_run: "run_state (boot sample_signer) (new_signer sample_books) = (Inr (), booted)" "ready booted"
  using sample_boots by (auto simp: booted_def split: prod.splits)

theorem boot_ready_means_witness:
  "halted (db (new_signer sample_books)) = []
    \<and> (\<exists>n. n \<le> next_nonce (db booted) (8453, own_address sample_signer))"
  using boot_ready_means [OF sample_boot_run] by blast

section \<open>A service that did not boot\<close>

text \<open>
  C36. A service that is not ready after boot stays so for the whole session: no event makes it ready
  or changes the reason it gives, and none uses the key.
\<close>

theorem refusing_is_final:
  assumes "served P s" "\<not> ready s" "run_state (run_event P e) s = (r, t)"
  shows "\<not> ready t \<and> not_ready_reason t = not_ready_reason s
    \<and> signed_txs t = signed_txs s \<and> sent_txs t = sent_txs s"
proof -
  have "readiness t = readiness s" by (rule state_io_rel_same [OF event_readiness assms(3)])
  moreover have "key_use t = key_use s"
    by (rule unready_uses_no_key [OF assms(2,3)])
  ultimately show ?thesis using assms(2) by simp
qed

definition deaf_signer :: signer_env where
  "deaf_signer = sample_signer\<lparr>endpoints := []\<rparr>"

definition deaf :: signer_state where
  "deaf = snd (run_state (boot deaf_signer) (new_signer sample_books))"

lemma deaf_boots:
  "case run_state (boot deaf_signer) (new_signer sample_books) of (r, s) \<Rightarrow>
     r = Inr () \<and> \<not> ready s \<and> not_ready_reason s = ''boot_reconciliation''"
  by code_simp

theorem refusing_is_final_witness:
  "\<not> ready (snd (run_state (run_event deaf_signer Swept) deaf))
    \<and> not_ready_reason (snd (run_state (run_event deaf_signer Swept) deaf)) = ''boot_reconciliation''"
proof -
  have run: "run_state (boot deaf_signer) (new_signer sample_books) = (Inr (), deaf)" "\<not> ready deaf"
    "not_ready_reason deaf = ''boot_reconciliation''"
    using deaf_boots by (auto simp: deaf_def split: prod.splits)
  have "served deaf_signer deaf"
    by (rule served.booted [OF _ run(1)]) (simp add: sample_books_def sound_new_file)
  from refusing_is_final [OF this run(2) prod.collapse [symmetric]] run(3) show ?thesis
    by (simp del: run_event.simps)
qed

text \<open>
  When the books verify and the endpoints answer with another chain id, boot does not leave the
  service refusing: it raises \<open>ChainUnverified\<close>, which nothing in \<open>main\<close> catches.
\<close>

theorem boot_other_chain_raises:
  fixes s u :: signer_state
  assumes "run_state (verify_chains P) s = (Inr (), s)" "halted (db s) = []"
    "run_state (rpc_chain_id P) (s\<lparr>ready := False\<rparr>) = (Inr c, u)" "c \<noteq> 8453"
  shows "run_state (boot P) s = (Inl ChainUnverified, u)"
proof -
  have "run_state (verify_chains P) (s\<lparr>ready := False\<rparr>) = (Inr (), s\<lparr>ready := False\<rparr>)"
    using assms(1) by (simp add: verify_chains_def get_db_def)
  moreover have "run_state (boot_chain P) (s\<lparr>ready := False\<rparr>) = (Inl ChainUnverified, u)"
    using assms(3,4) by (simp add: boot_chain_def verify_chain_identity_def CHAIN_ID_def)
  ultimately show ?thesis
    using assms(2) by (simp add: boot_def set_ready_def get_db_def)
qed

definition other_chain :: "nat \<Rightarrow> string \<Rightarrow> string \<Rightarrow> json list \<Rightarrow> json option" where
  "other_chain n url method params = rpc_text ''0x1''"

theorem boot_other_chain_raises_witness:
  "fst (run_state (boot (sample_signer\<lparr>http_post := other_chain\<rparr>)) (new_signer sample_books)) = Inl ChainUnverified"
proof -
  let ?P = "sample_signer\<lparr>http_post := other_chain\<rparr>" and ?s = "new_signer sample_books"
  have "fst (run_state (rpc_chain_id ?P) (?s\<lparr>ready := False\<rparr>)) = Inr 1" by code_simp
  then obtain u where chain: "run_state (rpc_chain_id ?P) (?s\<lparr>ready := False\<rparr>) = (Inr 1, u)"
    by (metis prod.collapse)
  have "run_state (verify_chains ?P) ?s = (Inr (), ?s)" "halted (db ?s) = []"
    by (simp_all add: verify_chains_def get_db_def new_signer_def sample_books_def empty_db_def halted_def
        verify_spend_def verify_audit_def)
  from boot_other_chain_raises [OF this chain] show ?thesis by simp
qed

section \<open>Rows without a deadline, headers without ASCII\<close>

text \<open>The node knows no receipt for any transaction yet: whatever was sent is still pending.\<close>

definition receipts_pending :: "'e rpc_env_scheme \<Rightarrow> bool" where
  "receipts_pending E \<longleftrightarrow> endpoints E \<noteq> []
     \<and> (\<forall>n url params. http_post E n url ''eth_getTransactionReceipt'' params = Some (JObj [(''result'', JNull)]))"

lemma pending_receipt:
  assumes "receipts_pending E"
  shows "\<exists>n. run_state (rpc_receipt E h) s = (Inr JNull, s\<lparr>exchanges := n\<rparr>)"
proof -
  obtain url urls where urls: "endpoints E = url # urls"
    using assms by (cases "endpoints E") (auto simp: receipts_pending_def)
  have "read_reply E (JObj [(''result'', JNull)]) = Some (Inr JNull)"
    by (simp add: read_reply_def obj_get_def)
  then show ?thesis
    using assms
    by (intro exI [of _ "Suc (exchanges s)"])
      (simp add: rpc_receipt_def call_method_def urls receipts_pending_def)
qed

lemma map_status:
  assumes "\<And>a. f (a\<lparr>at_receipt_status := st\<rparr>) = f a"
  shows "map f (map (\<lambda>a. if at_tx_hash a = h then a\<lparr>at_receipt_status := st\<rparr> else a) as) = map f as"
  using assms by (induction as) auto

lemma run_attempt_status:
  "run_state (record_attempt_status h st) s = (r, t) \<Longrightarrow> r = Inr ()
     \<and> spend (db t) = spend (db s) \<and> map at_tx_hash (attempts (db t)) = map at_tx_hash (attempts (db s))
     \<and> map at_account_nonce (attempts (db t)) = map at_account_nonce (attempts (db s))"
  by (auto simp: record_attempt_status_def map_status simp del: map_map)

lemma settle_pending:
  assumes "receipts_pending P"
  shows "\<exists>v. run_state (settle_attempts P row as) s = (Inr False, v) \<and> spend (db v) = spend (db s)
    \<and> map at_tx_hash (attempts (db v)) = map at_tx_hash (attempts (db s))
    \<and> map at_account_nonce (attempts (db v)) = map at_account_nonce (attempts (db s))"
proof (induction as arbitrary: s)
  case Nil
  then show ?case by simp
next
  case (Cons a as)
  obtain n where n: "run_state (rpc_receipt P (at_tx_hash a)) s = (Inr JNull, s\<lparr>exchanges := n\<rparr>)"
    using pending_receipt [OF assms] by blast
  obtain r q where q: "run_state (record_attempt_status (at_tx_hash a) ''absent'') (s\<lparr>exchanges := n\<rparr>) = (r, q)"
    by fastforce
  note kept = run_attempt_status [OF q]
  have "run_state (settle_attempts P row (a # as)) s = run_state (settle_attempts P row as) q"
    using n q kept by simp
  then show ?case using Cons.IH [of q] kept by simp
qed

text \<open>
  C37. Reconciliation gives up a call without tokens while it is still in flight. A gas-only row (an expiry
  or a sweep: amount 0, deadline 0) has been signed or broadcast, the node has no receipt of any
  transaction yet, and the escrow does not call its key collected: when \<open>_reconcile\<close> is through with the row, the
  stored row is dead, as if its deadline had passed, and none of the live rows, so the caps, the
  replay check and the sweep's wait for its predecessor no longer see it and a second call can be reserved.
  The attempts, whose transactions may still land, are on record as before.
\<close>

theorem reconcile_drops_gas_rows_in_flight:
  fixes s :: "'z rpc_state_scheme"
  assumes "amount_units row = 0" "deadline row = 0" "row_state row \<in> {Signed, Broadcast}" "0 < now"
    and "receipts_pending P" "fromhex (drop 2 (receipt_id row)) = Some rid"
    and "run_state (receipt_used P (own_escrow P) rid (channel_bytes (channel_id row))) s = (Inr False, u)"
    and "run_state (reconcile_row P now row) s = (Inr x, t)"
  shows "(\<forall>r \<in> set (spend (db t)). keyed (chain_id row) (escrow row) (receipt_id row) r \<longrightarrow>
            row_state r = Dead \<and> dead_reason r = ''deadline passed before it landed'' \<and> \<not> counted (row_state r))
    \<and> (\<forall>r \<in> set (unresolved (db t)). \<not> keyed (chain_id row) (escrow row) (receipt_id row) r)
    \<and> map at_tx_hash (attempts (db t)) = map at_tx_hash (attempts (db s))
    \<and> map at_account_nonce (attempts (db t)) = map at_account_nonce (attempts (db s))"
proof -
  have same: "db u = db s" using state_io_rel_same [OF rpc_same_db.io_receipt_used assms(7)] .
  obtain v where v: "run_state (settle_attempts P row (attempts_for (db u) (chain_id row) (escrow row) (receipt_id row))) u = (Inr False, v)"
    and kept: "map at_tx_hash (attempts (db v)) = map at_tx_hash (attempts (db u))"
      "map at_account_nonce (attempts (db v)) = map at_account_nonce (attempts (db u))"
    using settle_pending [OF assms(5)] by blast
  have "run_state (reconcile_row P now row) s = run_state (mark_dead P row ''deadline passed before it landed'') v"
    using assms v by (auto simp: reconcile_row_def get_db_def someR_def Let_def)
  then have "run_state (mark_dead P row ''deadline passed before it landed'') v = (Inr x, t)" using assms(8) by simp
  note dead = mark_dead_success [OF this]
  have gone: "row_state r = Dead \<and> dead_reason r = ''deadline passed before it landed''"
    if "r \<in> set (spend (db t))" "keyed (chain_id row) (escrow row) (receipt_id row) r" for r
    using that dead(1) by (auto simp: update_rows_def apply_updates_def keyed_def given_def no_updates_def)
  moreover have "\<not> keyed (chain_id row) (escrow row) (receipt_id row) r" if mem: "r \<in> set (unresolved (db t))" for r
  proof
    assume key: "keyed (chain_id row) (escrow row) (receipt_id row) r"
    obtain q where "q \<in> set (spend (db t))" "live (row_state q)" "r = to_row q"
      using mem by (auto simp: unresolved_def)
    moreover from this key have "keyed (chain_id row) (escrow row) (receipt_id row) q" by (simp add: keyed_def)
    ultimately show False using gone by (auto simp: live_def)
  qed
  ultimately show ?thesis using dead(2) kept same by (simp add: counted_def)
qed

definition flying_row :: spend_row where
  "flying_row =
     \<lparr>chain_id = 8453, escrow = own_escrow sample_signer, receipt_id = ''0x'' @ zeros 63 @ ''1'', seq = 1, ts = 1000000,
      channel_id = SWEEP_CHANNEL, depositor = [], token = [], amount_units = 0, deadline = 0, channel_nonce = 0,
      calldata_keccak = ''0x00'', to_addr = py_lower TOKEN, gas_limit = 120000, hub_gas_hint = 0,
      max_fee_wei = 1000200, account_nonce = 5, from_addr = hub_addr, row_state = Broadcast,
      tx_hash = sample_hash, fee_wei_spent = 0, dead_reason = []\<rparr>"

definition flying_books :: books where
  "flying_books = sample_books\<lparr>db := empty_db
     \<lparr>spend := [spend_row.extend flying_row \<lparr>prev_row_hash = genesis, row_tag = sample_hash\<rparr>], max_seq := 2,
      attempts :=
       [\<lparr>at_tx_hash = sample_hash, at_chain_id = 8453, at_escrow = own_escrow sample_signer,
         at_receipt_id = ''0x'' @ zeros 63 @ ''1'', at_account_nonce = 5, at_raw_keccak = sample_hash,
         at_max_fee_wei = 1000200, at_sent_at = 1000000, at_receipt_status = [], at_seq = 2\<rparr>]\<rparr>\<rparr>"

definition flying :: signer_state where
  "flying = new_signer flying_books"

text \<open>The sample chain, with every transaction pending.\<close>

definition pending_signer :: signer_env where
  "pending_signer = sample_signer\<lparr>http_post := (\<lambda>n url method params.
     if method = ''eth_getTransactionReceipt'' then Some (JObj [(''result'', JNull)])
     else http_post sample_signer n url method params)\<rparr>"

lemma flying_unlanded:
  "fromhex (drop 2 (receipt_id flying_row)) = Some (replicate 31 0 @ [1])"
  "fst (run_state (receipt_used pending_signer (own_escrow pending_signer) (replicate 31 0 @ [1])
       (channel_bytes (channel_id flying_row))) flying) = Inr False"
  "fst (run_state (reconcile_row pending_signer 1000010 flying_row) flying) = Inr ()"
  by code_simp+

theorem reconcile_drops_gas_rows_in_flight_witness:
  "\<exists>t. run_state (reconcile_row pending_signer 1000010 flying_row) flying = (Inr (), t)
     \<and> map row_state (spend (db flying)) = [Broadcast] \<and> filter (keyed 8453 (own_escrow sample_signer) (receipt_id flying_row)) (unresolved (db t)) = []
     \<and> map at_tx_hash (attempts (db t)) = [sample_hash]"
proof -
  obtain u where u: "run_state (receipt_used pending_signer (own_escrow pending_signer) (replicate 31 0 @ [1])
       (channel_bytes (channel_id flying_row))) flying = (Inr False, u)"
    using flying_unlanded(2) by (metis prod.collapse)
  obtain t where t: "run_state (reconcile_row pending_signer 1000010 flying_row) flying = (Inr (), t)"
    using flying_unlanded(3) by (metis prod.collapse)
  have "endpoints sample_signer \<noteq> []" by code_simp
  then have pending: "receipts_pending pending_signer" by (simp add: receipts_pending_def pending_signer_def)
  have row: "amount_units flying_row = 0" "deadline flying_row = 0" "row_state flying_row \<in> {Signed, Broadcast}"
    "chain_id flying_row = 8453" "escrow flying_row = own_escrow sample_signer"
    by (simp_all add: flying_row_def)
  have "map at_tx_hash (attempts (db flying)) = [sample_hash]" "map row_state (spend (db flying)) = [Broadcast]"
    by (simp_all add: flying_def flying_books_def new_signer_def flying_row_def spend_row.defs)
  then show ?thesis
    using reconcile_drops_gas_rows_in_flight [OF row(1-3) _ pending flying_unlanded(1) u t] t row(4,5)
    by (simp add: filter_empty_conv)
qed

text \<open>
  A bearer token with a character outside ASCII is neither compared nor refused: the comparison
  raises, and the request ends without an answer and without an audit record.
\<close>

theorem non_ascii_token_unanswered:
  assumes "rq_path rq = sign_path (conf P)" "rq_authorization rq = Some (''Bearer '' @ tok)" "\<not> is_ascii (py_strip tok)"
  shows "run_state (do_POST P rq) s = (Inl TypeError, s)"
proof -
  have "starts_with ''Bearer '' (''Bearer '' @ tok)" by (simp add: starts_with_def)
  then have "authorized P (given (rq_authorization rq) []) = Inl TypeError"
    using assms(2,3) by (simp add: authorized_def given_def)
  then show ?thesis using assms(1) by (simp add: do_POST_def)
qed

theorem non_ascii_token_unanswered_witness:
  "run_state (do_POST sample_signer (sample_rq\<lparr>rq_authorization := Some (''Bearer '' @ [CHR 0xE9])\<rparr>)) booted
     = (Inl TypeError, booted)"
proof -
  have "\<not> is_ascii (py_strip [CHR 0xE9])" by code_simp
  then show ?thesis
    by (intro non_ascii_token_unanswered)
      (simp_all add: sample_rq_def sample_signer_def sample_settings_def)
qed

section \<open>A receipt the sample chain calls unused\<close>

lemma sample_unused:
  "fst (run_state (receipt_used sample_signer (own_escrow sample_signer) (replicate 32 2) (Some (replicate 32 1)))
     (new_signer sample_books)) = Inr False"
  by code_simp

theorem receipt_unused_needs_answer_witness:
  "\<not> (\<exists>t. run_state (eth_call sample_signer (own_escrow sample_signer)
       (selector (keccak sample_signer) IS_RECEIPT_USED_SIG @ replicate 32 1 @ replicate 32 2) []) (new_signer sample_books)
     = (Inl RpcUnavailable, t))"
proof -
  obtain t where "run_state (receipt_used sample_signer (own_escrow sample_signer) (replicate 32 2) (Some (replicate 32 1)))
     (new_signer sample_books) = (Inr False, t)"
    using sample_unused by (metis prod.collapse)
  from receipt_unused_needs_answer [OF this] show ?thesis by (auto simp: new_signer_def)
qed

section \<open>A call over two endpoints\<close>




end
