(* ===== verification/Policy_Settle.thy ===== *)
theory Policy_Settle
  imports Policy_Frame Ledger_Gas
begin

text \<open>
  What \<open>_reconcile\<close> leaves behind: no live row past its deadline, and no reservation without a
  transaction that carries its nonce.
\<close>

section \<open>Loose rows\<close>

definition attempt_keys :: "ledger_db \<Rightarrow> ((int \<times> string \<times> string) \<times> int) set" where
  "attempt_keys d =
     (\<lambda>a. ((at_chain_id a, at_escrow a, at_receipt_id a), at_account_nonce a)) ` set (attempts d)"

definition loose :: "int \<Rightarrow> ledger_db \<Rightarrow> db_row \<Rightarrow> bool" where
  "loose now d r \<longleftrightarrow>
     r \<in> set (spend d) \<and> live (row_state r)
     \<and> (deadline r < now \<or> row_state r = Reserved \<and> (row_key r, account_nonce r) \<notin> attempt_keys d)"

text \<open>No step of the loop makes a row live, or forgets an attempt.\<close>

definition settling :: "'z books_scheme \<Rightarrow> 'z books_scheme \<Rightarrow> bool" where
  "settling s t \<longleftrightarrow>
     {r \<in> set (spend (db t)). live (row_state r)} \<subseteq> set (spend (db s)) \<and> attempt_keys (db t) = attempt_keys (db s)"

interpretation settles: effect_preorder "settling :: 'z books_scheme \<Rightarrow> 'z books_scheme \<Rightarrow> bool"
  by unfold_locales (auto simp: settling_def)

interpretation settling: rpc_neutral "settling :: 'z rpc_state_scheme \<Rightarrow> 'z rpc_state_scheme \<Rightarrow> bool"
  by unfold_locales (auto simp: settling_def)

lemma settling_loose: "settling s t \<Longrightarrow> loose now (db t) r \<Longrightarrow> loose now (db s) r"
  by (auto simp: settling_def loose_def)

lemma settling_same_rows:
  "spend (db t) = spend (db s) \<Longrightarrow> attempts (db t) = attempts (db s) \<Longrightarrow> settling s t"
  by (auto simp: settling_def attempt_keys_def)

lemma settling_moved:
  assumes "\<not> live st" "spend (db t) = update_rows row st u (spend (db s))" "attempts (db t) = attempts (db s)"
  shows "settling s t"
  using assms by (auto simp: settling_def attempt_keys_def update_rows_def apply_updates_def split: if_splits)

lemma moved_row_not_live:
  assumes "\<not> live st" "spend d = update_rows row st u rows" "keyed (chain_id row) (escrow row) (receipt_id row) r"
    and "r \<in> set (spend d)"
  shows "\<not> live (row_state r)"
  using assms by (auto simp: update_rows_def apply_updates_def split: if_splits)

section \<open>The steps of the loop\<close>

lemma settling_set_state:
  fixes E :: "'e ledger_env_scheme"
  assumes "\<not> live st"
  shows "state_io_rel (settling :: 'z books_scheme \<Rightarrow> 'z books_scheme \<Rightarrow> bool) (set_state E row st u)"
proof (rule state_io_relI)
  fix x and s t :: "'z books_scheme"
  assume run: "run_state (set_state E row st u) s = (x, t)"
  show "settling s t"
  proof (cases "sql_opt (u_fee_wei u) \<and> nonce_index_ok (update_rows row st u (spend (db s)))")
    case True
    then have "run_state (audit E (state_audit row st u))
        (s\<lparr>db := (db s)\<lparr>spend := update_rows row st u (spend (db s))\<rparr>\<rparr>) = (x, t)"
      using run by (simp add: run_set_state Let_def)
    from run_audit_spend [OF this] show ?thesis by (intro settling_moved [OF assms]) simp_all
  next
    case False
    then show ?thesis using run by (auto simp: run_set_state Let_def intro: settling_same_rows split: if_splits)
  qed
qed

lemma settling_marks:
  fixes E :: "'e ledger_env_scheme"
  shows "state_io_rel (settling :: 'z books_scheme \<Rightarrow> 'z books_scheme \<Rightarrow> bool) (mark_mined E row h fee)"
    and "state_io_rel (settling :: 'z books_scheme \<Rightarrow> 'z books_scheme \<Rightarrow> bool) (mark_dead E row reason)"
proof -
  show "state_io_rel (settling :: 'z books_scheme \<Rightarrow> 'z books_scheme \<Rightarrow> bool) (mark_mined E row h fee)"
    unfolding mark_mined_def by (rule settling_set_state) (simp add: live_def)
  show "state_io_rel (settling :: 'z books_scheme \<Rightarrow> 'z books_scheme \<Rightarrow> bool) (mark_dead E row reason)"
  proof (rule state_io_relI)
    fix x and s t :: "'z books_scheme"
    assume run: "run_state (mark_dead E row reason) s = (x, t)"
    obtain q w where set: "run_state (set_state E row Dead (no_updates\<lparr>u_dead_reason := Some reason\<rparr>)) s = (q, w)"
      by fastforce
    have "settling s w" using state_io_relD [OF settling_set_state set] by (simp add: live_def)
    moreover have "spend (db t) = spend (db w) \<and> attempts (db t) = attempts (db w)"
      using run set by (cases q) (auto simp: run_mark_dead split: option.splits)
    ultimately show "settling s t" by (auto simp: settling_def attempt_keys_def)
  qed
qed

lemma attempt_keys_map:
  assumes "\<And>a. at_chain_id (f a) = at_chain_id a \<and> at_escrow (f a) = at_escrow a
    \<and> at_receipt_id (f a) = at_receipt_id a \<and> at_account_nonce (f a) = at_account_nonce a"
  shows "attempt_keys (d\<lparr>attempts := map f (attempts d)\<rparr>) = attempt_keys d"
  by (simp add: attempt_keys_def image_image assms)

lemma settling_attempt_status: "state_io_rel settling (record_attempt_status h status)"
  unfolding record_attempt_status_def state_io_rel_def
  by (simp add: settling_def attempt_keys_map)

lemma settling_wall: "state_io_rel settling (wall E)"
  by (auto simp: state_io_rel_def wall_def read_clock_def intro: settling_same_rows)

lemma settling_get_db: "state_io_rel settling get_db"
  unfolding get_db_def by (rule settles.io_readE)

lemmas settling_steps = settling_marks settling_attempt_status settling_wall settling_get_db
  settling.io_reads settling.io_receipt_used

lemma settling_settle_attempts: "state_io_rel settling (settle_attempts P row as)"
  by (induction as) (simp_all only: settle_attempts.simps, (intro io_intros settling_steps; assumption)+)

lemma settling_reconcile_row: "state_io_rel settling (reconcile_row P now row)"
  unfolding reconcile_row_def Let_def by (intro io_intros settling_steps settling_settle_attempts)

section \<open>What one row's turn achieves\<close>

lemma keyed_self: "keyed (chain_id (to_row r)) (escrow (to_row r)) (receipt_id (to_row r)) r"
  by (simp add: keyed_def to_row_def spend_row.truncate_def)

lemma moved_not_loose:
  assumes "\<not> live st" "spend d = update_rows (to_row r) st u rows"
  shows "\<not> loose now d r"
  using moved_row_not_live [OF assms keyed_self] unfolding loose_def by blast

lemma mined_not_loose: "run_state (mark_mined E (to_row r) h fee) s = (Inr u, t) \<Longrightarrow> \<not> loose now (db t) r"
  unfolding mark_mined_def
  by (drule run_set_state_spend, elim conjE, rule moved_not_loose [rotated], assumption) (simp add: live_def)

lemma dead_not_loose: "run_state (mark_dead E (to_row r) reason) s = (Inr u, t) \<Longrightarrow> \<not> loose now (db t) r"
  by (drule mark_dead_success(1), rule moved_not_loose [rotated], assumption) (simp add: live_def)

lemma landed_not_loose:
  assumes "run_state (settle_attempts P (to_row r) as) s = (Inr True, t)"
  shows "\<not> loose now (db t) r"
  using assms
proof (induction as arbitrary: s)
  case (Cons a as)
  obtain q v where receipt: "run_state (rpc_receipt P (at_tx_hash a)) s = (q, v)" by fastforce
  show ?case
    using Cons receipt
    by (auto split: sum.splits prod.splits if_splits dest: mined_not_loose dead_not_loose)
qed simp

text \<open>A row whose turn ends with none of the four classifications is not loose.\<close>

lemma reconcile_row_settles:
  assumes "run_state (reconcile_row P now (to_row r)) s = (Inr u, t)"
  shows "\<not> loose now (db t) r"
proof -
  let ?row = "to_row r"
  obtain rid where rid: "fromhex (drop 2 (receipt_id ?row)) = Some rid"
    using assms by (cases "fromhex (drop 2 (receipt_id ?row))") (auto simp: reconcile_row_def someR_def)
  obtain q v where used: "run_state (receipt_used P (own_escrow P) rid (channel_bytes (channel_id ?row))) s = (q, v)"
    by fastforce
  obtain b where q: "q = Inr b"
    using assms used by (cases q) (auto simp: reconcile_row_def rid someR_def)
  let ?as = "attempts_for (db v) (chain_id ?row) (escrow ?row) (receipt_id ?row)"
  obtain q2 w where settle: "run_state (settle_attempts P ?row ?as) v = (q2, w)" by fastforce
  have run: "(if b then run_state (mark_mined P ?row [] 0) v
      else case q2 of Inl e \<Rightarrow> (Inl e, w)
        | Inr True \<Rightarrow> (Inr (), w)
        | Inr False \<Rightarrow>
            run_state (if row_state ?row = Reserved \<and> \<not> (\<exists>a \<in> set ?as. at_account_nonce a = account_nonce ?row)
              then mark_dead P ?row ''never signed''
              else if deadline ?row < now then mark_dead P ?row ''deadline passed before it landed''
              else ok ()) w) = (Inr u, t)"
    using assms used settle
    by (auto simp: reconcile_row_def rid someR_def q Let_def split: sum.splits bool.splits if_splits)
  show ?thesis
  proof (cases "b \<or> q2 = Inr True")
    case True
    then show ?thesis
      using run settle by (auto split: if_splits dest: mined_not_loose landed_not_loose)
  next
    case False
    then have q2: "q2 = Inr False" "\<not> b"
      using run by (auto split: sum.splits bool.splits)
    have keep: "settling v w" using state_io_relD [OF settling_settle_attempts settle] .
    have row: "row_state ?row = row_state r" "deadline ?row = deadline r" "account_nonce ?row = account_nonce r"
      "(chain_id ?row, escrow ?row, receipt_id ?row) = row_key r"
      by (simp_all add: to_row_def spend_row.truncate_def row_key_def)
    have sent: "(row_key r, account_nonce r) \<in> attempt_keys (db w)"
      if "a \<in> set ?as" "at_account_nonce a = account_nonce ?row" for a
    proof -
      have "((at_chain_id a, at_escrow a, at_receipt_id a), at_account_nonce a) = (row_key r, account_nonce r)"
        using that row(3,4) by (simp add: attempts_for_def)
      moreover have "((at_chain_id a, at_escrow a, at_receipt_id a), at_account_nonce a) \<in> attempt_keys (db v)"
        unfolding attempt_keys_def using that(1) by (intro imageI) (simp add: attempts_for_def)
      ultimately show ?thesis using keep by (simp add: settling_def)
    qed
    let ?unsent = "row_state ?row = Reserved \<and> \<not> (\<exists>a \<in> set ?as. at_account_nonce a = account_nonce ?row)"
    have turn: "run_state (if ?unsent then mark_dead P ?row ''never signed''
        else if deadline ?row < now then mark_dead P ?row ''deadline passed before it landed'' else ok ()) w = (Inr u, t)"
      using run q2 by simp
    show ?thesis
    proof (cases "?unsent \<or> deadline ?row < now")
      case True
      then show ?thesis using turn dead_not_loose by (cases ?unsent) (simp_all only: if_True if_False simp_thms, blast+)
    next
      case False
      then have "t = w" using turn by (simp only: if_False de_Morgan_disj simp_thms) simp
      moreover have "row_state r = Reserved \<Longrightarrow> (row_key r, account_nonce r) \<in> attempt_keys (db w)"
        using False sent row(1) by metis
      ultimately show ?thesis using False row(2) by (auto simp: loose_def)
    qed
  qed
qed

section \<open>The whole loop\<close>

lemma loop_settles:
  assumes "run_state (forE (reconcile_row P now) (map to_row rs)) s = (Inr u, t)" "r \<in> set rs"
  shows "\<not> loose now (db t) r"
  using assms
proof (induction rs arbitrary: s)
  case (Cons x rs)
  obtain v where first: "run_state (reconcile_row P now (to_row x)) s = (Inr (), v)"
    and rest: "run_state (forE (reconcile_row P now) (map to_row rs)) v = (Inr u, t)"
    using Cons.prems(1) by (auto split: prod.splits sum.splits)
  have "settling v t"
    using state_io_relD [OF settles.io_forE [OF settling_reconcile_row] rest] .
  then show ?case
    using Cons.IH [OF rest] Cons.prems(2) reconcile_row_settles [OF first] settling_loose by auto
qed simp

lemma reconcile_settles:
  assumes "run_state (reconcile P) s = (Inr b, t)"
  shows "\<not> loose (now_at P s) (db t) r"
proof
  assume loose: "loose (now_at P s) (db t) r"
  obtain v where wall: "run_state (wall P) s = (Inr (now_at P s), v)" "db v = db s"
    by (auto simp: run_wall)
  then have loop: "run_state (forE (reconcile_row P (now_at P s)) (unresolved (db s))) v = (Inr (), t)"
    using assms by (auto simp: reconcile_def split: prod.splits sum.splits)
  have "settling v t"
    using state_io_relD [OF settles.io_forE [OF settling_reconcile_row] loop] .
  then have "loose (now_at P s) (db s) r" using settling_loose [OF _ loose] wall(2) by metis
  then have "r \<in> set (sort_key seq (filter (\<lambda>r. live (row_state r)) (spend (db s))))"
    by (simp add: loose_def)
  then show False
    using loop_settles [OF loop [unfolded unresolved_def]] loose by blast
qed

end
