(* ===== verification/Boot_Sample.thy ===== *)
theory Boot_Sample
  imports Policy_Sample
begin

text \<open>Books an earlier process left behind, and the sample signer booting on them.\<close>

section \<open>A reservation an earlier process never signed\<close>

definition left_args :: reserve_args where
  "left_args =
     \<lparr>r_chain_id = 8453, r_escrow = own_escrow sample_signer, r_receipt_id = ''0x'' @ zeros 63 @ ''7'',
      r_channel_id = ''0x'' @ zeros 63 @ ''8'', r_depositor = depositor_addr, r_token = TOKEN, r_amount = 10000,
      r_deadline = 2000000, r_channel_nonce = 0, r_calldata_keccak = ''0xca'',
      r_to_addr = py_lower (own_escrow sample_signer), r_gas_limit = 100000, r_hub_gas_hint = 100000,
      r_max_fee_wei = 1000, r_from_addr = hub_addr\<rparr>"

definition left_books :: books where
  "left_books =
     (let r = fresh_row toy_hash genesis left_args 1 1000000 5
      in sample_books\<lparr>db := empty_db\<lparr>spend := [r], spend_head := row_tag r, max_seq := 1, max_ts := 1000000\<rparr>\<rparr>)"

lemma left_boots:
  "case run_state (boot sample_signer) (new_signer left_books) of (r, t) \<Rightarrow>
     ready t \<and> map row_state (spend (db t)) = [Dead]"
  by code_simp

end
