(* ===== verification/Boot_Settle.thy ===== *)
theory Boot_Settle
  imports Boot_Props Policy_Settle Boot_Sample
begin

text \<open>What a finished boot has made of the rows an earlier process left.\<close>

lemma boot_chain_settles:
  fixes s u :: signer_state
  assumes "run_state (boot_chain P) s = (Inr (rec, n), u)"
  shows "\<exists>k. \<forall>r. \<not> loose (py_trunc (clock P k)) (db u) r"
proof -
  obtain v where loop: "\<exists>w. run_state (reconcile P) w = (Inr rec, v) "
    and count: "run_state (transaction_count P (own_address P) ''pending'') v = (Inr n, u)"
    using assms by (auto simp: boot_chain_def split: prod.splits sum.splits)
  then obtain w where "run_state (reconcile P) w = (Inr rec, v)" by blast
  then have "\<not> loose (now_at P w) (db v) r" for r by (rule reconcile_settles)
  moreover have "settling v u" using state_io_relD [OF settling.io_reads(4) count] .
  ultimately show ?thesis using settling_loose unfolding now_at_def by blast
qed

text \<open>
  C16. The rows are classified before the service is ready: when boot leaves it ready, every live row
  has a deadline not before a reading of the clock, and every reservation among them has a recorded
  transaction with its nonce. What an earlier process reserved and never signed, or signed and let
  expire, holds no budget any more.
\<close>

theorem ready_boot_settles_rows:
  fixes s t :: signer_state
  assumes "run_state (boot P) s = (r, t)" "ready t"
  shows "\<exists>k. \<forall>row \<in> set (spend (db t)). live (row_state row) \<longrightarrow>
    py_trunc (clock P k) \<le> deadline row
    \<and> (row_state row = Reserved \<longrightarrow>
        (\<exists>a \<in> set (attempts (db t)). at_chain_id a = chain_id row \<and> at_escrow a = escrow row
           \<and> at_receipt_id a = receipt_id row \<and> at_account_nonce a = account_nonce row))"
proof -
  obtain rec n u where chain: "run_state (boot_chain P) (s\<lparr>ready := False\<rparr>) = (Inr (rec, n), u)"
    and finish: "run_state (boot_finish P rec n) u = (r, t)"
    using boot_ready_parts(3) [OF assms] by blast
  have "\<not> ready u" using state_io_rel_same [OF ready_boot_chain chain] by simp
  note sets = boot_finish_sets [OF finish this assms(2)]
  obtain k where "\<And>row. \<not> loose (py_trunc (clock P k)) (db u) row"
    using boot_chain_settles [OF chain] by blast
  moreover have "loose now (db t) row = loose now (db u) row" for now row
    by (simp add: loose_def attempt_keys_def sets(2,3))
  ultimately have settled: "\<not> loose (py_trunc (clock P k)) (db t) row" for row by simp
  show ?thesis
  proof (intro exI [of _ k] ballI impI conjI)
    fix row assume row: "row \<in> set (spend (db t))" "live (row_state row)"
    show "py_trunc (clock P k) \<le> deadline row"
      using settled [of row] row by (simp add: loose_def)
    assume "row_state row = Reserved"
    then show "\<exists>a \<in> set (attempts (db t)). at_chain_id a = chain_id row \<and> at_escrow a = escrow row
           \<and> at_receipt_id a = receipt_id row \<and> at_account_nonce a = account_nonce row"
      using settled [of row] row by (auto simp: loose_def attempt_keys_def row_key_def)
  qed
qed

theorem ready_boot_settles_rows_witness:
  "\<exists>t k. snd (run_state (boot sample_signer) (new_signer left_books)) = t \<and> ready t
     \<and> map row_state (spend (db (new_signer left_books))) = [Reserved]
     \<and> (\<forall>row \<in> set (spend (db t)). live (row_state row) \<longrightarrow> py_trunc (sample_clock k) \<le> deadline row)"
proof -
  obtain r t where run: "run_state (boot sample_signer) (new_signer left_books) = (r, t)" by fastforce
  then have ready: "ready t" using left_boots by simp
  have "clock sample_signer = sample_clock" by (simp add: sample_signer_def)
  then have "\<exists>k. \<forall>row \<in> set (spend (db t)). live (row_state row) \<longrightarrow> py_trunc (sample_clock k) \<le> deadline row"
    using ready_boot_settles_rows [OF run ready] by metis
  moreover have "map row_state (spend (db (new_signer left_books))) = [Reserved]"
    by (simp add: left_books_def Let_def fresh_row_def new_signer_def)
  ultimately show ?thesis using run ready by auto
qed

end
