(* ===== verification/Connections.thy ===== *)
theory Connections
  imports Prelude
begin

text \<open>
  The connections of \<open>escrow_signer/server.py\<close>. \<open>BoundedHTTPServer\<close> bounds how many are parsed at the
  same time: the state is the value of the semaphore and the number of threads that hold a connection.
  \<open>Handler\<close> puts an absolute deadline on the reading of each: the state is the timer, whether it has
  shut the socket down, and how far the handler is.
\<close>

record pool =
  slots :: nat
  workers :: nat

definition CONNECTIONS :: nat where "CONNECTIONS = 32"

definition new_pool :: pool where
  "new_pool = \<lparr>slots = CONNECTIONS, workers = 0\<rparr>"

section \<open>The semaphore\<close>

text \<open>\<open>acquire(blocking=False)\<close>, and \<open>release\<close>, which raises above the initial value.\<close>

definition acquire :: "(pool, bool) py" where
  "acquire =
     bindE (readE slots) (\<lambda>n.
       if n = 0 then ok False else thenE (writeE (\<lambda>p. p\<lparr>slots := n - 1\<rparr>)) (ok True))"

definition release :: "(pool, unit) py" where
  "release =
     bindE (readE slots) (\<lambda>n.
       if CONNECTIONS \<le> n then raise ValueError else writeE (\<lambda>p. p\<lparr>slots := n + 1\<rparr>))"

section \<open>Requests\<close>

text \<open>The inherited \<open>process_request\<close> starts a thread, or raises when none can be started.\<close>

definition start_thread :: "bool \<Rightarrow> (pool, unit) py" where
  "start_thread starts =
     (if starts then writeE (\<lambda>p. p\<lparr>workers := workers p + 1\<rparr>) else raise (OtherError ''RuntimeError''))"

text \<open>The result says whether the connection is parsed; if not, it was shut down.\<close>

definition process_request :: "bool \<Rightarrow> (pool, bool) py" where
  "process_request starts =
     bindE acquire (\<lambda>got.
       if \<not> got then ok False
       else tryE (start_thread starts) (\<lambda>e. thenE release (raise e)) (\<lambda>_. ok True))"

text \<open>The thread: whatever the handler does, an exception included, the slot goes back.\<close>

definition process_request_thread :: "(pool, unit) py \<Rightarrow> (pool, unit) py" where
  "process_request_thread handler =
     tryE handler
       (\<lambda>e. thenE (writeE (\<lambda>p. p\<lparr>workers := workers p - 1\<rparr>)) (thenE release (raise e)))
       (\<lambda>_. thenE (writeE (\<lambda>p. p\<lparr>workers := workers p - 1\<rparr>)) release)"

text \<open>Connections arrive and threads end in any order. A handler does not touch the semaphore.\<close>

inductive pool_step :: "pool \<Rightarrow> pool \<Rightarrow> bool" where
  arrives: "run_state (process_request starts) p = (r, q) \<Longrightarrow> pool_step p q"
| finishes: "0 < workers p \<Longrightarrow> run_state (process_request_thread (liftE h)) p = (r, q) \<Longrightarrow> pool_step p q"

inductive_cases pool_stepE: "pool_step p q"

section \<open>The bound\<close>

lemma run_acquire [simp]:
  "run_state acquire p = (if slots p = 0 then (Inr False, p) else (Inr True, p\<lparr>slots := slots p - 1\<rparr>))"
  by (simp add: acquire_def)

lemma run_release [simp]:
  "run_state release p = (if CONNECTIONS \<le> slots p then (Inl ValueError, p) else (Inr (), p\<lparr>slots := slots p + 1\<rparr>))"
  by (simp add: release_def)

lemma run_process_request:
  assumes "slots p + workers p = CONNECTIONS"
  shows "run_state (process_request starts) p =
    (if workers p = CONNECTIONS then (Inr False, p)
     else if starts then (Inr True, p\<lparr>slots := slots p - 1, workers := workers p + 1\<rparr>)
     else (Inl (OtherError ''RuntimeError''), p))"
  using assms by (auto simp: process_request_def start_thread_def)

lemma run_process_request_thread:
  assumes "slots p + workers p = CONNECTIONS" "0 < workers p"
  shows "run_state (process_request_thread (liftE h)) p = (h, p\<lparr>slots := slots p + 1, workers := workers p - 1\<rparr>)"
  using assms by (auto simp: process_request_thread_def split: sum.split)

lemma pool_step_keeps:
  assumes "pool_step p q" "slots p + workers p = CONNECTIONS"
  shows "slots q + workers q = CONNECTIONS"
  using assms by (elim pool_stepE) (auto simp: run_process_request run_process_request_thread split: if_splits)

text \<open>
  C35. At most 32 connections are parsed at a time, no slot is ever lost or returned twice, and the
  next connection is refused exactly when 32 are being parsed: in every pool that arrivals, failed
  thread starts and ending threads lead to, free slots and threads add up to 32, a failed start
  leaves the pool as it was, and a thread's end gives back its slot and raises nothing but what its
  handler raised.
\<close>

theorem connections_bounded:
  assumes "pool_step\<^sup>*\<^sup>* new_pool p"
  shows "slots p + workers p = 32
    \<and> (\<exists>q. run_state (process_request True) p = (Inr (workers p < 32), q) \<and> workers q = min 32 (workers p + 1))
    \<and> snd (run_state (process_request False) p) = p
    \<and> (\<forall>h. 0 < workers p \<longrightarrow> run_state (process_request_thread (liftE h)) p
          = (h, p\<lparr>slots := slots p + 1, workers := workers p - 1\<rparr>))"
proof -
  have inv: "slots p + workers p = CONNECTIONS"
    using assms by induction (auto simp: new_pool_def intro: pool_step_keeps)
  moreover have "run_state (process_request_thread (liftE h)) p
      = (h, p\<lparr>slots := slots p + 1, workers := workers p - 1\<rparr>)" if "0 < workers p" for h
    by (rule run_process_request_thread [OF inv that])
  ultimately show ?thesis
    by (auto simp: run_process_request [OF inv] CONNECTIONS_def)
qed

theorem connections_bounded_witness:
  "\<exists>q. run_state (process_request True) (new_pool\<lparr>slots := 31, workers := 1\<rparr>) = (Inr True, q) \<and> workers q = 2"
proof -
  have "run_state (process_request True) new_pool = (Inr True, new_pool\<lparr>slots := 31, workers := 1\<rparr>)"
    by (simp add: process_request_def start_thread_def new_pool_def CONNECTIONS_def)
  then have "pool_step\<^sup>*\<^sup>* new_pool (new_pool\<lparr>slots := 31, workers := 1\<rparr>)"
    by (blast intro: pool_step.arrives)
  from connections_bounded [OF this] show ?thesis by (auto simp: numeral_2_eq_2)
qed

section \<open>The read deadline\<close>

text \<open>
  Where the handler of one connection is: reading the request, in \<open>do_GET\<close> or \<open>do_POST\<close>, past the
  reading (waiting for \<open>signing_lock\<close>, or under it), answered, finished. The handler answers at most one
  request per connection: \<open>_send\<close> sets \<open>close_connection\<close>.
\<close>

datatype progress = Reading | Routed | Deciding | Answered | Finished

text \<open>
  \<open>threading.Timer\<close>: waiting, past the check of its cancellation and about to call \<open>_expire\<close>, or done.
\<close>

datatype timer = Armed | Firing | Off

record connection =
  stage :: progress
  read_deadline :: timer
  cut_off :: bool

definition setup_conn :: connection where
  "setup_conn = \<lparr>stage = Reading, read_deadline = Armed, cut_off = False\<rparr>"

text \<open>\<open>Timer.cancel\<close> comes too late for a timer that is firing.\<close>

definition cancel :: "connection \<Rightarrow> connection" where
  "cancel c = (if read_deadline c = Armed then c\<lparr>read_deadline := Off\<rparr> else c)"

text \<open>\<open>_expire\<close>: the socket is shut down, whatever the handler is doing.\<close>

definition expire_conn :: "connection \<Rightarrow> connection" where
  "expire_conn c = c\<lparr>read_deadline := Off, cut_off := True\<rparr>"

text \<open>
  Each step is one of the handler, or the timer's. An answer without a decision (a GET, a path that
  does not exist, a malformed length, a body that did not arrive) comes straight from \<open>Routed\<close>, as do
  401 and 413. Any step of the handler may raise; \<open>finish\<close> runs in any case.
\<close>

inductive conn_step :: "connection \<Rightarrow> connection \<Rightarrow> bool" where
  fires: "read_deadline c = Armed \<Longrightarrow> conn_step c (c\<lparr>read_deadline := Firing\<rparr>)"
| expires: "read_deadline c = Firing \<Longrightarrow> conn_step c (expire_conn c)"
| parsed: "stage c = Reading \<Longrightarrow> conn_step c (c\<lparr>stage := Routed\<rparr>)"
| body_read: "stage c = Routed \<Longrightarrow> conn_step c ((cancel c)\<lparr>stage := Deciding\<rparr>)"
| sends: "stage c \<in> {Routed, Deciding} \<Longrightarrow> conn_step c ((cancel c)\<lparr>stage := Answered\<rparr>)"
| finishes: "stage c \<noteq> Finished \<Longrightarrow> conn_step c ((cancel c)\<lparr>stage := Finished\<rparr>)"

inductive_cases conn_stepE: "conn_step c d"

definition past_reading :: "connection \<Rightarrow> bool" where
  "past_reading c \<longleftrightarrow> stage c \<in> {Deciding, Answered, Finished}"

lemma deadline_only_reading: "conn_step\<^sup>*\<^sup>* setup_conn c \<Longrightarrow> past_reading c \<Longrightarrow> read_deadline c \<noteq> Armed"
proof (induction rule: rtranclp_induct)
  case (step c d)
  from step.hyps(2) step.IH step.prems show ?case
    by cases (auto simp: cancel_def expire_conn_def past_reading_def)
qed (simp add: setup_conn_def past_reading_def)

text \<open>
  The deadline covers the reading: no timer waits beyond it, and a connection whose request has been
  read by then is never cut off, however long it waits for \<open>signing_lock\<close> and however long the decision
  takes. The one exception is a timer that was already firing when it was cancelled.
\<close>

theorem deadline_spares_decisions:
  assumes "conn_step\<^sup>*\<^sup>* setup_conn c" "past_reading c" "read_deadline c \<noteq> Firing" "conn_step\<^sup>*\<^sup>* c d"
  shows "cut_off d = cut_off c \<and> read_deadline d = Off"
proof -
  have off: "read_deadline c = Off"
    using deadline_only_reading [OF assms(1,2)] assms(3) by (cases "read_deadline c") auto
  from assms(4) have "past_reading d \<and> cut_off d = cut_off c \<and> read_deadline d = Off"
  proof induction
    case (step d e)
    from step.hyps(2) step.IH show ?case by cases (auto simp: cancel_def past_reading_def)
  qed (use assms(2) off in simp)
  then show ?thesis by blast
qed

lemma conn_path:
  "conn_step\<^sup>*\<^sup>* setup_conn (setup_conn\<lparr>stage := Deciding, read_deadline := Off\<rparr>)"
  "conn_step\<^sup>*\<^sup>* setup_conn (setup_conn\<lparr>stage := Deciding, read_deadline := Firing\<rparr>)"
proof -
  let ?r = "setup_conn\<lparr>stage := Routed\<rparr>"
  have r: "conn_step setup_conn ?r" by (rule conn_step.parsed) (simp add: setup_conn_def)
  have "conn_step ?r (setup_conn\<lparr>stage := Deciding, read_deadline := Off\<rparr>)"
    using conn_step.body_read [of ?r] by (simp add: cancel_def setup_conn_def)
  with r show "conn_step\<^sup>*\<^sup>* setup_conn (setup_conn\<lparr>stage := Deciding, read_deadline := Off\<rparr>)"
    by (blast intro: rtranclp_trans r_into_rtranclp)
  have "conn_step ?r (?r\<lparr>read_deadline := Firing\<rparr>)" by (rule conn_step.fires) (simp add: setup_conn_def)
  moreover have "conn_step (?r\<lparr>read_deadline := Firing\<rparr>) (setup_conn\<lparr>stage := Deciding, read_deadline := Firing\<rparr>)"
    using conn_step.body_read [of "?r\<lparr>read_deadline := Firing\<rparr>"] by (simp add: cancel_def setup_conn_def)
  ultimately show "conn_step\<^sup>*\<^sup>* setup_conn (setup_conn\<lparr>stage := Deciding, read_deadline := Firing\<rparr>)"
    using r by (blast intro: rtranclp_trans r_into_rtranclp)
qed

theorem deadline_spares_decisions_witness:
  "\<not> cut_off (setup_conn\<lparr>stage := Answered, read_deadline := Off\<rparr>)"
proof -
  let ?d = "setup_conn\<lparr>stage := Deciding, read_deadline := Off\<rparr>"
  have "conn_step ?d (setup_conn\<lparr>stage := Answered, read_deadline := Off\<rparr>)"
    using conn_step.sends [of ?d] by (simp add: cancel_def setup_conn_def)
  then have path: "conn_step\<^sup>*\<^sup>* ?d (setup_conn\<lparr>stage := Answered, read_deadline := Off\<rparr>)" ..
  from deadline_spares_decisions [OF conn_path(1) _ _ path] show ?thesis
    by (simp add: past_reading_def setup_conn_def)
qed

text \<open>The exception is real: the answer to a decision can be lost that way, and is then replayed.\<close>

lemma late_timer_cuts_decision:
  "\<exists>c d. conn_step\<^sup>*\<^sup>* setup_conn c \<and> stage c = Deciding \<and> \<not> cut_off c \<and> conn_step c d \<and> cut_off d"
  using conn_path(2) conn_step.expires [of "setup_conn\<lparr>stage := Deciding, read_deadline := Firing\<rparr>"]
  by (force simp: setup_conn_def expire_conn_def)

end
