(* ===== verification/Response.thy ===== *)
theory Response
  imports Policy_Answer Policy_Sample
begin

text \<open>
  \<open>Handler._send\<close> of \<open>escrow_signer/server.py\<close>: the HTTP response made of a status and the members of a
  JSON body. The headers are those the code sets; \<open>send_response\<close> adds \<open>Server\<close> and \<open>Date\<close>.
\<close>

section \<open>JSON text\<close>

text \<open>\<open>json.dumps(payload, separators=(",", ":"))\<close>: members in the order they were inserted.\<close>

fun joined :: "string list \<Rightarrow> string" where
  "joined [] = []"
| "joined [v] = v"
| "joined (v # w # vs) = v @ '','' @ joined (w # vs)"

fun dump_json :: "json \<Rightarrow> string" where
  "dump_json JNull = ''null''"
| "dump_json (JBool b) = (if b then ''true'' else ''false'')"
| "dump_json (JInt i) = int_str i"
| "dump_json (JFloat t) = t"
| "dump_json (JStr t) = dump_str t"
| "dump_json (JList vs) = ''['' @ joined (map dump_json vs) @ '']''"
| "dump_json (JObj kvs) = ''{'' @ joined (map (\<lambda>(k, v). dump_str k @ '':'' @ dump_json v) kvs) @ ''}''"

section \<open>The response\<close>

record http_response =
  rs_status :: int
  rs_headers :: "(string \<times> string) list"
  rs_body :: bytes

definition send :: "response \<Rightarrow> http_response" where
  "send resp =
     (let body = py_encode (dump_json (JObj (snd resp))) in
      \<lparr>rs_status = fst resp,
       rs_headers =
         [(''Content-Type'', ''application/json''), (''Content-Length'', int_str (int (length body))),
          (''Cache-Control'', ''no-store''), (''X-Content-Type-Options'', ''nosniff''), (''Connection'', ''close'')],
       rs_body = body\<rparr>)"

section \<open>What is ever answered\<close>

definition answerable :: "response \<Rightarrow> bool" where
  "answerable resp \<longleftrightarrow>
     fst resp = 200
     \<or> fst resp \<in> {400, 401, 404, 409, 413, 422, 429, 500, 503} \<and> (\<exists>e rest. snd resp = (''error'', JStr e) # rest)"

lemma answerable_simps [simp]:
  "answerable (200, b)" "answerable (st, error_body e) \<longleftrightarrow> st \<in> {200, 400, 401, 404, 409, 413, 422, 429, 500, 503}"
  by (auto simp: answerable_def error_body_def)

text \<open>A decision with which \<open>_decide\<close> may be called.\<close>

abbreviation decidable :: "decision \<Rightarrow> bool" where
  "decidable d \<equiv> answerable (d_status d, d_body d)"

lemma decidable_decision: "decision_ok d \<Longrightarrow> decidable d"
  by (auto simp: decision_ok_def refusal_def hash_answer_def answerable_def)

lemma decidable_plain: "st \<in> {401, 413, 500} \<Longrightarrow> decidable (plain_refusal st e)"
  by (auto simp: plain_refusal_def refuse_def answerable_def)

lemma yields_tryE_through:
  "yields R m \<Longrightarrow> (\<And>e. yields Q (h e)) \<Longrightarrow> (\<And>x. R x \<Longrightarrow> yields Q (k x)) \<Longrightarrow> yields Q (tryE m h k)"
  unfolding yields_def by (blast dest: produces_tryE)

lemma yields_through: "yields R m \<Longrightarrow> (\<And>x. R x \<Longrightarrow> yields Q (f x)) \<Longrightarrow> yields Q (bindE m f)"
  unfolding bindE_def by (erule yields_tryE_through) (rule yields_raise)

lemma decide_answerable: "decidable d \<Longrightarrow> yields answerable (decide P d)"
  unfolding decide_def by (intro yields_intros) simp_all

lemma handled_decidable: "yields decidable (handled P raw)"
  unfolding handled_def
  by (rule yields_tryE_through [OF handle_shape]; rule yields_ok) (simp_all add: decidable_plain decidable_decision)

lemma POST_answerable: "yields answerable (do_POST P rq)"
proof -
  have post: "yields answerable (bindE (handled P raw) (decide P))" for raw
    by (rule yields_through [OF handled_decidable decide_answerable])
  show ?thesis
    unfolding do_POST_def Let_def
    by (rule yields_if [OF yields_ok yields_bindE], simp)
      (intro post yields_if yields_option yields_ok decide_answerable decidable_plain; simp)
qed

lemma yields_readE: "(\<And>s. Q (f s)) \<Longrightarrow> yields Q (readE f)"
  unfolding yields_def produces_def by (metis Pair_inject run_readE sum.inject(2))

lemma yields_two_segments:
  "(\<And>p rid. yields Q (f p rid)) \<Longrightarrow> yields Q g \<Longrightarrow> yields Q (case xs of [p, rid] \<Rightarrow> f p rid | _ \<Rightarrow> g)"
  by (auto split: list.split)

lemma GET_answerable: "yields answerable (do_GET P path)"
  unfolding do_GET_def by (intro yields_intros yields_readE yields_two_segments) simp_all

text \<open>
  C29. The service never redirects, so a bearer token is never carried anywhere else: whatever a GET or
  a POST is answered has status 200 or one of nine client and server errors, an error says why in its
  body, and the response goes out with the length of its body, no \<open>Location\<close>, no caching, and the
  connection closed after it.
\<close>

theorem responses_never_redirect:
  assumes "run_state (do_POST P rq) s = (Inr resp, t) \<or> run_state (do_GET P path) s = (Inr resp, t)"
  shows "rs_status (send resp) \<in> {200, 400, 401, 404, 409, 413, 422, 429, 500, 503}
    \<and> (rs_status (send resp) \<noteq> 200 \<longrightarrow> (\<exists>e rest. snd resp = (''error'', JStr e) # rest))
    \<and> map_of (rs_headers (send resp)) ''Location'' = None
    \<and> map_of (rs_headers (send resp)) ''Content-Length'' = Some (int_str (int (length (rs_body (send resp)))))
    \<and> map_of (rs_headers (send resp)) ''Cache-Control'' = Some ''no-store''
    \<and> map_of (rs_headers (send resp)) ''Connection'' = Some ''close''"
proof -
  have "answerable resp"
    using assms POST_answerable GET_answerable producesI unfolding yields_def by metis
  then show ?thesis by (auto simp: answerable_def send_def Let_def)
qed

text \<open>A slash too many is not redirected to the sign path.\<close>

theorem responses_never_redirect_witness:
  "\<exists>resp. run_state (do_POST sample_signer (sample_rq\<lparr>rq_path := ''/sign/''\<rparr>)) booted = (Inr resp, booted)
     \<and> rs_status (send resp) = 404 \<and> map_of (rs_headers (send resp)) ''Location'' = None
     \<and> map_of (rs_headers (send resp)) ''Connection'' = Some ''close''"
proof -
  have run: "run_state (do_POST sample_signer (sample_rq\<lparr>rq_path := ''/sign/''\<rparr>)) booted
      = (Inr (404, error_body ''not_found''), booted)"
    by (simp add: do_POST_def sample_rq_def sample_signer_def sample_settings_def)
  from responses_never_redirect [OF disjI1, OF run] run show ?thesis
    by (simp add: send_def Let_def)
qed

end
