(* ===== verification/Redaction.thy ===== *)
theory Redaction
  imports Chainio
begin

text \<open>
  What the source lets into its log: \<open>Settings.redacted\<close> of \<open>config.py\<close>, \<open>DebitCall.redacted\<close> of
  \<open>calldata.py\<close> and \<open>scrub\<close> of \<open>chainio.py\<close>, which blanks the credentials of an endpoint's URL.
\<close>

section \<open>Settings and calls\<close>

definition redacted_settings :: "environ \<Rightarrow> settings \<Rightarrow> (string \<times> json) list" where
  "redacted_settings environ s =
     [(''bind'', JStr (bind_host s @ '':'' @ int_str (bind_port s))), (''sign_path'', JStr (sign_path s)),
      (''db_path'', JStr (db_path s)), (''rpc_endpoints'', JInt (int (length (rpc_urls s)))),
      (''chain_id'', JInt CHAIN_ID), (''deployment'', JStr (DEPLOYMENT environ)),
      (''escrow'', JStr (ESCROW environ)), (''token'', JStr TOKEN), (''gas_hard_cap'', JInt GAS_HARD_CAP),
      (''priority_fee_wei'', JInt (priority_fee_wei s)), (''max_fee_wei_ceiling'', JInt (max_fee_wei_ceiling s)),
      (''caps'', JObj (map (\<lambda>(k, v). (k, if v = - 1 then JStr UNLIMITED else JInt v)) (caps_items (spend_caps s)))),
      (''max_gas_only_per_24h'', JInt (max_gas_only_per_24h s)),
      (''sweep_to'', JStr (if sweep_to s = [] then ''off'' else sweep_to s)),
      (''sweep_min_units'', JInt (sweep_min_units s)), (''sweep_interval_s'', JInt (sweep_interval_s s))]"

definition redacted_call :: "debit_call \<Rightarrow> (string \<times> json) list" where
  "redacted_call c =
     [(''channel_id'', JStr (hex0x (call_channel c))), (''receipt_id'', JStr (hex0x (call_receipt c))),
      (''amount_units'', JInt (call_amount c)), (''deadline'', JInt (call_deadline c)),
      (''signature'', JStr (''<'' @ int_str (int (length (call_signature c))) @ '' bytes>''))]"

text \<open>
  The announcement does not depend on the key, the token or what the URLs say, nor a call's on the
  bytes of the buyer's signature.
\<close>

theorem redacted_settings_secret:
  "length us = length (rpc_urls s) \<Longrightarrow>
     redacted_settings environ (s\<lparr>private_key := k, bearer_token := t, rpc_urls := us\<rparr>) = redacted_settings environ s"
  by (simp add: redacted_settings_def)

theorem redacted_call_secret:
  "length sig = length (call_signature c) \<Longrightarrow> redacted_call (c\<lparr>call_signature := sig\<rparr>) = redacted_call c"
  by (simp add: redacted_call_def)

section \<open>Credentials in URLs\<close>

text \<open>\<open>_CREDENTIALS\<close>, that is \<open>//[^/@\s]*:[^/@\s]*@\<close>: what follows a match at the start of the text.\<close>

definition userinfo_char :: "char \<Rightarrow> bool" where
  "userinfo_char c \<longleftrightarrow> c \<noteq> CHR ''/'' \<and> c \<noteq> CHR ''@'' \<and> \<not> space_char c"

definition credentials :: "string \<Rightarrow> string option" where
  "credentials s =
     (if starts_with ''//'' s
        \<and> CHR '':'' \<in> set (takeWhile userinfo_char (drop 2 s))
        \<and> starts_with ''@'' (dropWhile userinfo_char (drop 2 s))
      then Some (drop 1 (dropWhile userinfo_char (drop 2 s))) else None)"

lemma credentials_shorter: "credentials s = Some r \<Longrightarrow> length r < length s"
  using length_dropWhile_le [of userinfo_char "drop 2 s"]
  by (cases s) (auto simp: credentials_def starts_with_def split: if_splits)

text \<open>\<open>_CREDENTIALS.sub("//<redacted>@", text)\<close>, from left to right.\<close>

function scrub :: "string \<Rightarrow> string" where
  "scrub [] = []"
| "scrub (c # cs) =
     (case credentials (c # cs) of Some r \<Rightarrow> ''//<redacted>@'' @ scrub r | None \<Rightarrow> c # scrub cs)"
  by pat_completeness auto
termination
  by (relation "measure length") (auto dest: credentials_shorter)

lemma credentials_slashes: "credentials s = Some r \<Longrightarrow> \<exists>t. s = CHR ''/'' # CHR ''/'' # t"
  by (cases s; cases "tl s") (auto simp: credentials_def starts_with_def split: if_splits)

lemma credentials_third:
  "credentials (CHR ''/'' # CHR ''/'' # CHR ''/'' # t) = None"
  by (simp add: credentials_def userinfo_char_def)

lemma scrub_run:
  "takeWhile userinfo_char (scrub t) = takeWhile userinfo_char t
   \<and> take 1 (dropWhile userinfo_char (scrub t)) = take 1 (dropWhile userinfo_char t)"
proof (induction t)
  case (Cons c cs)
  show ?case
  proof (cases "credentials (c # cs)")
    case (Some r)
    then show ?thesis
      using credentials_slashes [OF Some] by (auto simp: userinfo_char_def)
  qed (use Cons in simp)
qed simp

lemma starts_at: "starts_with ''@'' s \<longleftrightarrow> take 1 s = ''@''"
  by (simp add: starts_with_def)

lemma credentials_pair:
  "credentials (CHR ''/'' # CHR ''/'' # t) = None \<longleftrightarrow>
     \<not> (CHR '':'' \<in> set (takeWhile userinfo_char t) \<and> take 1 (dropWhile userinfo_char t) = ''@'')"
  by (simp add: credentials_def starts_with_def)

lemma scrub_head:
  assumes "credentials (c # cs) = None"
  shows "credentials (c # scrub cs) = None"
proof (rule ccontr)
  assume "credentials (c # scrub cs) \<noteq> None"
  then obtain t where t: "c = CHR ''/''" "scrub cs = CHR ''/'' # t" using credentials_slashes by force
  then obtain d ds where cs: "cs = d # ds" by (cases cs) auto
  show False
  proof (cases "credentials cs")
    case (Some r)
    then have "scrub cs = ''//<redacted>@'' @ scrub r" by (simp add: cs)
    then show False using \<open>credentials (c # scrub cs) \<noteq> None\<close> credentials_third t(1) by simp
  next
    case None
    then have "d = CHR ''/''" "t = scrub ds" using t(2) cs by simp_all
    moreover have "credentials (CHR ''/'' # CHR ''/'' # scrub ds) = credentials (CHR ''/'' # CHR ''/'' # ds) \<or>
        credentials (CHR ''/'' # CHR ''/'' # ds) \<noteq> None"
      using credentials_pair [of ds] credentials_pair [of "scrub ds"] scrub_run [of ds] by metis
    ultimately show False
      using assms \<open>credentials (c # scrub cs) \<noteq> None\<close> t cs by metis
  qed
qed

lemma blanked_clean:
  assumes "credentials (drop (k - 13) r) = None"
  shows "credentials (drop k (''//<redacted>@'' @ r)) = None"
proof (cases "k < 13")
  case True
  then have "k = 0 \<or> k = 1 \<or> k = 2 \<or> k = 3 \<or> k = 4 \<or> k = 5 \<or> k = 6 \<or> k = 7 \<or> k = 8 \<or> k = 9 \<or> k = 10 \<or> k = 11 \<or> k = 12"
    by presburger
  then show ?thesis by (auto simp: credentials_def starts_with_def userinfo_char_def space_char_def)
next
  case False
  moreover have "length ''//<redacted>@'' = 13" by simp
  ultimately show ?thesis using assms by (simp only: drop_append drop_all append_Nil not_less)
qed

text \<open>A scrubbed text has no credentials left at any place, and scrubbing it again changes nothing.\<close>

theorem scrub_clean: "credentials (drop k (scrub s)) = None"
proof (induction s arbitrary: k rule: scrub.induct)
  case (2 c cs)
  show ?case
  proof (cases "credentials (c # cs)")
    case (Some r)
    then show ?thesis
      using blanked_clean [OF 2(2) [OF Some]] by (simp only: scrub.simps Some option.case)
  next
    case None
    then show ?thesis using scrub_head [OF None] 2(1) [OF None] None by (cases k) simp_all
  qed
qed (simp add: credentials_def starts_with_def)

theorem scrub_idempotent: "scrub (scrub s) = scrub s"
proof -
  have "scrub t = t" if "\<And>k. credentials (drop k t) = None" for t
    using that
  proof (induction t)
    case (Cons c t)
    then show ?case using Cons.prems [of 0] Cons.prems [of "Suc _"] by simp
  qed simp
  then show ?thesis using scrub_clean by blast
qed

text \<open>A credential without a colon, as in a URL that carries a bare token, is not one for \<open>scrub\<close>.\<close>

theorem scrub_keeps_bare_token: "scrub ''https://s3cret@rpc.example'' = ''https://s3cret@rpc.example''"
  by code_simp

end
